(* ===== verification/Prelude.thy ===== *)
theory Prelude
  imports Main "HOL-Library.Word" "HOL-Library.AList"
begin

text \<open>
  Shared vocabulary of the development: the machine types of the Rust sources, the result of a
  fallible Rust function, the loops the codecs and the protocol code use, and the generic lemmas
  on them that every component theory rewrites with.

  A Rust function that returns \<open>Result<T, E>\<close> and may also panic (a slice out of range, an
  \<open>unwrap\<close> of \<open>None\<close>, an \<open>unreachable!()\<close>) has the type
  \<open>('e, 'a) outcome\<close>: \<open>Ok\<close>, \<open>Err\<close>, or \<open>Panic\<close>.
\<close>

named_theorems outcome_simps \<open>facts about the outcomes of sequenced operations\<close>

type_synonym byte = "8 word"
type_synonym bytes = "byte list"
type_synonym u16 = "16 word"
type_synonym u32 = "32 word"
type_synonym u64 = "64 word"

subsection \<open>Outcomes\<close>

datatype ('e, 'a) outcome = Ok 'a | Err 'e | Panic

text \<open>The operator \<open>?\<close> of Rust: continue with the value, or return the failure.\<close>

primrec and_then :: "('e, 'a) outcome \<Rightarrow> ('a \<Rightarrow> ('e, 'b) outcome) \<Rightarrow> ('e, 'b) outcome" where
  "and_then (Ok x) f = f x"
| "and_then (Err e) f = Err e"
| "and_then Panic f = Panic"

text \<open>\<open>map_err\<close>, and the conversions \<open>#[from]\<close> that \<open>?\<close> applies to an error.\<close>

primrec map_err :: "('e \<Rightarrow> 'f) \<Rightarrow> ('e, 'a) outcome \<Rightarrow> ('f, 'a) outcome" where
  "map_err g (Ok x) = Ok x"
| "map_err g (Err e) = Err (g e)"
| "map_err g Panic = Panic"

text \<open>\<open>Option::ok_or\<close> and \<open>Option::unwrap\<close>.\<close>

primrec ok_or :: "'e \<Rightarrow> 'a option \<Rightarrow> ('e, 'a) outcome" where
  "ok_or e None = Err e"
| "ok_or e (Some x) = Ok x"

primrec unwrap :: "'a option \<Rightarrow> ('e, 'a) outcome" where
  "unwrap None = Panic"
| "unwrap (Some x) = Ok x"

lemma and_then_eq_Ok [outcome_simps]:
  "and_then m f = Ok y \<longleftrightarrow> (\<exists>x. m = Ok x \<and> f x = Ok y)"
  by (cases m) auto

lemma and_then_eq_Err [outcome_simps]:
  "and_then m f = Err e \<longleftrightarrow> m = Err e \<or> (\<exists>x. m = Ok x \<and> f x = Err e)"
  by (cases m) auto

lemma and_then_eq_Panic [outcome_simps]:
  "and_then m f = Panic \<longleftrightarrow> m = Panic \<or> (\<exists>x. m = Ok x \<and> f x = Panic)"
  by (cases m) auto

lemma map_err_eq_Ok [simp]: "map_err g m = Ok y \<longleftrightarrow> m = Ok y"
  by (cases m) auto

lemma map_err_eq_Panic [simp]: "map_err g m = Panic \<longleftrightarrow> m = Panic"
  by (cases m) auto

lemma ok_or_eq_Ok [simp]: "ok_or e m = Ok y \<longleftrightarrow> m = Some y"
  by (cases m) auto

lemma ok_or_not_Panic [simp]: "ok_or e m \<noteq> Panic"
  by (cases m) auto

lemma unwrap_eq_Ok [simp]: "unwrap m = Ok y \<longleftrightarrow> m = Some y"
  by (cases m) auto

lemma unwrap_eq_Panic [simp]: "unwrap m = Panic \<longleftrightarrow> m = None"
  by (cases m) auto

lemma and_then_assoc: "and_then (and_then m f) g = and_then m (\<lambda>x. and_then (f x) g)"
  by (cases m) auto

text \<open>
  A fallible function that updates a state returns the new state beside its outcome: what it
  changed before it failed stays changed. \<open>st_then\<close> is \<open>?\<close> for such functions.
\<close>

fun st_then :: "'s \<times> ('e, 'a) outcome \<Rightarrow> ('s \<Rightarrow> 'a \<Rightarrow> 't \<times> ('e, 'b) outcome) \<Rightarrow> ('s \<Rightarrow> 't) \<Rightarrow> 't \<times> ('e, 'b) outcome" where
  "st_then (s, Ok x) f g = f s x"
| "st_then (s, Err e) f g = (g s, Err e)"
| "st_then (s, Panic) f g = (g s, Panic)"

lemma st_then_Ok:
  "st_then m f g = (t, Ok y) \<longleftrightarrow> (\<exists>s x. m = (s, Ok x) \<and> f s x = (t, Ok y))"
  by (cases "(m, f, g)" rule: st_then.cases) auto

lemma st_then_split:
  "P (st_then m f g) \<longleftrightarrow>
     (\<forall>s x. m = (s, Ok x) \<longrightarrow> P (f s x)) \<and> (\<forall>s e. m = (s, Err e) \<longrightarrow> P (g s, Err e)) \<and>
     (\<forall>s. m = (s, Panic) \<longrightarrow> P (g s, Panic))"
  by (cases "(m, f, g)" rule: st_then.cases) auto

lemma st_then_split_asm:
  "P (st_then m f g) \<longleftrightarrow>
     \<not> ((\<exists>s x. m = (s, Ok x) \<and> \<not> P (f s x)) \<or> (\<exists>s e. m = (s, Err e) \<and> \<not> P (g s, Err e)) \<or>
        (\<exists>s. m = (s, Panic) \<and> \<not> P (g s, Panic)))"
  by (cases "(m, f, g)" rule: st_then.cases) auto

lemmas st_then_splits = st_then_split st_then_split_asm

subsection \<open>Sequenced writes and counted reads\<close>

text \<open>
  An encoder appends to a writer; the model returns the bytes it appends. A sequence of writes
  stops at the first failure and otherwise appends the outputs in order.
\<close>

primrec write_seq :: "('e, bytes) outcome list \<Rightarrow> ('e, bytes) outcome" where
  "write_seq [] = Ok []"
| "write_seq (w # ws) = and_then w (\<lambda>a. and_then (write_seq ws) (\<lambda>b. Ok (a @ b)))"

text \<open>
  A decoder reads from the remaining input and returns a value with what is left of the input.
  \<open>for _ in 0..n { xs.push(read()?) }\<close> is \<open>read_times n\<close>.
\<close>

fun read_times :: "nat \<Rightarrow> (bytes \<Rightarrow> ('e, 'a \<times> bytes) outcome) \<Rightarrow> bytes \<Rightarrow> ('e, 'a list \<times> bytes) outcome" where
  "read_times 0 rd r = Ok ([], r)"
| "read_times (Suc n) rd r =
     and_then (rd r) (\<lambda>(x, r'). and_then (read_times n rd r') (\<lambda>(xs, r''). Ok (x # xs, r'')))"

lemma write_seq_Ok_Cons:
  "write_seq (w # ws) = Ok bs \<longleftrightarrow> (\<exists>a b. w = Ok a \<and> write_seq ws = Ok b \<and> bs = a @ b)"
  by (auto simp: outcome_simps)

lemma write_seq_single [simp]: "write_seq [w] = w"
  by (cases w) auto

lemma write_seq_append:
  "write_seq (ws @ vs) = and_then (write_seq ws) (\<lambda>a. and_then (write_seq vs) (\<lambda>b. Ok (a @ b)))"
proof (induction ws)
  case Nil
  then show ?case by (cases "write_seq vs") auto
next
  case (Cons w ws)
  then show ?case
    by (cases w; cases "write_seq ws"; cases "write_seq vs") auto
qed

lemma write_seq_eq_Panic: "write_seq ws = Panic \<Longrightarrow> Panic \<in> set ws"
  by (induction ws) (auto simp: outcome_simps)

lemma read_times_safe: "(\<And>r. rd r \<noteq> Panic) \<Longrightarrow> read_times n rd r \<noteq> Panic"
  by (induction n arbitrary: r) (auto simp: outcome_simps split: prod.splits)

lemma read_times_all:
  assumes "\<And>r x r'. rd r = Ok (x, r') \<Longrightarrow> P x" and "read_times n rd r = Ok (xs, r')"
  shows "length xs = n \<and> (\<forall>x\<in>set xs. P x)"
  using assms(2)
proof (induction n arbitrary: r xs)
  case (Suc n)
  then obtain x r1 ys where "rd r = Ok (x, r1)" "read_times n rd r1 = Ok (ys, r')" "xs = x # ys"
    by (auto simp: outcome_simps)
  then show ?case
    using Suc.IH assms(1) by auto
qed simp

text \<open>
  Reading back a written sequence: if every element reads back, a counted read of the written
  sequence returns its elements and leaves the rest of the input.
\<close>

lemma read_times_write_seq:
  assumes "write_seq (map enc xs) = Ok bs"
    and "\<And>x a r. x \<in> set xs \<Longrightarrow> enc x = Ok a \<Longrightarrow> rd (a @ r) = Ok (x, r)"
  shows "read_times (length xs) rd (bs @ r) = Ok (xs, r)"
  using assms
proof (induction xs arbitrary: bs)
  case (Cons x xs)
  then obtain a b where ab: "enc x = Ok a" "write_seq (map enc xs) = Ok b" "bs = a @ b"
    by (auto simp: outcome_simps)
  have "rd (a @ b @ r) = Ok (x, b @ r)"
    using ab Cons.prems(2) by simp
  moreover have "read_times (length xs) rd (b @ r) = Ok (xs, r)"
    using ab Cons.prems(2) by (intro Cons.IH) auto
  ultimately show ?case
    using ab by simp
qed simp

lemma write_seq_total:
  "(\<And>x. x \<in> set xs \<Longrightarrow> \<exists>a. enc x = Ok a) \<Longrightarrow> \<exists>bs. write_seq (map enc xs) = Ok bs"
  by (induction xs) (fastforce simp: outcome_simps)+

subsection \<open>Buffers\<close>

text \<open>
  \<open>slice::chunks(n)\<close>: consecutive pieces of \<open>n\<close> bytes, the last one possibly shorter.
  Writing into a buffer overwrites its front and keeps the rest.
\<close>

function chunks_of :: "nat \<Rightarrow> 'a list \<Rightarrow> 'a list list" where
  "chunks_of n xs = (if n = 0 \<or> xs = [] then [] else take n xs # chunks_of n (drop n xs))"
  by pat_completeness auto
termination
  by (relation "measure (\<lambda>(n, xs). length xs)") auto

declare chunks_of.simps [simp del]

definition write_into :: "'a list \<Rightarrow> 'a list \<Rightarrow> 'a list" where
  "write_into buf xs = xs @ drop (length xs) buf"

lemma length_write_into [simp]: "length xs \<le> length buf \<Longrightarrow> length (write_into buf xs) = length buf"
  by (simp add: write_into_def)

lemma take_write_into [simp]: "take (length xs) (write_into buf xs) = xs"
  by (simp add: write_into_def)

lemma write_into_full [simp]: "length xs = length buf \<Longrightarrow> write_into buf xs = xs"
  by (simp add: write_into_def)

lemma concat_chunks_of: "0 < n \<Longrightarrow> concat (chunks_of n xs) = xs"
  by (induction n xs rule: chunks_of.induct) (simp add: chunks_of.simps)

lemma chunks_of_bounds: "c \<in> set (chunks_of n xs) \<Longrightarrow> 0 < length c \<and> length c \<le> n"
proof (induction n xs rule: chunks_of.induct)
  case (1 n xs)
  then show ?case
    by (cases "n = 0 \<or> xs = []") (auto simp: chunks_of.simps [of n xs])
qed

lemma length_chunks_of: "0 < n \<Longrightarrow> length (chunks_of n xs) = (length xs + n - 1) div n"
proof (induction n xs rule: chunks_of.induct)
  case (1 n xs)
  show ?case
  proof (cases "xs = []")
    case False
    have "length (chunks_of n xs) = Suc ((length xs - n + n - 1) div n)"
      using 1 False by (simp add: chunks_of.simps [of n xs])
    also have "\<dots> = (length xs + n - 1) div n"
    proof (cases "n \<le> length xs")
      case True
      then have "length xs + n - 1 = n + (length xs - 1)" "length xs - n + n - 1 = length xs - 1"
        using \<open>xs \<noteq> []\<close> by (cases xs; simp)+
      moreover have "(n + (length xs - 1)) div n = Suc ((length xs - 1) div n)"
        using "1.prems" by (subst div_add_self1) simp_all
      ultimately show ?thesis by simp
    next
      case False
      then have "(length xs + n - 1) div n = 1"
        using \<open>xs \<noteq> []\<close> "1.prems" by (intro div_nat_eqI) (cases xs, auto)
      then show ?thesis
        using False "1.prems" by simp
    qed
    finally show ?thesis .
  qed (use "1.prems" in \<open>simp add: chunks_of.simps\<close>)
qed

subsection \<open>Machine arithmetic\<close>

text \<open>
  Unsigned subtraction and multiplication panic on overflow when the build has overflow checks
  (the default of debug builds) and wrap otherwise; \<open>checks\<close> is that build setting.
\<close>

definition checked_sub :: "bool \<Rightarrow> 'a::len word \<Rightarrow> 'a word \<Rightarrow> ('e, 'a word) outcome" where
  "checked_sub checks a b = (if checks \<and> a < b then Panic else Ok (a - b))"

definition checked_mul :: "bool \<Rightarrow> 'a::len word \<Rightarrow> 'a word \<Rightarrow> ('e, 'a word) outcome" where
  "checked_mul checks a b =
     (if checks \<and> 2 ^ LENGTH('a) \<le> unat a * unat b then Panic else Ok (a * b))"

lemma unat_of_nat_u16 [simp]: "n \<le> 65535 \<Longrightarrow> unat (of_nat n :: u16) = n"
  by (simp add: unat_of_nat)

lemma unat_of_nat_u32: "n < 2 ^ 32 \<Longrightarrow> unat (of_nat n :: u32) = n"
  by (simp add: unat_of_nat)

lemma unat_of_nat_u16_mod: "unat (of_nat n :: u16) = n mod 65536"
  by (simp add: unat_of_nat)

lemma unat_lt2p_u16: "unat (x :: u16) < 65536"
  using unsigned_less [of x] by simp

lemma unat_u16_le [simp]: "unat (x :: u16) \<le> 65535"
  using unat_lt2p_u16 [of x] by simp

lemma unat_lt2p_u32: "unat (x :: u32) < 4294967296"
  using unsigned_less [of x] by simp

lemma checked_mul_exact:
  fixes a b :: "'a::len word"
  assumes "unat a * unat b < 2 ^ LENGTH('a)"
  shows "checked_mul checks a b = Ok (a * b)" and "unat (a * b) = unat a * unat b"
proof -
  show "checked_mul checks a b = Ok (a * b)"
    using assms by (simp add: checked_mul_def)
  show "unat (a * b) = unat a * unat b"
    using assms by (rule unat_mult_lem [THEN iffD1])
qed

subsection \<open>Hash sets and hash maps\<close>

text \<open>
  A Rust \<open>HashSet\<close> is a list without duplicates, in the order it iterates; inserting a new
  element puts it last. A \<open>HashMap\<close> that the code iterates over is an association list with
  distinct keys, updated with \<open>AList.update\<close> and \<open>AList.delete\<close>; one that the code
  only looks up is a partial function.
\<close>

definition hset_insert :: "'a \<Rightarrow> 'a list \<Rightarrow> 'a list" where
  "hset_insert x xs = (if x \<in> set xs then xs else xs @ [x])"

definition hset_of :: "'a list \<Rightarrow> 'a list" where
  "hset_of xs = fold hset_insert xs []"

lemma set_hset_insert [simp]: "set (hset_insert x xs) = insert x (set xs)"
  by (auto simp: hset_insert_def)

lemma distinct_hset_insert [simp]: "distinct xs \<Longrightarrow> distinct (hset_insert x xs)"
  by (simp add: hset_insert_def)

lemma set_fold_hset_insert: "set (fold hset_insert xs acc) = set xs \<union> set acc"
  by (induction xs arbitrary: acc) auto

lemma distinct_fold_hset_insert: "distinct acc \<Longrightarrow> distinct (fold hset_insert xs acc)"
  by (induction xs arbitrary: acc) auto

lemma set_hset_of [simp]: "set (hset_of xs) = set xs"
  by (simp add: hset_of_def set_fold_hset_insert)

lemma distinct_hset_of [simp]: "distinct (hset_of xs)"
  by (simp add: hset_of_def distinct_fold_hset_insert)

lemma fold_hset_insert_distinct:
  "distinct (acc @ xs) \<Longrightarrow> fold hset_insert xs acc = acc @ xs"
  by (induction xs arbitrary: acc) (auto simp: hset_insert_def)

lemma hset_of_distinct: "distinct xs \<Longrightarrow> hset_of xs = xs"
  using fold_hset_insert_distinct [of "[]" xs] by (simp add: hset_of_def)

text \<open>The entries of an association list with distinct keys are its lookups.\<close>

lemma in_alist_iff_map_of: "distinct (map fst al) \<Longrightarrow> (k, v) \<in> set al \<longleftrightarrow> map_of al k = Some v"
  by simp

lemma map_of_alist_update [simp]: "map_of (AList.update k v al) j = (if j = k then Some v else map_of al j)"
  by (simp add: update_conv')

lemma map_of_alist_delete [simp]: "map_of (AList.delete k al) j = (if j = k then None else map_of al j)"
  by (simp add: delete_conv')

text \<open>\<open>Iterator::position\<close>: the index of the first element that satisfies a predicate.\<close>

fun position :: "('a \<Rightarrow> bool) \<Rightarrow> 'a list \<Rightarrow> nat option" where
  "position p [] = None"
| "position p (x # xs) = (if p x then Some 0 else map_option Suc (position p xs))"

lemma position_Some_iff:
  "position p xs = Some i \<longleftrightarrow> i < length xs \<and> p (xs ! i) \<and> (\<forall>j<i. \<not> p (xs ! j))"
proof (induction xs arbitrary: i)
  case (Cons x xs)
  show ?case
    using Cons.IH by (cases i) (auto simp: less_Suc_eq_0_disj)
qed simp

lemma position_None_iff: "position p xs = None \<longleftrightarrow> (\<forall>x\<in>set xs. \<not> p x)"
  by (induction xs) auto

lemma position_distinct:
  "distinct xs \<Longrightarrow> i < length xs \<Longrightarrow> position (\<lambda>x. x = xs ! i) xs = Some i"
  by (auto simp: position_Some_iff nth_eq_iff_index_eq)

end
