(* ===== verification/Messages.thy ===== *)
theory Messages
  imports Prelude
begin

text \<open>
  The data of the relay protocol (\<open>protocol/src/protocol.rs\<close>, \<open>constants.rs\<close>,
  \<open>error.rs\<close>): identifiers, the message enumerations with the kind byte of each
  constructor, encrypted chunks and envelopes, and the state messages exchanged about meetings
  and sessions. Constructors that share a name in Rust carry the name of their enumeration.

  A UUID is its 16 bytes and a user identifier its 32 bytes, as \<open>as_bytes\<close> and
  \<open>as_ref\<close> return them; a \<open>StatusCode\<close> is its number.
\<close>

type_synonym uuid = bytes
type_synonym meeting_id = uuid
type_synonym session_id = uuid
type_synonym user_id = bytes
type_synonym status_code = u16
type_synonym public_key = bytes

subsection \<open>Constants\<close>

definition PATTERN :: string where
  "PATTERN = ''Noise_NN_25519_ChaChaPoly_BLAKE2s''"

definition PEM_PATTERN :: string where
  "PEM_PATTERN = ''NOISE PATTERN''"

definition PEM_PRIVATE :: string where
  "PEM_PRIVATE = ''NOISE PRIVATE KEY''"

definition PEM_PUBLIC :: string where
  "PEM_PUBLIC = ''NOISE PUBLIC KEY''"

definition TAGLEN :: nat where
  "TAGLEN = 16"

definition MAX_BUFFER_SIZE :: nat where
  "MAX_BUFFER_SIZE = 65535"

definition NOOP :: byte where "NOOP = 0"
definition ERROR_KIND :: byte where "ERROR_KIND = 255"
definition HANDSHAKE_INITIATOR :: byte where "HANDSHAKE_INITIATOR = 1"
definition HANDSHAKE_RESPONDER :: byte where "HANDSHAKE_RESPONDER = 2"
definition HANDSHAKE_SERVER :: byte where "HANDSHAKE_SERVER = 1"
definition HANDSHAKE_PEER :: byte where "HANDSHAKE_PEER = 2"
definition TRANSPARENT :: byte where "TRANSPARENT = 128"
definition OPAQUE :: byte where "OPAQUE = 129"
definition OPAQUE_SERVER :: byte where "OPAQUE_SERVER = 1"
definition OPAQUE_PEER :: byte where "OPAQUE_PEER = 2"
definition MEETING_NEW :: byte where "MEETING_NEW = 1"
definition MEETING_CREATED :: byte where "MEETING_CREATED = 2"
definition MEETING_JOIN :: byte where "MEETING_JOIN = 3"
definition MEETING_READY :: byte where "MEETING_READY = 4"
definition SESSION_NEW :: byte where "SESSION_NEW = 5"
definition SESSION_CREATED :: byte where "SESSION_CREATED = 6"
definition SESSION_READY :: byte where "SESSION_READY = 7"
definition SESSION_CONNECTION :: byte where "SESSION_CONNECTION = 8"
definition SESSION_ACTIVE :: byte where "SESSION_ACTIVE = 9"
definition SESSION_TIMEOUT :: byte where "SESSION_TIMEOUT = 10"
definition SESSION_CLOSE :: byte where "SESSION_CLOSE = 11"
definition SESSION_FINISHED :: byte where "SESSION_FINISHED = 12"
definition ENCODING_BLOB :: byte where "ENCODING_BLOB = 1"
definition ENCODING_JSON :: byte where "ENCODING_JSON = 2"

lemmas kind_defs = NOOP_def ERROR_KIND_def HANDSHAKE_INITIATOR_def HANDSHAKE_RESPONDER_def
  HANDSHAKE_SERVER_def HANDSHAKE_PEER_def TRANSPARENT_def OPAQUE_def OPAQUE_SERVER_def
  OPAQUE_PEER_def MEETING_NEW_def MEETING_CREATED_def MEETING_JOIN_def MEETING_READY_def
  SESSION_NEW_def SESSION_CREATED_def SESSION_READY_def SESSION_CONNECTION_def
  SESSION_ACTIVE_def SESSION_TIMEOUT_def SESSION_CLOSE_def SESSION_FINISHED_def
  ENCODING_BLOB_def ENCODING_JSON_def

subsection \<open>Errors\<close>

text \<open>
  Errors of the noise library, of the PEM library and of input/output, with the errors of the
  protocol library that wrap them. \<open>encoding_error\<close> wraps any error as an I/O error of kind
  \<open>Other\<close>; besides protocol errors the codecs wrap a failed conversion to a status code and
  a failed conversion of a slice to an array.
\<close>

datatype snow_error =
  SnowPattern | SnowInit | SnowPrereq | SnowState | SnowInput | SnowDh | SnowDecrypt

datatype pem_error = PemError

datatype protocol_error =
    MaxBufferSize nat
  | BadEncodingIdentity
  | EncodingVersion u16 u16
  | EncodingKind byte
  | PatternMismatch string
  | BadKeypairPem
  | NotTransportState
  | Io io_error
  | Snow snow_error
  | Pem pem_error
and io_error =
    Stream_Error
  | Other_Protocol protocol_error
  | Other_InvalidStatusCode
  | Other_TryFromSlice

subsection \<open>Handshake and transparent messages\<close>

datatype handshake_message =
    Handshake_Noop
  | Handshake_Initiator nat bytes
  | Handshake_Responder nat bytes

fun HandshakeMessage_kind :: "handshake_message \<Rightarrow> byte" where
  "HandshakeMessage_kind Handshake_Noop = NOOP"
| "HandshakeMessage_kind (Handshake_Initiator _ _) = HANDSHAKE_INITIATOR"
| "HandshakeMessage_kind (Handshake_Responder _ _) = HANDSHAKE_RESPONDER"

datatype transparent_message =
    Transparent_Noop
  | Transparent_Error status_code string
  | ServerHandshake handshake_message
  | PeerHandshake public_key handshake_message

fun TransparentMessage_kind :: "transparent_message \<Rightarrow> byte" where
  "TransparentMessage_kind Transparent_Noop = NOOP"
| "TransparentMessage_kind (Transparent_Error _ _) = ERROR_KIND"
| "TransparentMessage_kind (ServerHandshake _) = HANDSHAKE_SERVER"
| "TransparentMessage_kind (PeerHandshake _ _) = HANDSHAKE_PEER"

subsection \<open>Server messages\<close>

record meeting_state =
  meeting_id :: meeting_id
  registered_participants :: "public_key list"

record session_request =
  participant_keys :: "public_key list"

record session_state =
  session_id :: session_id
  all_participants :: "public_key list"

datatype server_message =
    Server_Noop
  | Server_Error status_code string
  | NewMeeting user_id "user_id list"
  | MeetingCreated meeting_state
  | JoinMeeting meeting_id user_id
  | MeetingReady meeting_state
  | NewSession session_request
  | SessionConnection session_id public_key
  | SessionCreated session_state
  | SessionReady session_state
  | SessionActive session_state
  | SessionTimeout session_id
  | CloseSession session_id
  | SessionFinished session_id

fun ServerMessage_kind :: "server_message \<Rightarrow> byte" where
  "ServerMessage_kind Server_Noop = NOOP"
| "ServerMessage_kind (Server_Error _ _) = ERROR_KIND"
| "ServerMessage_kind (NewMeeting _ _) = MEETING_NEW"
| "ServerMessage_kind (MeetingCreated _) = MEETING_CREATED"
| "ServerMessage_kind (JoinMeeting _ _) = MEETING_JOIN"
| "ServerMessage_kind (MeetingReady _) = MEETING_READY"
| "ServerMessage_kind (NewSession _) = SESSION_NEW"
| "ServerMessage_kind (SessionConnection _ _) = SESSION_CONNECTION"
| "ServerMessage_kind (SessionCreated _) = SESSION_CREATED"
| "ServerMessage_kind (SessionReady _) = SESSION_READY"
| "ServerMessage_kind (SessionActive _) = SESSION_ACTIVE"
| "ServerMessage_kind (SessionTimeout _) = SESSION_TIMEOUT"
| "ServerMessage_kind (CloseSession _) = SESSION_CLOSE"
| "ServerMessage_kind (SessionFinished _) = SESSION_FINISHED"

subsection \<open>Encrypted envelopes and opaque messages\<close>

datatype encoding = Encoding_Noop | Blob | Json

fun Encoding_kind :: "encoding \<Rightarrow> byte" where
  "Encoding_kind Encoding_Noop = NOOP"
| "Encoding_kind Blob = ENCODING_BLOB"
| "Encoding_kind Json = ENCODING_JSON"

record chunk =
  chunk_length :: nat
  chunk_contents :: bytes

record sealed_envelope =
  env_encoding :: encoding
  env_chunks :: "chunk list"
  env_broadcast :: bool

datatype opaque_message =
    Opaque_Noop
  | Opaque_ServerMessage sealed_envelope
  | PeerMessage public_key "session_id option" sealed_envelope

fun OpaqueMessage_kind :: "opaque_message \<Rightarrow> byte" where
  "OpaqueMessage_kind Opaque_Noop = NOOP"
| "OpaqueMessage_kind (Opaque_ServerMessage _) = OPAQUE_SERVER"
| "OpaqueMessage_kind (PeerMessage _ _ _) = OPAQUE_PEER"

subsection \<open>Requests and responses\<close>

datatype request_message =
    Request_Noop
  | Request_Transparent transparent_message
  | Request_Opaque opaque_message

fun RequestMessage_kind :: "request_message \<Rightarrow> byte" where
  "RequestMessage_kind Request_Noop = NOOP"
| "RequestMessage_kind (Request_Transparent _) = TRANSPARENT"
| "RequestMessage_kind (Request_Opaque _) = OPAQUE"

datatype response_message =
    Response_Noop
  | Response_Transparent transparent_message
  | Response_Opaque opaque_message

fun ResponseMessage_kind :: "response_message \<Rightarrow> byte" where
  "ResponseMessage_kind Response_Noop = NOOP"
| "ResponseMessage_kind (Response_Transparent _) = TRANSPARENT"
| "ResponseMessage_kind (Response_Opaque _) = OPAQUE"

subsection \<open>Session states seen by a participant\<close>

text \<open>
  \<open>SessionState\<close> numbers the participants from one in the order of the list; party numbers
  are 16-bit and non-zero, and \<open>PartyNumber::new(0).unwrap()\<close> panics.
\<close>

definition PartyNumber_new :: "u16 \<Rightarrow> u16 option" where
  "PartyNumber_new n = (if n = 0 then None else Some n)"

definition SessionState_len :: "session_state \<Rightarrow> nat" where
  "SessionState_len s = length (all_participants s)"

definition party_number :: "session_state \<Rightarrow> public_key \<Rightarrow> ('e, u16 option) outcome" where
  "party_number s key =
     (case position (\<lambda>k. k = key) (all_participants s) of
        None \<Rightarrow> Ok None
      | Some pos \<Rightarrow>
          and_then (unwrap (PartyNumber_new (of_nat (pos + 1)))) (\<lambda>n. Ok (Some n)))"

fun peer_key_from :: "nat \<Rightarrow> public_key list \<Rightarrow> u16 \<Rightarrow> public_key option" where
  "peer_key_from index [] n = None"
| "peer_key_from index (key # keys) n =
     (if index + 1 = unat n then Some key else peer_key_from (index + 1) keys n)"

definition peer_key :: "session_state \<Rightarrow> u16 \<Rightarrow> public_key option" where
  "peer_key s n = peer_key_from 0 (all_participants s) n"

definition connections :: "session_state \<Rightarrow> public_key \<Rightarrow> public_key list" where
  "connections s own_key =
     (if all_participants s = [] then []
      else case position (\<lambda>k. k = own_key) (all_participants s) of
        Some pos \<Rightarrow>
          if pos < length (all_participants s) - 1 then drop (pos + 1) (all_participants s) else []
      | None \<Rightarrow> [])"

definition recipients :: "session_state \<Rightarrow> public_key \<Rightarrow> public_key list" where
  "recipients s own_key = filter (\<lambda>k. k \<noteq> own_key) (all_participants s)"

lemma peer_key_from_nth:
  "index < unat n \<Longrightarrow>
   peer_key_from index keys n =
     (if unat n - 1 - index < length keys then Some (keys ! (unat n - 1 - index)) else None)"
proof (induction keys arbitrary: index)
  case (Cons k keys)
  show ?case
  proof (cases "index + 1 = unat n")
    case False
    with Cons.prems have "index + 1 < unat n" by simp
    then show ?thesis
      using Cons.IH [of "index + 1"] False by (auto simp: nth_Cons')
  qed auto
qed simp

lemma peer_key_nth:
  "0 < n \<Longrightarrow> peer_key s n =
     (if unat n - 1 < length (all_participants s)
      then Some (all_participants s ! (unat n - 1)) else None)"
  using peer_key_from_nth [of 0 n "all_participants s"]
  by (simp add: peer_key_def word_less_nat_alt)

lemma peer_key_0: "peer_key s 0 = None"
proof -
  have "peer_key_from index keys 0 = None" for index keys
    by (induction keys arbitrary: index) auto
  then show ?thesis by (simp add: peer_key_def)
qed

lemma connections_drop:
  "connections s own_key =
     (case position (\<lambda>k. k = own_key) (all_participants s) of
        Some pos \<Rightarrow> drop (pos + 1) (all_participants s) | None \<Rightarrow> [])"
  by (auto simp: connections_def split: option.splits)

lemma set_recipients: "set (recipients s own_key) = set (all_participants s) - {own_key}"
  by (auto simp: recipients_def)

subsection \<open>Properties\<close>

lemma party_number_at:
  assumes "distinct (all_participants s)" and "i < length (all_participants s)"
  shows "party_number s (all_participants s ! i) =
    (if (of_nat (i + 1) :: u16) = 0 then Panic else Ok (Some (of_nat (i + 1))))"
  using assms by (simp add: party_number_def position_distinct PartyNumber_new_def unwrap_def)

lemma party_number_absent: "k \<notin> set (all_participants s) \<Longrightarrow> party_number s k = Ok None"
  using position_None_iff [of "\<lambda>ka. ka = k" "all_participants s"] by (auto simp: party_number_def)

text \<open>
  In a session of at most 65534 participants with distinct keys, \<open>party_number\<close> and
  \<open>peer_key\<close> are inverse to each other: party numbers run from 1 to the number of participants
  and no lookup panics.
\<close>

lemma party_number_peer_key:
  assumes "distinct (all_participants s)" and "length (all_participants s) \<le> 65534"
  shows "(party_number s key = (Ok (Some n) :: ('e, u16 option) outcome) \<longleftrightarrow> peer_key s n = Some key) \<and>
    (key \<in> set (all_participants s) \<longrightarrow>
      (\<exists>n. party_number s key = (Ok (Some n) :: ('e, u16 option) outcome) \<and>
        1 \<le> unat n \<and> unat n \<le> length (all_participants s)))"
proof -
  have at: "party_number s (all_participants s ! i) = (Ok (Some (of_nat (i + 1))) :: ('e, u16 option) outcome) \<and>
      unat (of_nat (i + 1) :: u16) = i + 1" if "i < length (all_participants s)" for i
    using party_number_at [OF assms(1) that] assms(2) that by (auto simp: word_unat_eq_iff simp del: of_nat_add of_nat_Suc)
  show ?thesis
  proof (cases "key \<in> set (all_participants s)")
    case True
    then obtain i where i: "i < length (all_participants s)" "key = all_participants s ! i"
      by (auto simp: in_set_conv_nth)
    have "peer_key s n = Some key \<longleftrightarrow> unat n = i + 1"
    proof (cases "n = 0")
      case True
      then show ?thesis by (simp add: peer_key_0)
    next
      case False
      then have "0 < unat n" by (simp add: unat_gt_0)
      then show ?thesis
        using peer_key_nth [of n s] False i assms(1)
        by (auto simp: nth_eq_iff_index_eq word_gt_0)
    qed
    moreover have "party_number s key = (Ok (Some n) :: ('e, u16 option) outcome) \<longleftrightarrow> unat n = i + 1"
      using at [OF i(1)] i by (auto simp: word_unat_eq_iff simp del: of_nat_add of_nat_Suc)
    ultimately show ?thesis
      using at [OF i(1)] i by (auto intro!: exI [of _ "of_nat (i + 1)"] simp del: of_nat_add of_nat_Suc)
  next
    case False
    have "peer_key s n \<noteq> Some key"
      using False peer_key_0 [of s] peer_key_nth [of n s] by (cases "n = 0") (auto simp: word_gt_0)
    then show ?thesis using False by (simp add: party_number_absent)
  qed
qed

text \<open>
  The participant in position 65535 of a session has no party number: the conversion to 16
  bits gives zero and the lookup panics.
\<close>

lemma party_number_overflow_panics:
  assumes "distinct (all_participants s)" and "65535 < length (all_participants s)"
  shows "party_number s (all_participants s ! 65535) = Panic"
  using party_number_at [OF assms] by simp

lemma party_number_overflow_panics_witness:
  "\<exists>s. distinct (all_participants s) \<and> party_number s (all_participants s ! 65535) = Panic"
proof -
  have "inj (\<lambda>n. replicate n (0 :: byte))"
    by (auto intro!: injI dest: arg_cong [of _ _ length])
  then have "distinct (map (\<lambda>n. replicate n (0 :: byte)) [0..<65536])"
    by (auto simp: distinct_map simp del: upt_rec_numeral intro: inj_on_subset)
  then show ?thesis
    using party_number_overflow_panics
      [of "\<lparr>session_id = [], all_participants = map (\<lambda>n. replicate n 0) [0..<65536]\<rparr>"]
    by (intro exI [of _ "\<lparr>session_id = [], all_participants = map (\<lambda>n. replicate n 0) [0..<65536]\<rparr>"])
      (simp del: upt_rec_numeral)
qed

end
