(* ===== verification/Binary_Stream.thy ===== *)
theory Binary_Stream
  imports Messages
begin

text \<open>
  The codecs write and read primitive values with the \<open>binary-stream\<close> crate and convert
  numbers to status codes with the \<open>http\<close> crate. Both are outside the repository, so their
  operations are a parameter of the codecs: a record of functions. A write returns the bytes it
  appends to the output; a read takes the remaining input and returns a value with the rest.

  \<^item> \<open>stream_laws\<close> is what the codecs rely on: a value within the configured maximum buffer
    size is written, reads back from the front of any input, \<open>read_bytes n\<close> returns
    \<open>n\<close> bytes, \<open>read_string\<close> respects the maximum, and no operation panics.
  \<^item> \<open>le_stream\<close> is a concrete stream (little endian, 32-bit string length prefix, reads and
    writes limited to the maximum buffer size) that satisfies the laws; it is used only to show
    that the laws can hold, never in the definitions of the codecs.
\<close>

record codec_ops =
  write_u8 :: "byte \<Rightarrow> (io_error, bytes) outcome"
  write_u16 :: "u16 \<Rightarrow> (io_error, bytes) outcome"
  write_u32 :: "u32 \<Rightarrow> (io_error, bytes) outcome"
  write_bool :: "bool \<Rightarrow> (io_error, bytes) outcome"
  write_string :: "string \<Rightarrow> (io_error, bytes) outcome"
  write_bytes :: "bytes \<Rightarrow> (io_error, bytes) outcome"
  read_u8 :: "bytes \<Rightarrow> (io_error, byte \<times> bytes) outcome"
  read_u16 :: "bytes \<Rightarrow> (io_error, u16 \<times> bytes) outcome"
  read_u32 :: "bytes \<Rightarrow> (io_error, u32 \<times> bytes) outcome"
  read_bool :: "bytes \<Rightarrow> (io_error, bool \<times> bytes) outcome"
  read_string :: "bytes \<Rightarrow> (io_error, string \<times> bytes) outcome"
  read_bytes :: "nat \<Rightarrow> bytes \<Rightarrow> (io_error, bytes \<times> bytes) outcome"
  valid_status :: "u16 \<Rightarrow> bool"

text \<open>A write \<open>w\<close> of the value \<open>x\<close> succeeds and \<open>rd\<close> reads it back.\<close>

definition reads_back :: "(io_error, bytes) outcome \<Rightarrow> (bytes \<Rightarrow> (io_error, 'a \<times> bytes) outcome) \<Rightarrow> 'a \<Rightarrow> bool" where
  "reads_back w rd x \<longleftrightarrow> (\<exists>bs. w = Ok bs \<and> (\<forall>r. rd (bs @ r) = Ok (x, r)))"

definition never_panics :: "('x \<Rightarrow> ('e, 'a) outcome) \<Rightarrow> bool" where
  "never_panics f \<longleftrightarrow> (\<forall>x. f x \<noteq> Panic)"

definition stream_laws :: "codec_ops \<Rightarrow> bool" where
  "stream_laws B \<longleftrightarrow>
     (\<forall>x. reads_back (write_u8 B x) (read_u8 B) x) \<and>
     (\<forall>x. reads_back (write_u16 B x) (read_u16 B) x) \<and>
     (\<forall>x. reads_back (write_u32 B x) (read_u32 B) x) \<and>
     (\<forall>x. reads_back (write_bool B x) (read_bool B) x) \<and>
     (\<forall>s. length s \<le> MAX_BUFFER_SIZE \<longrightarrow> reads_back (write_string B s) (read_string B) s) \<and>
     (\<forall>b. length b \<le> MAX_BUFFER_SIZE \<longrightarrow> reads_back (write_bytes B b) (read_bytes B (length b)) b) \<and>
     (\<forall>n r b r'. read_bytes B n r = Ok (b, r') \<longrightarrow> length b = n) \<and>
     (\<forall>r s r'. read_string B r = Ok (s, r') \<longrightarrow> length s \<le> MAX_BUFFER_SIZE) \<and>
     never_panics (read_u8 B) \<and> never_panics (read_u16 B) \<and> never_panics (read_u32 B) \<and>
     never_panics (read_bool B) \<and> never_panics (read_string B) \<and>
     (\<forall>n. never_panics (read_bytes B n)) \<and>
     never_panics (write_string B) \<and> never_panics (write_bytes B)"

named_theorems stream_facts \<open>the laws of the byte stream, one per operation\<close>

lemma stream_reads_back [stream_facts]:
  assumes "stream_laws B"
  shows "reads_back (write_u8 B x8) (read_u8 B) x8"
    and "reads_back (write_u16 B x16) (read_u16 B) x16"
    and "reads_back (write_u32 B x32) (read_u32 B) x32"
    and "reads_back (write_bool B xb) (read_bool B) xb"
    and "length s \<le> MAX_BUFFER_SIZE \<Longrightarrow> reads_back (write_string B s) (read_string B) s"
    and "length b \<le> MAX_BUFFER_SIZE \<Longrightarrow> n = length b \<Longrightarrow> reads_back (write_bytes B b) (read_bytes B n) b"
  using assms by (auto simp: stream_laws_def)

lemma stream_reads_never_panic [stream_facts]:
  assumes "stream_laws B"
  shows "read_u8 B r \<noteq> Panic" "read_u16 B r \<noteq> Panic" "read_u32 B r \<noteq> Panic"
    "read_bool B r \<noteq> Panic" "read_string B r \<noteq> Panic" "read_bytes B n r \<noteq> Panic"
  using assms by (auto simp: stream_laws_def never_panics_def)

lemma stream_writes_never_panic [stream_facts]:
  assumes "stream_laws B"
  shows "write_u8 B x8 \<noteq> Panic" "write_u16 B x16 \<noteq> Panic" "write_u32 B x32 \<noteq> Panic"
    "write_bool B xb \<noteq> Panic" "write_string B s \<noteq> Panic" "write_bytes B b \<noteq> Panic"
  using assms
  by (auto simp: stream_laws_def never_panics_def reads_back_def)
     (metis outcome.distinct(3))+

lemma stream_read_bytes_length:
  "stream_laws B \<Longrightarrow> read_bytes B n r = Ok (b, r') \<Longrightarrow> length b = n"
  unfolding stream_laws_def by blast

lemma stream_read_string_length:
  "stream_laws B \<Longrightarrow> read_string B r = Ok (s, r') \<Longrightarrow> length s \<le> MAX_BUFFER_SIZE"
  unfolding stream_laws_def by blast

subsection \<open>Composing reads and writes\<close>

text \<open>
  The rules that carry the round trips of the message codecs: a sequence of writes reads back
  when its first write does and the remaining writes read back under the continuation.
\<close>

lemma reads_back_Ok: "reads_back w rd x \<Longrightarrow> w = Ok bs \<Longrightarrow> rd (bs @ r) = Ok (x, r)"
  by (auto simp: reads_back_def)

lemma reads_back_last:
  assumes "reads_back w rd x" and "\<And>r. k (x, r) = Ok (y, r)"
  shows "reads_back (write_seq [w]) (\<lambda>r. and_then (rd r) k) y"
  using assms by (auto simp: reads_back_def)

lemma reads_back_step:
  assumes "reads_back w rd x" and "reads_back (write_seq ws) (\<lambda>r. k (x, r)) y"
  shows "reads_back (write_seq (w # ws)) (\<lambda>r. and_then (rd r) k) y"
proof -
  obtain a where a: "w = Ok a" "\<And>r. rd (a @ r) = Ok (x, r)"
    using assms(1) by (auto simp: reads_back_def)
  obtain b where b: "write_seq ws = Ok b" "\<And>r. k (x, b @ r) = Ok (y, r)"
    using assms(2) by (auto simp: reads_back_def)
  show ?thesis
    using a b by (auto simp: reads_back_def)
qed

lemmas reads_back_step2 = reads_back_step [where ws = "v # vs" for v vs]

lemma reads_back_nested:
  assumes "reads_back w rd x" and "\<And>r. k (x, r) = Ok (y, r)"
  shows "reads_back w (\<lambda>r. and_then (rd r) k) y"
  using assms by (auto simp: reads_back_def)

lemma reads_back_count:
  assumes "\<And>x. x \<in> set xs \<Longrightarrow> reads_back (enc x) rd x" and "n = length xs"
  shows "reads_back (write_seq (map enc xs)) (read_times n rd) xs"
proof -
  have "\<exists>bs. write_seq (map enc xs) = Ok bs"
    by (rule write_seq_total) (use assms in \<open>auto simp: reads_back_def\<close>)
  then obtain bs where bs: "write_seq (map enc xs) = Ok bs" ..
  have "read_times n rd (bs @ r) = Ok (xs, r)" for r
    unfolding assms(2) by (rule read_times_write_seq [OF bs]) (use assms in \<open>auto dest: reads_back_Ok\<close>)
  then show ?thesis
    using bs by (auto simp: reads_back_def)
qed

subsection \<open>A stream that satisfies the laws\<close>

fun le_digits :: "nat \<Rightarrow> nat \<Rightarrow> bytes" where
  "le_digits 0 n = []"
| "le_digits (Suc k) n = of_nat (n mod 256) # le_digits k (n div 256)"

fun le_value :: "bytes \<Rightarrow> nat" where
  "le_value [] = 0"
| "le_value (b # bs) = unat b + 256 * le_value bs"

definition le_take :: "nat \<Rightarrow> bytes \<Rightarrow> (io_error, bytes \<times> bytes) outcome" where
  "le_take n r = (if length r < n then Err Stream_Error else Ok (take n r, drop n r))"

definition le_stream :: codec_ops where
  "le_stream = \<lparr>
     write_u8 = (\<lambda>x. Ok [x]),
     write_u16 = (\<lambda>x. Ok (le_digits 2 (unat x))),
     write_u32 = (\<lambda>x. Ok (le_digits 4 (unat x))),
     write_bool = (\<lambda>x. Ok [if x then 1 else 0]),
     write_string = (\<lambda>s. if length s \<le> MAX_BUFFER_SIZE
        then Ok (le_digits 4 (length s) @ map (\<lambda>c. of_nat (of_char c)) s) else Err Stream_Error),
     write_bytes = (\<lambda>b. if length b \<le> MAX_BUFFER_SIZE then Ok b else Err Stream_Error),
     read_u8 = (\<lambda>r. and_then (le_take 1 r) (\<lambda>(b, r). Ok (hd b, r))),
     read_u16 = (\<lambda>r. and_then (le_take 2 r) (\<lambda>(b, r). Ok (of_nat (le_value b), r))),
     read_u32 = (\<lambda>r. and_then (le_take 4 r) (\<lambda>(b, r). Ok (of_nat (le_value b), r))),
     read_bool = (\<lambda>r. and_then (le_take 1 r) (\<lambda>(b, r). Ok (hd b \<noteq> 0, r))),
     read_string = (\<lambda>r. and_then (le_take 4 r) (\<lambda>(b, r).
        if MAX_BUFFER_SIZE < le_value b then Err Stream_Error
        else and_then (le_take (le_value b) r) (\<lambda>(s, r). Ok (map (\<lambda>b. char_of (unat b)) s, r)))),
     read_bytes = (\<lambda>n r. if MAX_BUFFER_SIZE < n then Err Stream_Error else le_take n r),
     valid_status = (\<lambda>c. 100 \<le> c \<and> c < 1000)
   \<rparr>"

lemma length_le_digits [simp]: "length (le_digits k n) = k"
  by (induction k arbitrary: n) auto

lemma le_value_digits: "le_value (le_digits k n) = n mod 256 ^ k"
proof (induction k arbitrary: n)
  case (Suc k)
  have "n mod (256 * 256 ^ k) = 256 * (n div 256 mod 256 ^ k) + n mod 256"
    by (rule mod_mult2_eq)
  then show ?case
    using Suc.IH by (simp add: unat_of_nat)
qed simp

lemma le_take_append [simp]: "length b = n \<Longrightarrow> le_take n (b @ r) = Ok (b, r)"
  by (simp add: le_take_def)

lemma le_take_safe [simp]: "le_take n r \<noteq> Panic"
  by (simp add: le_take_def)

lemma le_take_Ok: "le_take n r = Ok (b, r') \<Longrightarrow> length b = n"
  by (auto simp: le_take_def split: if_splits)

lemma le_stream_numbers:
  "reads_back (write_u8 le_stream x8) (read_u8 le_stream) x8"
  "reads_back (write_u16 le_stream x16) (read_u16 le_stream) x16"
  "reads_back (write_u32 le_stream x32) (read_u32 le_stream) x32"
  "reads_back (write_bool le_stream xb) (read_bool le_stream) xb"
proof -
  have u16: "unat x16 mod 65536 = unat x16" for x16 :: u16
    using unat_lt2p_u16 [of x16] by simp
  have u32: "unat x32 mod 4294967296 = unat x32" for x32 :: u32
    using unat_lt2p_u32 [of x32] by simp
  have one: "le_take (Suc 0) (b # r) = Ok ([b], r)" for b r
    by (simp add: le_take_def)
  show "reads_back (write_u8 le_stream x8) (read_u8 le_stream) x8"
    "reads_back (write_bool le_stream xb) (read_bool le_stream) xb"
    by (auto simp: le_stream_def reads_back_def one)
  show "reads_back (write_u16 le_stream x16) (read_u16 le_stream) x16"
    by (auto simp: le_stream_def reads_back_def le_value_digits u16)
  show "reads_back (write_u32 le_stream x32) (read_u32 le_stream) x32"
    by (auto simp: le_stream_def reads_back_def le_value_digits u32)
qed

lemma le_stream_buffers:
  "length s \<le> MAX_BUFFER_SIZE \<Longrightarrow> reads_back (write_string le_stream s) (read_string le_stream) s"
  "length b \<le> MAX_BUFFER_SIZE \<Longrightarrow> reads_back (write_bytes le_stream b) (read_bytes le_stream (length b)) b"
proof -
  have char: "char_of (unat (of_nat (of_char c) :: byte)) = c" for c
  proof -
    have "of_char c < (256 :: nat)" by simp
    then show ?thesis by (simp add: unat_of_nat)
  qed
  assume "length s \<le> MAX_BUFFER_SIZE"
  then show "reads_back (write_string le_stream s) (read_string le_stream) s"
    by (auto simp: le_stream_def reads_back_def le_value_digits MAX_BUFFER_SIZE_def comp_def char)
next
  assume "length b \<le> MAX_BUFFER_SIZE"
  then show "reads_back (write_bytes le_stream b) (read_bytes le_stream (length b)) b"
    by (auto simp: le_stream_def reads_back_def)
qed

lemma le_stream_laws: "stream_laws le_stream"
  unfolding stream_laws_def
  using le_stream_numbers le_stream_buffers
  by (auto simp: never_panics_def le_stream_def outcome_simps split: if_splits dest: le_take_Ok)

end
