(* ===== verification/Encoding.thy ===== *)
theory Encoding
  imports Binary_Stream
begin

text \<open>
  The binary encoding of every protocol message (\<open>protocol/src/encoding/mod.rs\<close> and
  \<open>encoding/v1/mod.rs\<close>): one \<open>_encode\<close> and one \<open>_decode\<close> per type, in the
  order of the source, over the stream operations of \<open>Binary_Stream\<close>.

  The locale \<open>codec\<close> is the contract of an encoder and its decoder: encodable values read
  back from the front of any input, the decoder never panics on any input, and what it returns is
  encodable again. Every type of the protocol is an interpretation of it.
\<close>

definition VERSION :: u16 where
  "VERSION = 1"

definition IDENTITY :: bytes where
  "IDENTITY = [77, 80, 67, 82]"

definition encoding_error :: "protocol_error \<Rightarrow> io_error" where
  "encoding_error e = Other_Protocol e"

subsection \<open>Buffers\<close>

definition encode_buffer :: "codec_ops \<Rightarrow> bytes \<Rightarrow> (io_error, bytes) outcome" where
  "encode_buffer B buffer =
     (if length buffer > MAX_BUFFER_SIZE
      then Err (encoding_error (MaxBufferSize MAX_BUFFER_SIZE))
      else write_seq [write_u16 B (of_nat (length buffer)), write_bytes B buffer])"

definition decode_buffer :: "codec_ops \<Rightarrow> bytes \<Rightarrow> (io_error, bytes \<times> bytes) outcome" where
  "decode_buffer B r = and_then (read_u16 B r) (\<lambda>(size, r). read_bytes B (unat size) r)"

definition encode_payload :: "codec_ops \<Rightarrow> nat \<times> bytes \<Rightarrow> (io_error, bytes) outcome" where
  "encode_payload B = (\<lambda>(length, buffer).
     if length > MAX_BUFFER_SIZE
     then Err (encoding_error (MaxBufferSize MAX_BUFFER_SIZE))
     else write_seq [write_u16 B (of_nat length), encode_buffer B buffer])"

definition decode_payload :: "codec_ops \<Rightarrow> bytes \<Rightarrow> (io_error, (nat \<times> bytes) \<times> bytes) outcome" where
  "decode_payload B r =
     and_then (read_u16 B r) (\<lambda>(length, r).
     and_then (decode_buffer B r) (\<lambda>(buffer, r). Ok ((unat length, buffer), r)))"

text \<open>
  Identifiers: \<open>from_bytes(read_bytes(16)?.as_slice().try_into().map_err(encoding_error)?)\<close>
  for UUIDs and \<open>read_bytes(32)?.try_into().unwrap()\<close> for user identifiers.
\<close>

definition read_uuid :: "codec_ops \<Rightarrow> bytes \<Rightarrow> (io_error, uuid \<times> bytes) outcome" where
  "read_uuid B r =
     and_then (read_bytes B 16 r) (\<lambda>(b, r).
       if length b = 16 then Ok (b, r) else Err Other_TryFromSlice)"

definition read_user_id :: "codec_ops \<Rightarrow> bytes \<Rightarrow> (io_error, user_id \<times> bytes) outcome" where
  "read_user_id B r =
     and_then (read_bytes B 32 r) (\<lambda>(b, r). if length b = 32 then Ok (b, r) else Panic)"

definition read_status :: "codec_ops \<Rightarrow> bytes \<Rightarrow> (io_error, status_code \<times> bytes) outcome" where
  "read_status B r =
     and_then (read_u16 B r) (\<lambda>(code, r).
       if valid_status B code then Ok (code, r) else Err Other_InvalidStatusCode)"

subsection \<open>Handshake and transparent messages\<close>

definition HandshakeMessage_encode :: "codec_ops \<Rightarrow> handshake_message \<Rightarrow> (io_error, bytes) outcome" where
  "HandshakeMessage_encode B m = write_seq [write_u8 B (HandshakeMessage_kind m),
     case m of
       Handshake_Initiator len buf \<Rightarrow> encode_payload B (len, buf)
     | Handshake_Responder len buf \<Rightarrow> encode_payload B (len, buf)
     | Handshake_Noop \<Rightarrow> Panic]"

definition HandshakeMessage_decode :: "codec_ops \<Rightarrow> bytes \<Rightarrow> (io_error, handshake_message \<times> bytes) outcome" where
  "HandshakeMessage_decode B r = and_then (read_u8 B r) (\<lambda>(id, r).
     if id = HANDSHAKE_INITIATOR then
       and_then (decode_payload B r) (\<lambda>((len, buf), r). Ok (Handshake_Initiator len buf, r))
     else if id = HANDSHAKE_RESPONDER then
       and_then (decode_payload B r) (\<lambda>((len, buf), r). Ok (Handshake_Responder len buf, r))
     else Err (encoding_error (EncodingKind id)))"

definition TransparentMessage_encode :: "codec_ops \<Rightarrow> transparent_message \<Rightarrow> (io_error, bytes) outcome" where
  "TransparentMessage_encode B m = write_seq [write_u8 B (TransparentMessage_kind m),
     case m of
       Transparent_Error code msg \<Rightarrow> write_seq [write_u16 B code, write_string B msg]
     | ServerHandshake msg \<Rightarrow> HandshakeMessage_encode B msg
     | PeerHandshake key msg \<Rightarrow> write_seq [encode_buffer B key, HandshakeMessage_encode B msg]
     | Transparent_Noop \<Rightarrow> Panic]"

definition TransparentMessage_decode :: "codec_ops \<Rightarrow> bytes \<Rightarrow> (io_error, transparent_message \<times> bytes) outcome" where
  "TransparentMessage_decode B r = and_then (read_u8 B r) (\<lambda>(id, r).
     if id = ERROR_KIND then
       and_then (read_status B r) (\<lambda>(code, r).
       and_then (read_string B r) (\<lambda>(msg, r). Ok (Transparent_Error code msg, r)))
     else if id = HANDSHAKE_SERVER then
       and_then (HandshakeMessage_decode B r) (\<lambda>(msg, r). Ok (ServerHandshake msg, r))
     else if id = HANDSHAKE_PEER then
       and_then (decode_buffer B r) (\<lambda>(key, r).
       and_then (HandshakeMessage_decode B r) (\<lambda>(msg, r). Ok (PeerHandshake key msg, r)))
     else Err (encoding_error (EncodingKind id)))"

subsection \<open>Meeting and session states\<close>

text \<open>The number of keys is written as \<open>len() as u16\<close>, which wraps.\<close>

definition SessionRequest_encode :: "codec_ops \<Rightarrow> session_request \<Rightarrow> (io_error, bytes) outcome" where
  "SessionRequest_encode B s = write_seq
     [write_u16 B (of_nat (length (participant_keys s))),
      write_seq (map (encode_buffer B) (participant_keys s))]"

definition SessionRequest_decode :: "codec_ops \<Rightarrow> bytes \<Rightarrow> (io_error, session_request \<times> bytes) outcome" where
  "SessionRequest_decode B r = and_then (read_u16 B r) (\<lambda>(size, r).
     and_then (read_times (unat size) (decode_buffer B) r) (\<lambda>(keys, r).
       Ok (\<lparr>participant_keys = keys\<rparr>, r)))"

definition MeetingState_encode :: "codec_ops \<Rightarrow> meeting_state \<Rightarrow> (io_error, bytes) outcome" where
  "MeetingState_encode B s = write_seq
     [write_bytes B (meeting_id s),
      write_u16 B (of_nat (length (registered_participants s))),
      write_seq (map (encode_buffer B) (registered_participants s))]"

definition MeetingState_decode :: "codec_ops \<Rightarrow> bytes \<Rightarrow> (io_error, meeting_state \<times> bytes) outcome" where
  "MeetingState_decode B r = and_then (read_uuid B r) (\<lambda>(id, r).
     and_then (read_u16 B r) (\<lambda>(size, r).
     and_then (read_times (unat size) (decode_buffer B) r) (\<lambda>(keys, r).
       Ok (\<lparr>meeting_id = id, registered_participants = keys\<rparr>, r))))"

definition SessionState_encode :: "codec_ops \<Rightarrow> session_state \<Rightarrow> (io_error, bytes) outcome" where
  "SessionState_encode B s = write_seq
     [write_bytes B (session_id s),
      write_u16 B (of_nat (length (all_participants s))),
      write_seq (map (encode_buffer B) (all_participants s))]"

definition SessionState_decode :: "codec_ops \<Rightarrow> bytes \<Rightarrow> (io_error, session_state \<times> bytes) outcome" where
  "SessionState_decode B r = and_then (read_uuid B r) (\<lambda>(id, r).
     and_then (read_u16 B r) (\<lambda>(size, r).
     and_then (read_times (unat size) (decode_buffer B) r) (\<lambda>(keys, r).
       Ok (\<lparr>session_id = id, all_participants = keys\<rparr>, r))))"

subsection \<open>Server messages\<close>

definition ServerMessage_encode :: "codec_ops \<Rightarrow> server_message \<Rightarrow> (io_error, bytes) outcome" where
  "ServerMessage_encode B m = write_seq [write_u8 B (ServerMessage_kind m),
     case m of
       Server_Error code msg \<Rightarrow> write_seq [write_u16 B code, write_string B msg]
     | NewMeeting owner_id slots \<Rightarrow> write_seq
         [write_bytes B owner_id, write_u32 B (of_nat (length slots)),
          write_seq (map (write_bytes B) slots)]
     | MeetingCreated response \<Rightarrow> MeetingState_encode B response
     | JoinMeeting mid uid \<Rightarrow> write_seq [write_bytes B mid, write_bytes B uid]
     | MeetingReady response \<Rightarrow> MeetingState_encode B response
     | NewSession request \<Rightarrow> SessionRequest_encode B request
     | SessionConnection sid key \<Rightarrow> write_seq [write_bytes B sid, encode_buffer B key]
     | SessionCreated response \<Rightarrow> SessionState_encode B response
     | SessionReady response \<Rightarrow> SessionState_encode B response
     | SessionActive response \<Rightarrow> SessionState_encode B response
     | SessionTimeout sid \<Rightarrow> write_bytes B sid
     | CloseSession sid \<Rightarrow> write_bytes B sid
     | SessionFinished sid \<Rightarrow> write_bytes B sid
     | Server_Noop \<Rightarrow> Panic]"

definition ServerMessage_decode :: "codec_ops \<Rightarrow> bytes \<Rightarrow> (io_error, server_message \<times> bytes) outcome" where
  "ServerMessage_decode B r = and_then (read_u8 B r) (\<lambda>(id, r).
     if id = ERROR_KIND then
       and_then (read_status B r) (\<lambda>(code, r).
       and_then (read_string B r) (\<lambda>(msg, r). Ok (Server_Error code msg, r)))
     else if id = MEETING_NEW then
       and_then (read_user_id B r) (\<lambda>(owner_id, r).
       and_then (read_u32 B r) (\<lambda>(num_slots, r).
       and_then (read_times (unat num_slots) (read_user_id B) r) (\<lambda>(slots, r).
         Ok (NewMeeting owner_id (hset_of slots), r))))
     else if id = MEETING_CREATED then
       and_then (MeetingState_decode B r) (\<lambda>(s, r). Ok (MeetingCreated s, r))
     else if id = MEETING_JOIN then
       and_then (read_uuid B r) (\<lambda>(mid, r).
       and_then (read_user_id B r) (\<lambda>(uid, r). Ok (JoinMeeting mid uid, r)))
     else if id = MEETING_READY then
       and_then (MeetingState_decode B r) (\<lambda>(s, r). Ok (MeetingReady s, r))
     else if id = SESSION_NEW then
       and_then (SessionRequest_decode B r) (\<lambda>(s, r). Ok (NewSession s, r))
     else if id = SESSION_CONNECTION then
       and_then (read_uuid B r) (\<lambda>(sid, r).
       and_then (decode_buffer B r) (\<lambda>(key, r). Ok (SessionConnection sid key, r)))
     else if id = SESSION_CREATED then
       and_then (SessionState_decode B r) (\<lambda>(s, r). Ok (SessionCreated s, r))
     else if id = SESSION_READY then
       and_then (SessionState_decode B r) (\<lambda>(s, r). Ok (SessionReady s, r))
     else if id = SESSION_ACTIVE then
       and_then (SessionState_decode B r) (\<lambda>(s, r). Ok (SessionActive s, r))
     else if id = SESSION_TIMEOUT then
       and_then (read_uuid B r) (\<lambda>(sid, r). Ok (SessionTimeout sid, r))
     else if id = SESSION_CLOSE then
       and_then (read_uuid B r) (\<lambda>(sid, r). Ok (CloseSession sid, r))
     else if id = SESSION_FINISHED then
       and_then (read_uuid B r) (\<lambda>(sid, r). Ok (SessionFinished sid, r))
     else Err (encoding_error (EncodingKind id)))"

subsection \<open>Chunks, envelopes and opaque messages\<close>

definition Chunk_encode :: "codec_ops \<Rightarrow> chunk \<Rightarrow> (io_error, bytes) outcome" where
  "Chunk_encode B c = encode_payload B (chunk_length c, chunk_contents c)"

definition Chunk_decode :: "codec_ops \<Rightarrow> bytes \<Rightarrow> (io_error, chunk \<times> bytes) outcome" where
  "Chunk_decode B r = and_then (decode_payload B r) (\<lambda>((len, buf), r).
     Ok (\<lparr>chunk_length = len, chunk_contents = buf\<rparr>, r))"

definition SealedEnvelope_encode :: "codec_ops \<Rightarrow> sealed_envelope \<Rightarrow> (io_error, bytes) outcome" where
  "SealedEnvelope_encode B e = write_seq
     [write_u8 B (Encoding_kind (env_encoding e)),
      write_bool B (env_broadcast e),
      write_u32 B (of_nat (length (env_chunks e))),
      write_seq (map (Chunk_encode B) (env_chunks e))]"

definition SealedEnvelope_decode :: "codec_ops \<Rightarrow> bytes \<Rightarrow> (io_error, sealed_envelope \<times> bytes) outcome" where
  "SealedEnvelope_decode B r = and_then (read_u8 B r) (\<lambda>(id, r).
     and_then (if id = ENCODING_BLOB then Ok Blob
               else if id = ENCODING_JSON then Ok Json
               else Err (encoding_error (EncodingKind id))) (\<lambda>encoding.
     and_then (read_bool B r) (\<lambda>(broadcast, r).
     and_then (read_u32 B r) (\<lambda>(num_chunks, r).
     and_then (read_times (unat num_chunks) (Chunk_decode B) r) (\<lambda>(chunks, r).
       Ok (\<lparr>env_encoding = encoding, env_chunks = chunks, env_broadcast = broadcast\<rparr>, r))))))"

definition OpaqueMessage_encode :: "codec_ops \<Rightarrow> opaque_message \<Rightarrow> (io_error, bytes) outcome" where
  "OpaqueMessage_encode B m = write_seq [write_u8 B (OpaqueMessage_kind m),
     case m of
       Opaque_ServerMessage envelope \<Rightarrow> SealedEnvelope_encode B envelope
     | PeerMessage key sid envelope \<Rightarrow> write_seq
         ([encode_buffer B key, write_bool B (sid \<noteq> None)] @
          (case sid of Some i \<Rightarrow> [write_bytes B i] | None \<Rightarrow> []) @
          [SealedEnvelope_encode B envelope])
     | Opaque_Noop \<Rightarrow> Panic]"

definition OpaqueMessage_decode :: "codec_ops \<Rightarrow> bytes \<Rightarrow> (io_error, opaque_message \<times> bytes) outcome" where
  "OpaqueMessage_decode B r = and_then (read_u8 B r) (\<lambda>(id, r).
     if id = OPAQUE_SERVER then
       and_then (SealedEnvelope_decode B r) (\<lambda>(envelope, r). Ok (Opaque_ServerMessage envelope, r))
     else if id = OPAQUE_PEER then
       and_then (decode_buffer B r) (\<lambda>(key, r).
       and_then (read_bool B r) (\<lambda>(has_session_id, r).
         if has_session_id then
           and_then (read_uuid B r) (\<lambda>(sid, r).
           and_then (SealedEnvelope_decode B r) (\<lambda>(envelope, r). Ok (PeerMessage key (Some sid) envelope, r)))
         else
           and_then (SealedEnvelope_decode B r) (\<lambda>(envelope, r). Ok (PeerMessage key None envelope, r))))
     else Err (encoding_error (EncodingKind id)))"

subsection \<open>Requests and responses\<close>

definition encode_preamble :: "codec_ops \<Rightarrow> (io_error, bytes) outcome" where
  "encode_preamble B = write_seq [write_bytes B IDENTITY, write_u16 B VERSION]"

definition decode_preamble :: "codec_ops \<Rightarrow> bytes \<Rightarrow> (io_error, unit \<times> bytes) outcome" where
  "decode_preamble B r = and_then (read_bytes B (length IDENTITY) r) (\<lambda>(identity, r).
     if identity \<noteq> IDENTITY then Err (encoding_error BadEncodingIdentity)
     else and_then (read_u16 B r) (\<lambda>(version, r).
       if version \<noteq> VERSION then Err (encoding_error (EncodingVersion VERSION version))
       else Ok ((), r)))"

definition RequestMessage_encode :: "codec_ops \<Rightarrow> request_message \<Rightarrow> (io_error, bytes) outcome" where
  "RequestMessage_encode B m = write_seq [encode_preamble B, write_u8 B (RequestMessage_kind m),
     case m of
       Request_Transparent message \<Rightarrow> TransparentMessage_encode B message
     | Request_Opaque message \<Rightarrow> OpaqueMessage_encode B message
     | Request_Noop \<Rightarrow> Panic]"

definition RequestMessage_decode :: "codec_ops \<Rightarrow> bytes \<Rightarrow> (io_error, request_message \<times> bytes) outcome" where
  "RequestMessage_decode B r = and_then (decode_preamble B r) (\<lambda>(_, r).
     and_then (read_u8 B r) (\<lambda>(id, r).
       if id = TRANSPARENT then
         and_then (TransparentMessage_decode B r) (\<lambda>(message, r). Ok (Request_Transparent message, r))
       else if id = OPAQUE then
         and_then (OpaqueMessage_decode B r) (\<lambda>(message, r). Ok (Request_Opaque message, r))
       else Err (encoding_error (EncodingKind id))))"

definition ResponseMessage_encode :: "codec_ops \<Rightarrow> response_message \<Rightarrow> (io_error, bytes) outcome" where
  "ResponseMessage_encode B m = write_seq [encode_preamble B, write_u8 B (ResponseMessage_kind m),
     case m of
       Response_Transparent message \<Rightarrow> TransparentMessage_encode B message
     | Response_Opaque message \<Rightarrow> OpaqueMessage_encode B message
     | Response_Noop \<Rightarrow> Panic]"

definition ResponseMessage_decode :: "codec_ops \<Rightarrow> bytes \<Rightarrow> (io_error, response_message \<times> bytes) outcome" where
  "ResponseMessage_decode B r = and_then (decode_preamble B r) (\<lambda>(_, r).
     and_then (read_u8 B r) (\<lambda>(id, r).
       if id = TRANSPARENT then
         and_then (TransparentMessage_decode B r) (\<lambda>(message, r). Ok (Response_Transparent message, r))
       else if id = OPAQUE then
         and_then (OpaqueMessage_decode B r) (\<lambda>(message, r). Ok (Response_Opaque message, r))
       else Err (encoding_error (EncodingKind id))))"

text \<open>
  \<open>encode\<close> runs an encoder on an empty output and returns the output; \<open>decode\<close> runs a
  decoder on a buffer and returns the value, ignoring what is left of the buffer.
\<close>

definition encode :: "(codec_ops \<Rightarrow> 'a \<Rightarrow> (io_error, bytes) outcome) \<Rightarrow> codec_ops \<Rightarrow> 'a \<Rightarrow> (io_error, bytes) outcome" where
  "encode enc B x = enc B x"

definition decode :: "(codec_ops \<Rightarrow> bytes \<Rightarrow> (io_error, 'a \<times> bytes) outcome) \<Rightarrow> codec_ops \<Rightarrow> bytes \<Rightarrow> (io_error, 'a) outcome" where
  "decode dec B buffer = and_then (dec B buffer) (\<lambda>(x, _). Ok x)"

subsection \<open>Encodable values\<close>

text \<open>
  The values that the encoders accept without losing information: no \<open>Noop\<close>, buffers within
  the maximum size, identifiers of the right length, counts that fit the width they are written
  with, sets without duplicates.
\<close>

definition buffer_ok :: "bytes \<Rightarrow> bool" where
  "buffer_ok b \<longleftrightarrow> length b \<le> MAX_BUFFER_SIZE"

definition keys_ok :: "bytes list \<Rightarrow> bool" where
  "keys_ok ks \<longleftrightarrow> length ks \<le> 65535 \<and> (\<forall>k\<in>set ks. buffer_ok k)"

fun handshake_ok :: "handshake_message \<Rightarrow> bool" where
  "handshake_ok Handshake_Noop = False"
| "handshake_ok (Handshake_Initiator len buf) = (len \<le> MAX_BUFFER_SIZE \<and> buffer_ok buf)"
| "handshake_ok (Handshake_Responder len buf) = (len \<le> MAX_BUFFER_SIZE \<and> buffer_ok buf)"

fun transparent_ok :: "codec_ops \<Rightarrow> transparent_message \<Rightarrow> bool" where
  "transparent_ok B Transparent_Noop = False"
| "transparent_ok B (Transparent_Error code msg) = (valid_status B code \<and> length msg \<le> MAX_BUFFER_SIZE)"
| "transparent_ok B (ServerHandshake msg) = handshake_ok msg"
| "transparent_ok B (PeerHandshake key msg) = (buffer_ok key \<and> handshake_ok msg)"

definition request_ok :: "session_request \<Rightarrow> bool" where
  "request_ok s \<longleftrightarrow> keys_ok (participant_keys s)"

definition meeting_state_ok :: "meeting_state \<Rightarrow> bool" where
  "meeting_state_ok s \<longleftrightarrow> length (meeting_id s) = 16 \<and> keys_ok (registered_participants s)"

definition session_state_ok :: "session_state \<Rightarrow> bool" where
  "session_state_ok s \<longleftrightarrow> length (session_id s) = 16 \<and> keys_ok (all_participants s)"

fun server_ok :: "codec_ops \<Rightarrow> server_message \<Rightarrow> bool" where
  "server_ok B Server_Noop = False"
| "server_ok B (Server_Error code msg) = (valid_status B code \<and> length msg \<le> MAX_BUFFER_SIZE)"
| "server_ok B (NewMeeting owner slots) =
     (length owner = 32 \<and> distinct slots \<and> length slots < 2 ^ 32 \<and> (\<forall>s\<in>set slots. length s = 32))"
| "server_ok B (MeetingCreated s) = meeting_state_ok s"
| "server_ok B (JoinMeeting mid uid) = (length mid = 16 \<and> length uid = 32)"
| "server_ok B (MeetingReady s) = meeting_state_ok s"
| "server_ok B (NewSession s) = request_ok s"
| "server_ok B (SessionConnection sid key) = (length sid = 16 \<and> buffer_ok key)"
| "server_ok B (SessionCreated s) = session_state_ok s"
| "server_ok B (SessionReady s) = session_state_ok s"
| "server_ok B (SessionActive s) = session_state_ok s"
| "server_ok B (SessionTimeout sid) = (length sid = 16)"
| "server_ok B (CloseSession sid) = (length sid = 16)"
| "server_ok B (SessionFinished sid) = (length sid = 16)"

definition chunk_ok :: "chunk \<Rightarrow> bool" where
  "chunk_ok c \<longleftrightarrow> chunk_length c \<le> MAX_BUFFER_SIZE \<and> buffer_ok (chunk_contents c)"

definition envelope_ok :: "sealed_envelope \<Rightarrow> bool" where
  "envelope_ok e \<longleftrightarrow> env_encoding e \<noteq> Encoding_Noop \<and> length (env_chunks e) < 2 ^ 32 \<and>
     (\<forall>c\<in>set (env_chunks e). chunk_ok c)"

fun opaque_ok :: "opaque_message \<Rightarrow> bool" where
  "opaque_ok Opaque_Noop = False"
| "opaque_ok (Opaque_ServerMessage e) = envelope_ok e"
| "opaque_ok (PeerMessage key sid e) =
     (buffer_ok key \<and> (\<forall>i. sid = Some i \<longrightarrow> length i = 16) \<and> envelope_ok e)"

fun request_message_ok :: "codec_ops \<Rightarrow> request_message \<Rightarrow> bool" where
  "request_message_ok B Request_Noop = False"
| "request_message_ok B (Request_Transparent m) = transparent_ok B m"
| "request_message_ok B (Request_Opaque m) = opaque_ok m"

fun response_message_ok :: "codec_ops \<Rightarrow> response_message \<Rightarrow> bool" where
  "response_message_ok B Response_Noop = False"
| "response_message_ok B (Response_Transparent m) = transparent_ok B m"
| "response_message_ok B (Response_Opaque m) = opaque_ok m"

subsection \<open>The contract of a codec\<close>

locale codec =
  fixes enc :: "codec_ops \<Rightarrow> 'a \<Rightarrow> (io_error, bytes) outcome"
    and dec :: "codec_ops \<Rightarrow> bytes \<Rightarrow> (io_error, 'a \<times> bytes) outcome"
    and ok :: "codec_ops \<Rightarrow> 'a \<Rightarrow> bool"
  assumes roundtrip: "stream_laws B \<Longrightarrow> ok B x \<Longrightarrow> reads_back (enc B x) (dec B) x"
    and safe: "stream_laws B \<Longrightarrow> dec B r \<noteq> Panic"
    and sound: "stream_laws B \<Longrightarrow> dec B r = Ok (x, r') \<Longrightarrow> ok B x"
begin

lemma encodes: "stream_laws B \<Longrightarrow> ok B x \<Longrightarrow> \<exists>bs. enc B x = Ok bs"
  using roundtrip [of B x] by (auto simp: reads_back_def)

lemma decode_encode:
  "stream_laws B \<Longrightarrow> ok B x \<Longrightarrow> \<exists>bs. encode enc B x = Ok bs \<and> decode dec B bs = Ok x"
  using roundtrip [of B x] by (auto simp: encode_def decode_def reads_back_def dest: spec [of _ "[]"])

lemma decode_safe: "stream_laws B \<Longrightarrow> decode dec B r \<noteq> Panic"
  using safe [of B r] by (auto simp: decode_def outcome_simps)

lemma decode_sound: "stream_laws B \<Longrightarrow> decode dec B r = Ok x \<Longrightarrow> ok B x"
  using sound by (auto simp: decode_def outcome_simps)

text \<open>What was decoded can be encoded again, and decodes to the same value.\<close>

lemma reencode:
  "stream_laws B \<Longrightarrow> decode dec B r = Ok x \<Longrightarrow>
   \<exists>bs. encode enc B x = Ok bs \<and> decode dec B bs = Ok x"
  by (intro decode_encode decode_sound)

text \<open>Encodings are injective and prefix free.\<close>

lemma prefix_free:
  assumes "stream_laws B" "ok B x" "ok B y" "enc B x = Ok a" "enc B y = Ok (a @ c)"
  shows "x = y \<and> c = []"
proof -
  have "dec B (a @ c) = Ok (x, c)"
    using roundtrip [OF assms(1,2)] assms(4) by (rule reads_back_Ok)
  moreover have "dec B ((a @ c) @ []) = Ok (y, [])"
    using roundtrip [OF assms(1,3)] assms(5) by (rule reads_back_Ok)
  ultimately show ?thesis by simp
qed

lemma counted_roundtrip:
  "stream_laws B \<Longrightarrow> (\<And>x. x \<in> set xs \<Longrightarrow> ok B x) \<Longrightarrow> n = length xs \<Longrightarrow>
   reads_back (write_seq (map (enc B) xs)) (read_times n (dec B)) xs"
  by (rule reads_back_count) (auto intro: roundtrip)

lemma counted_safe: "stream_laws B \<Longrightarrow> read_times n (dec B) r \<noteq> Panic"
  by (rule read_times_safe) (rule safe)

lemma counted_sound:
  "stream_laws B \<Longrightarrow> read_times n (dec B) r = Ok (xs, r') \<Longrightarrow>
   length xs = n \<and> (\<forall>x\<in>set xs. ok B x)"
  by (rule read_times_all) (rule sound)

end

subsection \<open>Every protocol type is a codec\<close>

declare write_seq.simps(2) [simp del]

lemmas codec_steps = reads_back_step2 reads_back_nested

lemmas codec_defs = buffer_ok_def keys_ok_def request_ok_def meeting_state_ok_def
  session_state_ok_def chunk_ok_def envelope_ok_def

lemma read_uuid_reads_back:
  "stream_laws B \<Longrightarrow> length i = 16 \<Longrightarrow> reads_back (write_bytes B i) (read_uuid B) i"
  unfolding read_uuid_def
  by (rule reads_back_nested, rule stream_reads_back(6)) (auto simp: MAX_BUFFER_SIZE_def)

lemma read_uuid_safe: "stream_laws B \<Longrightarrow> read_uuid B r \<noteq> Panic"
  by (auto simp: read_uuid_def outcome_simps stream_facts split: if_splits)

lemma read_uuid_sound: "read_uuid B r = Ok (i, r') \<Longrightarrow> length i = 16"
  by (auto simp: read_uuid_def outcome_simps split: if_splits)

lemma read_user_id_reads_back:
  "stream_laws B \<Longrightarrow> length i = 32 \<Longrightarrow> reads_back (write_bytes B i) (read_user_id B) i"
  unfolding read_user_id_def
  by (rule reads_back_nested, rule stream_reads_back(6)) (auto simp: MAX_BUFFER_SIZE_def)

lemma read_user_id_safe: "stream_laws B \<Longrightarrow> read_user_id B r \<noteq> Panic"
  by (auto simp: read_user_id_def outcome_simps stream_facts split: if_splits dest: stream_read_bytes_length)

lemma read_user_id_sound: "read_user_id B r = Ok (i, r') \<Longrightarrow> length i = 32"
  by (auto simp: read_user_id_def outcome_simps split: if_splits)

lemma read_status_reads_back:
  "stream_laws B \<Longrightarrow> valid_status B c \<Longrightarrow> reads_back (write_u16 B c) (read_status B) c"
  unfolding read_status_def by (rule reads_back_nested, rule stream_reads_back(2)) auto

lemma read_status_safe: "stream_laws B \<Longrightarrow> read_status B r \<noteq> Panic"
  by (auto simp: read_status_def outcome_simps stream_facts split: if_splits)

lemma read_status_sound: "read_status B r = Ok (c, r') \<Longrightarrow> valid_status B c"
  by (auto simp: read_status_def outcome_simps split: if_splits)

lemmas read_back_facts = stream_reads_back read_uuid_reads_back read_user_id_reads_back
  read_status_reads_back
lemmas safe_facts = stream_reads_never_panic read_uuid_safe read_user_id_safe read_status_safe
lemmas sound_facts = read_uuid_sound read_user_id_sound read_status_sound

interpretation buffer_codec: codec encode_buffer decode_buffer "\<lambda>_. buffer_ok"
proof unfold_locales
  fix B x r r' assume B: "stream_laws B"
  show "decode_buffer B r \<noteq> Panic"
    by (auto simp: decode_buffer_def outcome_simps safe_facts B)
  show "buffer_ok x" if "decode_buffer B r = Ok (x, r')"
    using that
    by (auto simp: decode_buffer_def outcome_simps buffer_ok_def MAX_BUFFER_SIZE_def
        dest!: stream_read_bytes_length [OF B])
  show "reads_back (encode_buffer B x) (decode_buffer B) x" if "buffer_ok x"
  proof -
    have "reads_back (write_seq [write_u16 B (of_nat (length x)), write_bytes B x]) (decode_buffer B) x"
      unfolding decode_buffer_def
      by (rule reads_back_step, rule read_back_facts(2) [OF B])
         (use that B in \<open>auto simp: buffer_ok_def MAX_BUFFER_SIZE_def intro!: read_back_facts(6)\<close>)
    then show ?thesis
      using that by (simp add: encode_buffer_def buffer_ok_def)
  qed
qed

interpretation payload_codec: codec encode_payload decode_payload
  "\<lambda>_ (len, buf). len \<le> MAX_BUFFER_SIZE \<and> buffer_ok buf"
proof unfold_locales
  fix B r r' and x :: "nat \<times> bytes"
  assume B: "stream_laws B"
  show "decode_payload B r \<noteq> Panic"
    by (auto simp: decode_payload_def outcome_simps safe_facts buffer_codec.safe B)
  show "case x of (len, buf) \<Rightarrow> len \<le> MAX_BUFFER_SIZE \<and> buffer_ok buf" if "decode_payload B r = Ok (x, r')"
    using that
    by (auto simp: decode_payload_def outcome_simps MAX_BUFFER_SIZE_def dest: buffer_codec.sound [OF B])
  show "reads_back (encode_payload B x) (decode_payload B) x"
    if ok: "case x of (len, buf) \<Rightarrow> len \<le> MAX_BUFFER_SIZE \<and> buffer_ok buf"
  proof -
    obtain len buf where x: "x = (len, buf)" "len \<le> MAX_BUFFER_SIZE" "buffer_ok buf"
      using ok by (cases x) auto
    have "reads_back (write_seq [write_u16 B (of_nat len), encode_buffer B buf]) (decode_payload B) (len, buf)"
      unfolding decode_payload_def
      by (rule reads_back_step, rule read_back_facts(2) [OF B])
         (use x B in \<open>auto simp: MAX_BUFFER_SIZE_def intro!: reads_back_nested buffer_codec.roundtrip\<close>)
    then show ?thesis
      using x by (simp add: encode_payload_def)
  qed
qed

interpretation handshake_codec: codec HandshakeMessage_encode HandshakeMessage_decode "\<lambda>_. handshake_ok"
proof unfold_locales
  fix B r r' x
  assume B: "stream_laws B"
  show "HandshakeMessage_decode B r \<noteq> Panic"
    by (auto simp: HandshakeMessage_decode_def outcome_simps safe_facts payload_codec.safe B
        split: if_splits)
  show "handshake_ok x" if "HandshakeMessage_decode B r = Ok (x, r')"
    using that
    by (auto simp: HandshakeMessage_decode_def outcome_simps
        dest: payload_codec.sound [OF B] split: if_splits)
  show "reads_back (HandshakeMessage_encode B x) (HandshakeMessage_decode B) x" if "handshake_ok x"
    unfolding HandshakeMessage_encode_def HandshakeMessage_decode_def
    by (rule reads_back_step, rule read_back_facts(1) [OF B], cases x)
       (use that B in \<open>auto simp: kind_defs intro!: reads_back_nested payload_codec.roundtrip\<close>)
qed

interpretation transparent_codec: codec TransparentMessage_encode TransparentMessage_decode transparent_ok
proof unfold_locales
  fix B r r' x
  assume B: "stream_laws B"
  show "TransparentMessage_decode B r \<noteq> Panic"
    by (auto simp: TransparentMessage_decode_def outcome_simps safe_facts handshake_codec.safe
        buffer_codec.safe B split: if_splits)
  show "transparent_ok B x" if "TransparentMessage_decode B r = Ok (x, r')"
    using that
    by (auto simp: TransparentMessage_decode_def outcome_simps
        dest: handshake_codec.sound [OF B] buffer_codec.sound [OF B] sound_facts
          stream_read_string_length [OF B] split: if_splits)
  show "reads_back (TransparentMessage_encode B x) (TransparentMessage_decode B) x" if "transparent_ok B x"
    using that unfolding TransparentMessage_encode_def TransparentMessage_decode_def
    by (cases x) (insert B,
       (rule read_back_facts handshake_codec.roundtrip buffer_codec.roundtrip codec_steps |
        simp add: kind_defs)+)
qed

interpretation request_codec: codec SessionRequest_encode SessionRequest_decode "\<lambda>_. request_ok"
proof unfold_locales
  fix B r r' x
  assume B: "stream_laws B"
  show "SessionRequest_decode B r \<noteq> Panic"
    by (auto simp: SessionRequest_decode_def outcome_simps safe_facts buffer_codec.counted_safe B)
  show "request_ok x" if "SessionRequest_decode B r = Ok (x, r')"
    using that
    by (auto simp: SessionRequest_decode_def outcome_simps codec_defs
        dest!: buffer_codec.counted_sound [OF B])
  show "reads_back (SessionRequest_encode B x) (SessionRequest_decode B) x" if "request_ok x"
    using that unfolding SessionRequest_encode_def SessionRequest_decode_def
    by (cases x) (insert B, (rule read_back_facts buffer_codec.counted_roundtrip codec_steps |
       simp add: request_ok_def keys_ok_def)+)
qed

interpretation meeting_state_codec: codec MeetingState_encode MeetingState_decode "\<lambda>_. meeting_state_ok"
proof unfold_locales
  fix B r r' x
  assume B: "stream_laws B"
  show "MeetingState_decode B r \<noteq> Panic"
    by (auto simp: MeetingState_decode_def outcome_simps safe_facts buffer_codec.counted_safe B)
  show "meeting_state_ok x" if "MeetingState_decode B r = Ok (x, r')"
    using that
    by (auto simp: MeetingState_decode_def outcome_simps codec_defs
        dest!: buffer_codec.counted_sound [OF B] dest: sound_facts)
  show "reads_back (MeetingState_encode B x) (MeetingState_decode B) x" if "meeting_state_ok x"
    using that unfolding MeetingState_encode_def MeetingState_decode_def
    by (cases x) (insert B, (rule read_back_facts buffer_codec.counted_roundtrip codec_steps |
       simp add: meeting_state_ok_def keys_ok_def)+)
qed

interpretation session_state_codec: codec SessionState_encode SessionState_decode "\<lambda>_. session_state_ok"
proof unfold_locales
  fix B r r' x
  assume B: "stream_laws B"
  show "SessionState_decode B r \<noteq> Panic"
    by (auto simp: SessionState_decode_def outcome_simps safe_facts buffer_codec.counted_safe B)
  show "session_state_ok x" if "SessionState_decode B r = Ok (x, r')"
    using that
    by (auto simp: SessionState_decode_def outcome_simps codec_defs
        dest!: buffer_codec.counted_sound [OF B] dest: sound_facts)
  show "reads_back (SessionState_encode B x) (SessionState_decode B) x" if "session_state_ok x"
    using that unfolding SessionState_encode_def SessionState_decode_def
    by (cases x) (insert B, (rule read_back_facts buffer_codec.counted_roundtrip codec_steps |
       simp add: session_state_ok_def keys_ok_def)+)
qed

text \<open>A set of user identifiers, written one after the other and read back into a set.\<close>

lemma slots_reads_back:
  assumes "stream_laws B" "length slots < 2 ^ 32" "\<forall>s\<in>set slots. length s = 32"
  shows "reads_back (write_seq (map (write_bytes B) slots))
    (read_times (unat (of_nat (length slots) :: u32)) (read_user_id B)) slots"
  using assms by (intro reads_back_count read_user_id_reads_back) (auto simp: unat_of_nat)

lemma slots_sound:
  assumes "read_times (unat (n :: u32)) (read_user_id B) r = Ok (slots, r')"
  shows "length (hset_of slots) < 4294967296 \<and> (\<forall>s\<in>set slots. length s = 32)"
proof -
  have *: "length slots = unat n \<and> (\<forall>s\<in>set slots. length s = 32)"
    using assms by (rule read_times_all [rotated]) (rule read_user_id_sound)
  have "length (hset_of slots) = card (set slots)"
    using distinct_card [of "hset_of slots"] by simp
  also have "\<dots> \<le> unat n"
    using * card_length [of slots] by simp
  finally show ?thesis
    using * unat_lt2p_u32 [of n] by simp
qed

lemmas server_part_codecs = request_codec.roundtrip meeting_state_codec.roundtrip
  session_state_codec.roundtrip buffer_codec.roundtrip slots_reads_back

interpretation server_codec: codec ServerMessage_encode ServerMessage_decode server_ok
proof unfold_locales
  fix B r r' x
  assume B: "stream_laws B"
  show "ServerMessage_decode B r \<noteq> Panic"
    by (auto simp: ServerMessage_decode_def outcome_simps safe_facts request_codec.safe
        meeting_state_codec.safe session_state_codec.safe buffer_codec.safe
        read_times_safe [OF read_user_id_safe] B split: if_splits)
  show "server_ok B x" if "ServerMessage_decode B r = Ok (x, r')"
    using that
    by (auto simp: ServerMessage_decode_def outcome_simps
        dest: request_codec.sound [OF B] meeting_state_codec.sound [OF B]
          session_state_codec.sound [OF B] buffer_codec.sound [OF B]
          stream_read_string_length [OF B]
        dest!: sound_facts slots_sound split: if_splits)
  show "reads_back (ServerMessage_encode B x) (ServerMessage_decode B) x" if "server_ok B x"
    using that unfolding ServerMessage_encode_def ServerMessage_decode_def
    by (cases x) (insert B, (rule server_part_codecs read_back_facts codec_steps |
       simp add: kind_defs hset_of_distinct)+)
qed

interpretation chunk_codec: codec Chunk_encode Chunk_decode "\<lambda>_. chunk_ok"
proof unfold_locales
  fix B r r' x
  assume B: "stream_laws B"
  show "Chunk_decode B r \<noteq> Panic"
    by (auto simp: Chunk_decode_def outcome_simps payload_codec.safe B)
  show "chunk_ok x" if "Chunk_decode B r = Ok (x, r')"
    using that
    by (auto simp: Chunk_decode_def outcome_simps chunk_ok_def dest: payload_codec.sound [OF B])
  show "reads_back (Chunk_encode B x) (Chunk_decode B) x" if "chunk_ok x"
    using that unfolding Chunk_encode_def Chunk_decode_def
    by (cases x) (rule reads_back_nested, rule payload_codec.roundtrip [OF B], auto simp: chunk_ok_def)
qed

interpretation envelope_codec: codec SealedEnvelope_encode SealedEnvelope_decode "\<lambda>_. envelope_ok"
proof unfold_locales
  fix B r r' x
  assume B: "stream_laws B"
  show "SealedEnvelope_decode B r \<noteq> Panic"
    by (auto simp: SealedEnvelope_decode_def outcome_simps safe_facts chunk_codec.counted_safe B
        split: if_splits)
  show "envelope_ok x" if "SealedEnvelope_decode B r = Ok (x, r')"
    using that unat_lt2p_u32
    by (auto simp: SealedEnvelope_decode_def outcome_simps envelope_ok_def
        dest!: chunk_codec.counted_sound [OF B] split: if_splits)
  have len: "length cs < 4294967296 \<Longrightarrow> unat (of_nat (length cs) :: u32) = length cs" for cs :: "chunk list"
    by (simp add: unat_of_nat)
  show "reads_back (SealedEnvelope_encode B x) (SealedEnvelope_decode B) x" if "envelope_ok x"
    using that unfolding SealedEnvelope_encode_def SealedEnvelope_decode_def
    by (cases "env_encoding x") (insert B,
       (rule read_back_facts chunk_codec.counted_roundtrip codec_steps |
        simp add: kind_defs envelope_ok_def len)+)
qed

interpretation opaque_codec: codec OpaqueMessage_encode OpaqueMessage_decode "\<lambda>_. opaque_ok"
proof unfold_locales
  fix B r r' x
  assume B: "stream_laws B"
  show "OpaqueMessage_decode B r \<noteq> Panic"
    by (auto simp: OpaqueMessage_decode_def outcome_simps safe_facts envelope_codec.safe
        buffer_codec.safe B split: if_splits)
  show "opaque_ok x" if "OpaqueMessage_decode B r = Ok (x, r')"
    using that
    by (auto simp: OpaqueMessage_decode_def outcome_simps
        dest: envelope_codec.sound [OF B] buffer_codec.sound [OF B] sound_facts split: if_splits)
  show "reads_back (OpaqueMessage_encode B x) (OpaqueMessage_decode B) x" if "opaque_ok x"
    using that unfolding OpaqueMessage_encode_def OpaqueMessage_decode_def
    by (cases x; cases "case x of PeerMessage _ sid _ \<Rightarrow> sid | _ \<Rightarrow> None")
       (insert B, (rule read_back_facts envelope_codec.roundtrip buffer_codec.roundtrip codec_steps |
         simp add: kind_defs)+)
qed

interpretation preamble_codec: codec "\<lambda>B _. encode_preamble B" decode_preamble "\<lambda>_ _. True"
proof unfold_locales
  fix B r r' x
  assume B: "stream_laws B"
  show "decode_preamble B r \<noteq> Panic"
    by (auto simp: decode_preamble_def outcome_simps safe_facts B split: if_splits)
  show "reads_back (encode_preamble B) (decode_preamble B) x"
    unfolding encode_preamble_def decode_preamble_def
    by (insert B, (rule read_back_facts codec_steps | simp add: IDENTITY_def MAX_BUFFER_SIZE_def)+)
qed simp

interpretation request_message_codec: codec RequestMessage_encode RequestMessage_decode request_message_ok
proof unfold_locales
  fix B r r' x
  assume B: "stream_laws B"
  show "RequestMessage_decode B r \<noteq> Panic"
    by (auto simp: RequestMessage_decode_def outcome_simps safe_facts preamble_codec.safe
        transparent_codec.safe opaque_codec.safe B split: if_splits)
  show "request_message_ok B x" if "RequestMessage_decode B r = Ok (x, r')"
    using that
    by (auto simp: RequestMessage_decode_def outcome_simps
        dest: transparent_codec.sound [OF B] opaque_codec.sound [OF B] split: if_splits)
  show "reads_back (RequestMessage_encode B x) (RequestMessage_decode B) x" if "request_message_ok B x"
    using that unfolding RequestMessage_encode_def RequestMessage_decode_def
    by (cases x) (insert B, (rule read_back_facts preamble_codec.roundtrip transparent_codec.roundtrip
         opaque_codec.roundtrip codec_steps |
       simp add: kind_defs)+)
qed

interpretation response_message_codec: codec ResponseMessage_encode ResponseMessage_decode response_message_ok
proof unfold_locales
  fix B r r' x
  assume B: "stream_laws B"
  show "ResponseMessage_decode B r \<noteq> Panic"
    by (auto simp: ResponseMessage_decode_def outcome_simps safe_facts preamble_codec.safe
        transparent_codec.safe opaque_codec.safe B split: if_splits)
  show "response_message_ok B x" if "ResponseMessage_decode B r = Ok (x, r')"
    using that
    by (auto simp: ResponseMessage_decode_def outcome_simps
        dest: transparent_codec.sound [OF B] opaque_codec.sound [OF B] split: if_splits)
  show "reads_back (ResponseMessage_encode B x) (ResponseMessage_decode B) x" if "response_message_ok B x"
    using that unfolding ResponseMessage_encode_def ResponseMessage_decode_def
    by (cases x) (insert B, (rule read_back_facts preamble_codec.roundtrip transparent_codec.roundtrip
         opaque_codec.roundtrip codec_steps |
       simp add: kind_defs)+)
qed
subsection \<open>Properties\<close>

text \<open>
  C13: Every encodable request (no \<open>Noop\<close>, buffers within the maximum size, identifiers of
  their fixed length) is encoded without error and decodes to itself, whatever bytes follow it.
\<close>

theorem request_roundtrip:
  assumes "stream_laws B" and "request_message_ok B m"
  shows "\<exists>bs. encode RequestMessage_encode B m = Ok bs \<and>
    (\<forall>rest. decode RequestMessage_decode B (bs @ rest) = Ok m)"
  using request_message_codec.roundtrip [OF assms]
  by (auto simp: encode_def decode_def reads_back_def)

definition sample_envelope :: sealed_envelope where
  "sample_envelope = \<lparr>env_encoding = Blob,
     env_chunks = [\<lparr>chunk_length = 3, chunk_contents = [1, 2, 3, 4]\<rparr>], env_broadcast = True\<rparr>"

definition sample_uuid :: uuid where
  "sample_uuid = replicate 16 7"

lemma sample_envelope_ok [simp]: "envelope_ok sample_envelope"
  by (simp add: envelope_ok_def sample_envelope_def chunk_ok_def buffer_ok_def MAX_BUFFER_SIZE_def)

lemma length_sample_uuid [simp]: "length sample_uuid = 16"
  by (simp add: sample_uuid_def)

theorem request_roundtrip_witness:
  "\<exists>bs. encode RequestMessage_encode le_stream
       (Request_Opaque (PeerMessage [1, 2] (Some sample_uuid) sample_envelope)) = Ok bs \<and>
     (\<forall>rest. decode RequestMessage_decode le_stream (bs @ rest) =
       Ok (Request_Opaque (PeerMessage [1, 2] (Some sample_uuid) sample_envelope)))"
  by (rule request_roundtrip [OF le_stream_laws]) (simp add: buffer_ok_def MAX_BUFFER_SIZE_def)

text \<open>
  Every encodable response is encoded without error and decodes to itself, whatever bytes
  follow it.
\<close>

lemma response_roundtrip:
  assumes "stream_laws B" and "response_message_ok B m"
  shows "\<exists>bs. encode ResponseMessage_encode B m = Ok bs \<and>
    (\<forall>rest. decode ResponseMessage_decode B (bs @ rest) = Ok m)"
  using response_message_codec.roundtrip [OF assms]
  by (auto simp: encode_def decode_def reads_back_def)

text \<open>
  C23: Every encodable message of the server protocol (the plaintext of the server channel) is
  encoded without error and decodes to itself; two of them with a common prefix encoding are equal.
\<close>

theorem server_message_roundtrip:
  assumes "stream_laws B" and "server_ok B m"
  shows "\<exists>bs. encode ServerMessage_encode B m = Ok bs \<and> decode ServerMessage_decode B bs = Ok m \<and>
    (\<forall>m' rest. server_ok B m' \<longrightarrow> encode ServerMessage_encode B m' = Ok (bs @ rest) \<longrightarrow> m' = m \<and> rest = [])"
proof -
  obtain bs where bs: "encode ServerMessage_encode B m = Ok bs" "decode ServerMessage_decode B bs = Ok m"
    using server_codec.decode_encode [OF assms] by blast
  then show ?thesis
    using server_codec.prefix_free [OF assms(1,2)] by (auto simp: encode_def)
qed

theorem server_message_roundtrip_witness:
  "\<exists>bs. encode ServerMessage_encode le_stream (SessionConnection sample_uuid [5, 6]) = Ok bs \<and>
     decode ServerMessage_decode le_stream bs = Ok (SessionConnection sample_uuid [5, 6])"
proof -
  have "server_ok le_stream (SessionConnection sample_uuid [5, 6])"
    by (simp add: buffer_ok_def MAX_BUFFER_SIZE_def)
  from server_message_roundtrip [OF le_stream_laws this] show ?thesis by blast
qed

text \<open>
  C19: Decoding is safe on every input: no byte string makes the decoder of requests, of responses
  or of server messages panic, and whatever they return is encodable again (so its buffers and
  identifiers respect the limits) and decodes to the same value.
\<close>

theorem decoding_safe:
  assumes "stream_laws B"
  shows "decode RequestMessage_decode B bs \<noteq> Panic \<and> decode ResponseMessage_decode B bs \<noteq> Panic \<and>
    decode ServerMessage_decode B bs \<noteq> Panic \<and>
    (\<forall>m. decode RequestMessage_decode B bs = Ok m \<longrightarrow> request_message_ok B m) \<and>
    (\<forall>m. decode ResponseMessage_decode B bs = Ok m \<longrightarrow> response_message_ok B m) \<and>
    (\<forall>m. decode ServerMessage_decode B bs = Ok m \<longrightarrow> server_ok B m)"
  using request_message_codec.decode_safe [OF assms] request_message_codec.decode_sound [OF assms]
    response_message_codec.decode_safe [OF assms] response_message_codec.decode_sound [OF assms]
    server_codec.decode_safe [OF assms] server_codec.decode_sound [OF assms]
  by blast

theorem decoding_safe_witness:
  "decode RequestMessage_decode le_stream [77, 80, 67, 82, 1, 0, 200] \<noteq> Panic"
  using decoding_safe [OF le_stream_laws] by blast

text \<open>
  The number of participant keys is written as a 16-bit number: a session state with any
  number of keys decodes to its first \<open>n mod 65536\<close> keys, so a state with more than 65535
  keys is silently truncated.
\<close>

lemma session_state_count_wraps:
  assumes "stream_laws B" and "length (session_id s) = 16" and "\<forall>k\<in>set (all_participants s). buffer_ok k"
  shows "\<exists>bs. encode SessionState_encode B s = Ok bs \<and>
    decode SessionState_decode B bs =
      Ok (s\<lparr>all_participants := take (length (all_participants s) mod 65536) (all_participants s)\<rparr>)"
proof -
  let ?n = "length (all_participants s) mod 65536"
  let ?a = "take ?n (all_participants s)" and ?b = "drop ?n (all_participants s)"
  have ok: "buffer_ok k" if "k \<in> set ?a \<union> set ?b" for k
    using that assms(3) by (auto dest: in_set_takeD in_set_dropD)
  have "?n \<le> length (all_participants s)" by (rule mod_less_eq_dividend)
  then have "session_state_ok (s\<lparr>all_participants := ?a\<rparr>)"
    using assms(2) ok mod_less_divisor [of 65536 "length (all_participants s)"]
    by (auto simp: session_state_ok_def keys_ok_def)
  from session_state_codec.roundtrip [OF assms(1) this]
  obtain x where x: "SessionState_encode B (s\<lparr>all_participants := ?a\<rparr>) = Ok x"
    "\<And>r. SessionState_decode B (x @ r) = Ok (s\<lparr>all_participants := ?a\<rparr>, r)"
    by (auto simp: reads_back_def)
  obtain y where y: "write_seq (map (encode_buffer B) ?b) = Ok y"
    using write_seq_total [of ?b "encode_buffer B"] buffer_codec.encodes [OF assms(1)] ok by blast
  have "of_nat ?n = (of_nat (length (all_participants s)) :: u16)"
    by (simp add: word_unat_eq_iff unat_of_nat_u16_mod)
  moreover have "map (encode_buffer B) (all_participants s) =
      map (encode_buffer B) ?a @ map (encode_buffer B) ?b"
    by (simp flip: map_append)
  ultimately have "SessionState_encode B s = Ok (x @ y)"
    using x(1) y \<open>?n \<le> _\<close>
    by (auto simp: SessionState_encode_def write_seq.simps write_seq_append outcome_simps min_absorb2)
  then show ?thesis using x(2) by (auto simp: encode_def decode_def)
qed

lemma session_state_count_wraps_witness:
  "\<exists>bs. encode SessionState_encode le_stream
      \<lparr>session_id = sample_uuid, all_participants = replicate 65537 [1]\<rparr> = Ok bs \<and>
    decode SessionState_decode le_stream bs = Ok \<lparr>session_id = sample_uuid, all_participants = [[1]]\<rparr>"
proof -
  let ?s = "\<lparr>session_id = sample_uuid, all_participants = replicate 65537 [1]\<rparr>"
  have "\<forall>k\<in>set (all_participants ?s). buffer_ok k" "length (session_id ?s) = 16"
    by (simp_all add: buffer_ok_def MAX_BUFFER_SIZE_def)
  from session_state_count_wraps [OF le_stream_laws this(2,1)] show ?thesis
    by simp
qed

fun has_noop :: "request_message \<Rightarrow> bool" where
  "has_noop (Request_Transparent (ServerHandshake m)) = (m = Handshake_Noop)"
| "has_noop (Request_Transparent (PeerHandshake _ m)) = (m = Handshake_Noop)"
| "has_noop (Request_Transparent m) = (m = Transparent_Noop)"
| "has_noop (Request_Opaque m) = (m = Opaque_Noop)"
| "has_noop Request_Noop = True"

lemma write_seq_no_Panic: "list_all (\<lambda>w. w \<noteq> Panic) ws \<Longrightarrow> write_seq ws \<noteq> Panic"
  using write_seq_eq_Panic by (auto simp: list_all_iff)

lemma buffer_no_Panic: "stream_laws B \<Longrightarrow> encode_buffer B b \<noteq> Panic"
  unfolding encode_buffer_def by (simp add: stream_writes_never_panic write_seq_no_Panic)

lemma payload_no_Panic: "stream_laws B \<Longrightarrow> encode_payload B p \<noteq> Panic"
  unfolding encode_payload_def
  by (simp add: stream_writes_never_panic buffer_no_Panic write_seq_no_Panic split: prod.splits)

lemma envelope_no_Panic: "stream_laws B \<Longrightarrow> SealedEnvelope_encode B e \<noteq> Panic"
  unfolding SealedEnvelope_encode_def
  by (simp add: stream_writes_never_panic write_seq_no_Panic list_all_iff Chunk_encode_def payload_no_Panic)

lemma preamble_no_Panic: "stream_laws B \<Longrightarrow> encode_preamble B \<noteq> Panic"
  unfolding encode_preamble_def by (simp add: stream_writes_never_panic write_seq_no_Panic)

lemma handshake_no_Panic: "stream_laws B \<Longrightarrow> m \<noteq> Handshake_Noop \<Longrightarrow> HandshakeMessage_encode B m \<noteq> Panic"
  unfolding HandshakeMessage_encode_def
  by (cases m) (simp_all add: stream_writes_never_panic payload_no_Panic write_seq_no_Panic)

lemma opaque_no_Panic: "stream_laws B \<Longrightarrow> m \<noteq> Opaque_Noop \<Longrightarrow> OpaqueMessage_encode B m \<noteq> Panic"
  unfolding OpaqueMessage_encode_def
  by (cases m) (simp_all add: stream_writes_never_panic envelope_no_Panic buffer_no_Panic
      write_seq_no_Panic split: option.splits)

lemma transparent_no_Panic:
  "stream_laws B \<Longrightarrow> \<not> has_noop (Request_Transparent m) \<Longrightarrow> TransparentMessage_encode B m \<noteq> Panic"
  unfolding TransparentMessage_encode_def
  by (cases m) (simp_all add: stream_writes_never_panic buffer_no_Panic handshake_no_Panic
      write_seq_no_Panic)

lemma states_no_Panic:
  "stream_laws B \<Longrightarrow> MeetingState_encode B m \<noteq> Panic"
  "stream_laws B \<Longrightarrow> SessionState_encode B x \<noteq> Panic"
  "stream_laws B \<Longrightarrow> SessionRequest_encode B r \<noteq> Panic"
  unfolding MeetingState_encode_def SessionState_encode_def SessionRequest_encode_def
  by (simp_all add: stream_writes_never_panic write_seq_no_Panic list_all_iff buffer_no_Panic)

lemma server_no_Panic: "stream_laws B \<Longrightarrow> m \<noteq> Server_Noop \<Longrightarrow> ServerMessage_encode B m \<noteq> Panic"
  unfolding ServerMessage_encode_def
  by (cases m) (simp_all add: stream_writes_never_panic write_seq_no_Panic list_all_iff
      buffer_no_Panic states_no_Panic)

lemma response_opaque_no_Panic:
  "stream_laws B \<Longrightarrow> m \<noteq> Opaque_Noop \<Longrightarrow> ResponseMessage_encode B (Response_Opaque m) \<noteq> Panic"
  unfolding ResponseMessage_encode_def
  by (simp add: stream_writes_never_panic preamble_no_Panic opaque_no_Panic write_seq_no_Panic)

lemma response_transparent_no_Panic:
  "stream_laws B \<Longrightarrow> \<not> has_noop (Request_Transparent m) \<Longrightarrow>
   ResponseMessage_encode B (Response_Transparent m) \<noteq> Panic"
  unfolding ResponseMessage_encode_def
  by (simp add: stream_writes_never_panic preamble_no_Panic transparent_no_Panic write_seq_no_Panic)

text \<open>
  Encoding a request panics only for the \<open>Noop\<close> placeholders, at any depth; oversized
  buffers and strings are errors of the encoder, not panics.
\<close>

lemma request_encode_panics_only_noop:
  assumes "stream_laws B" and "\<not> has_noop m"
  shows "encode RequestMessage_encode B m \<noteq> Panic"
  using assms unfolding encode_def RequestMessage_encode_def
  by (cases m) (simp_all add: stream_writes_never_panic preamble_no_Panic opaque_no_Panic
      transparent_no_Panic write_seq_no_Panic)

end
