(* ===== verification/Noise_Channel.thy ===== *)
theory Noise_Channel
  imports Messages
begin

text \<open>
  Encrypted channels: the protocol state of a connection (\<open>ProtocolState\<close>), splitting a payload
  into encrypted chunks and joining them (\<open>Chunk::split\<close>, \<open>Chunk::join\<close> in
  \<open>protocol/src/protocol.rs\<close>) and the server channel (\<open>protocol/src/channel.rs\<close>).

  The noise protocol itself is the \<open>snow\<close> crate, outside the repository: its operations are the
  record \<open>snow_ops\<close>, a parameter of everything that encrypts. A write returns the message it
  puts at the front of the caller's buffer, whose length it is given; a read likewise returns the
  payload. Building a state takes the randomness it will use.

  What the code relies on is stated by two predicates. \<open>transport_laws S sync\<close>: when the sending
  side of one transport state and the receiving side of another are synchronised, a message
  written by the first reads back at the second and both stay synchronised, and the ciphertext is
  16 bytes longer than the payload. \<open>handshake_laws S paired sync\<close>: the two-message handshake of
  an initiator and a responder built for each other leaves synchronised transports.
  \<open>counter_snow\<close> is a concrete instance, which shows that the laws can hold.
\<close>

record ('h, 't) snow_ops =
  parse_params :: "string \<Rightarrow> (snow_error, string) outcome"
  build_initiator :: "nat \<Rightarrow> string \<Rightarrow> bytes \<Rightarrow> bytes \<Rightarrow> (snow_error, 'h) outcome"
  build_responder :: "nat \<Rightarrow> string \<Rightarrow> bytes \<Rightarrow> bytes \<Rightarrow> (snow_error, 'h) outcome"
  handshake_write :: "'h \<Rightarrow> bytes \<Rightarrow> nat \<Rightarrow> 'h \<times> (snow_error, bytes) outcome"
  handshake_read :: "'h \<Rightarrow> bytes \<Rightarrow> nat \<Rightarrow> 'h \<times> (snow_error, bytes) outcome"
  into_transport_mode :: "'h \<Rightarrow> (snow_error, 't) outcome"
  transport_write :: "'t \<Rightarrow> bytes \<Rightarrow> nat \<Rightarrow> 't \<times> (snow_error, bytes) outcome"
  transport_read :: "'t \<Rightarrow> bytes \<Rightarrow> nat \<Rightarrow> 't \<times> (snow_error, bytes) outcome"

datatype ('h, 't) protocol_state = Handshake 'h | Transport 't

subsection \<open>Chunks\<close>

definition CHUNK_SIZE :: nat where
  "CHUNK_SIZE = 65535 - TAGLEN"

fun split_pieces :: "('h, 't) snow_ops \<Rightarrow> bytes list \<Rightarrow> 't \<Rightarrow> 't \<times> (protocol_error, chunk list) outcome" where
  "split_pieces S [] t = (t, Ok [])"
| "split_pieces S (piece # pieces) t =
     st_then (apsnd (map_err Snow) (transport_write S t piece (length piece + TAGLEN)))
       (\<lambda>t msg. st_then (split_pieces S pieces t)
         (\<lambda>t chunks. (t, Ok (\<lparr>chunk_length = length msg,
             chunk_contents = write_into (replicate (length piece + TAGLEN) 0) msg\<rparr> # chunks)))
         id)
       id"

definition Chunk_split :: "('h, 't) snow_ops \<Rightarrow> bytes \<Rightarrow> 't \<Rightarrow> 't \<times> (protocol_error, chunk list) outcome" where
  "Chunk_split S payload t = split_pieces S (chunks_of CHUNK_SIZE payload) t"

text \<open>
  One iteration of \<open>Chunk::join\<close>: the slice \<open>contents[..length]\<close> panics when the declared
  length exceeds the contents; \<open>contents.len() - TAGLEN\<close> underflows below the tag length.
\<close>

definition join_one :: "bool \<Rightarrow> ('h, 't) snow_ops \<Rightarrow> chunk \<Rightarrow> 't \<Rightarrow> 't \<times> (protocol_error, bytes) outcome" where
  "join_one checks S c t =
     (if chunk_length c > length (chunk_contents c) then (t, Panic)
      else st_then
        (apsnd (map_err Snow)
          (transport_read S t (take (chunk_length c) (chunk_contents c)) (chunk_length c)))
        (\<lambda>t msg.
          let contents = write_into (replicate (chunk_length c) 0) msg in
          if length contents < TAGLEN then (t, if checks then Panic else Ok contents)
          else (t, Ok (take (length contents - TAGLEN) contents)))
        id)"

fun Chunk_join :: "bool \<Rightarrow> ('h, 't) snow_ops \<Rightarrow> chunk list \<Rightarrow> 't \<Rightarrow> 't \<times> (protocol_error, bytes) outcome" where
  "Chunk_join checks S [] t = (t, Ok [])"
| "Chunk_join checks S (c # cs) t =
     st_then (join_one checks S c t)
       (\<lambda>t contents. st_then (Chunk_join checks S cs t)
         (\<lambda>t payload. (t, Ok (contents @ payload))) id)
       id"

subsection \<open>The encrypted server channel\<close>

fun encrypt_server_channel ::
  "('h, 't) snow_ops \<Rightarrow> ('h, 't) protocol_state \<Rightarrow> bytes \<Rightarrow> bool \<Rightarrow>
   ('h, 't) protocol_state \<times> (protocol_error, sealed_envelope) outcome" where
  "encrypt_server_channel S (Transport t) payload broadcast =
     st_then (Chunk_split S payload t)
       (\<lambda>t chunks. (Transport t, Ok \<lparr>env_encoding = Blob, env_chunks = chunks, env_broadcast = broadcast\<rparr>))
       Transport"
| "encrypt_server_channel S (Handshake h) payload broadcast = (Handshake h, Err NotTransportState)"

fun decrypt_server_channel ::
  "bool \<Rightarrow> ('h, 't) snow_ops \<Rightarrow> ('h, 't) protocol_state \<Rightarrow> sealed_envelope \<Rightarrow>
   ('h, 't) protocol_state \<times> (protocol_error, encoding \<times> bytes) outcome" where
  "decrypt_server_channel checks S (Transport t) envelope =
     st_then (Chunk_join checks S (env_chunks envelope) t)
       (\<lambda>t contents. (Transport t, Ok (env_encoding envelope, contents)))
       Transport"
| "decrypt_server_channel checks S (Handshake h) envelope = (Handshake h, Err NotTransportState)"

subsection \<open>What the noise library promises\<close>

definition transport_laws :: "('h, 't) snow_ops \<Rightarrow> ('t \<Rightarrow> 't \<Rightarrow> bool) \<Rightarrow> bool" where
  "transport_laws S sync \<longleftrightarrow>
     (\<forall>a b p n. sync a b \<longrightarrow> length p + TAGLEN \<le> 65535 \<longrightarrow> length p + TAGLEN \<le> n \<longrightarrow>
        (\<exists>a' c. transport_write S a p n = (a', Ok c) \<and> length c = length p + TAGLEN \<and>
          (\<forall>m. length p \<le> m \<longrightarrow> (\<exists>b'. transport_read S b c m = (b', Ok p) \<and> sync a' b')))) \<and>
     (\<forall>a p n a' o' b. transport_write S a p n = (a', o') \<longrightarrow> sync b a \<longrightarrow> sync b a') \<and>
     (\<forall>a c n a' o' b. transport_read S a c n = (a', o') \<longrightarrow> sync a b \<longrightarrow> sync a' b)"

definition transport_safe :: "('h, 't) snow_ops \<Rightarrow> bool" where
  "transport_safe S \<longleftrightarrow>
     (\<forall>t p n t' o'. transport_write S t p n = (t', o') \<longrightarrow>
        o' \<noteq> Panic \<and> (\<forall>c. o' = Ok c \<longrightarrow> length c = length p + TAGLEN \<and> length c \<le> n)) \<and>
     (\<forall>t c n t' o'. transport_read S t c n = (t', o') \<longrightarrow>
        o' \<noteq> Panic \<and> (\<forall>p. o' = Ok p \<longrightarrow> length c = length p + TAGLEN \<and> length p \<le> n))"

definition handshake_laws ::
  "('h, 't) snow_ops \<Rightarrow> ('h \<Rightarrow> 'h \<Rightarrow> bool) \<Rightarrow> ('t \<Rightarrow> 't \<Rightarrow> bool) \<Rightarrow> bool" where
  "handshake_laws S paired sync \<longleftrightarrow>
     (\<forall>i r. paired i r \<longrightarrow>
       (\<exists>i1 m1 r1 r2 m2 i2 ti tr.
          handshake_write S i [] 1024 = (i1, Ok m1) \<and> length m1 \<le> 1024 \<and>
          handshake_read S r m1 1024 = (r1, Ok []) \<and>
          handshake_write S r1 [] 1024 = (r2, Ok m2) \<and> length m2 \<le> 1024 \<and>
          handshake_read S i1 m2 1024 = (i2, Ok []) \<and>
          into_transport_mode S i2 = Ok ti \<and> into_transport_mode S r2 = Ok tr \<and>
          sync ti tr \<and> sync tr ti))"

lemma transport_write_safe:
  "transport_safe S \<Longrightarrow> transport_write S t p n = (t', o') \<Longrightarrow>
   o' \<noteq> Panic \<and> (\<forall>c. o' = Ok c \<longrightarrow> length c = length p + TAGLEN \<and> length c \<le> n)"
  unfolding transport_safe_def by blast

lemma transport_read_safe:
  "transport_safe S \<Longrightarrow> transport_read S t c n = (t', o') \<Longrightarrow>
   o' \<noteq> Panic \<and> (\<forall>p. o' = Ok p \<longrightarrow> length c = length p + TAGLEN \<and> length p \<le> n)"
  unfolding transport_safe_def by blast

subsection \<open>An instance of the noise operations\<close>

text \<open>
  Transport states count the messages sent and received; a ciphertext is the payload followed by
  a tag that repeats the counter. Handshake states are a role and a step.
\<close>

definition counter_tag :: "nat \<Rightarrow> bytes" where
  "counter_tag n = replicate TAGLEN (of_nat n)"

definition counter_snow :: "(bool \<times> nat, nat \<times> nat) snow_ops" where
  "counter_snow = \<lparr>
     parse_params = (\<lambda>s. if s = PATTERN then Ok s else Err SnowPattern),
     build_initiator = (\<lambda>_ _ _ _. Ok (True, 0)),
     build_responder = (\<lambda>_ _ _ _. Ok (False, 0)),
     handshake_write = (\<lambda>(i, n) p k.
       if i \<and> n = 0 then ((i, 1), Ok [1]) else if \<not> i \<and> n = 1 then ((i, 2), Ok [2])
       else ((i, n), Err SnowState)),
     handshake_read = (\<lambda>(i, n) m k.
       if \<not> i \<and> n = 0 \<and> m = [1] then ((i, 1), Ok []) else if i \<and> n = 1 \<and> m = [2] then ((i, 2), Ok [])
       else ((i, n), Err SnowState)),
     into_transport_mode = (\<lambda>(i, n). if n = 2 then Ok (0, 0) else Err SnowState),
     transport_write = (\<lambda>(s, r) p n.
       if length p + TAGLEN \<le> n \<and> length p + TAGLEN \<le> 65535
       then ((s + 1, r), Ok (p @ counter_tag s)) else ((s, r), Err SnowInput)),
     transport_read = (\<lambda>(s, r) c n.
       if TAGLEN \<le> length c \<and> length c - TAGLEN \<le> n \<and> drop (length c - TAGLEN) c = counter_tag r
       then ((s, r + 1), Ok (take (length c - TAGLEN) c)) else ((s, r), Err SnowDecrypt))
   \<rparr>"

definition counter_sync :: "nat \<times> nat \<Rightarrow> nat \<times> nat \<Rightarrow> bool" where
  "counter_sync a b \<longleftrightarrow> fst a = snd b"

definition counter_paired :: "bool \<times> nat \<Rightarrow> bool \<times> nat \<Rightarrow> bool" where
  "counter_paired i r \<longleftrightarrow> i = (True, 0) \<and> r = (False, 0)"

lemma length_counter_tag [simp]: "length (counter_tag n) = TAGLEN"
  by (simp add: counter_tag_def)

lemma counter_transport_laws: "transport_laws counter_snow counter_sync"
  unfolding transport_laws_def
  by (auto simp: counter_snow_def counter_sync_def split: if_splits)

lemma counter_transport_safe: "transport_safe counter_snow"
  unfolding transport_safe_def
  by (auto simp: counter_snow_def split: if_splits)

lemma counter_handshake_laws: "handshake_laws counter_snow counter_paired counter_sync"
  unfolding handshake_laws_def
  by (auto simp: counter_snow_def counter_paired_def counter_sync_def)

subsection \<open>Splitting and joining\<close>

lemma apsnd_map_err_Ok [simp]: "apsnd (map_err f) m = (t, Ok x) \<longleftrightarrow> m = (t, Ok x)"
  by (cases m) auto

lemma apsnd_map_err_Panic [simp]: "apsnd (map_err f) m = (t, Panic) \<longleftrightarrow> m = (t, Panic)"
  by (cases m) auto

lemma split_join_pieces:
  assumes laws: "transport_laws S sync"
    and "sync a b" and "\<And>p. p \<in> set pieces \<Longrightarrow> length p \<le> CHUNK_SIZE"
  shows "\<exists>a' b' chunks. split_pieces S pieces a = (a', Ok chunks) \<and>
    Chunk_join checks S chunks b = (b', Ok (concat pieces)) \<and> sync a' b' \<and>
    length chunks = length pieces \<and>
    (\<forall>c\<in>set chunks. chunk_length c \<le> 65535 \<and> length (chunk_contents c) = chunk_length c)"
  using assms(2,3)
proof (induction pieces arbitrary: a b)
  case (Cons p pieces)
  let ?n = "length p + TAGLEN"
  have n: "?n \<le> 65535"
    using Cons.prems(2) [of p] by (simp add: CHUNK_SIZE_def TAGLEN_def)
  obtain a1 c b1 where step: "transport_write S a p ?n = (a1, Ok c)" "length c = ?n"
    "transport_read S b c ?n = (b1, Ok p)" "sync a1 b1"
    using laws Cons.prems(1) n unfolding transport_laws_def by (metis le_add1 order_refl)
  obtain a2 b2 chunks where rest: "split_pieces S pieces a1 = (a2, Ok chunks)"
    "Chunk_join checks S chunks b1 = (b2, Ok (concat pieces))" "sync a2 b2"
    "length chunks = length pieces"
    "\<forall>c\<in>set chunks. chunk_length c \<le> 65535 \<and> length (chunk_contents c) = chunk_length c"
    using Cons.IH [OF step(4)] Cons.prems(2) by auto
  let ?c = "\<lparr>chunk_length = ?n, chunk_contents = c\<rparr>"
  have "split_pieces S (p # pieces) a = (a2, Ok (?c # chunks))"
    using step rest by simp
  moreover have "join_one checks S ?c b = (b1, Ok p)"
    using step by (simp add: join_one_def Let_def write_into_def)
  then have "Chunk_join checks S (?c # chunks) b = (b2, Ok (concat (p # pieces)))"
    using rest by simp
  ultimately show ?case
    using rest step(2) n by (intro exI [of _ a2] exI [of _ b2] exI [of _ "?c # chunks"]) auto
qed auto

lemma chunk_split_join:
  assumes "transport_laws S sync" and "sync a b"
  shows "\<exists>a' b' chunks. Chunk_split S payload a = (a', Ok chunks) \<and>
    Chunk_join checks S chunks b = (b', Ok payload) \<and> sync a' b' \<and>
    length chunks = (length payload + CHUNK_SIZE - 1) div CHUNK_SIZE \<and>
    (\<forall>c\<in>set chunks. chunk_length c \<le> 65535 \<and> length (chunk_contents c) = chunk_length c)"
proof -
  have "0 < CHUNK_SIZE" by (simp add: CHUNK_SIZE_def TAGLEN_def)
  then show ?thesis
    using split_join_pieces [OF assms, of "chunks_of CHUNK_SIZE payload" checks]
    by (auto simp: Chunk_split_def concat_chunks_of length_chunks_of dest: chunks_of_bounds)
qed

text \<open>Joining fails by a panic only on a chunk that declares more bytes than it holds.\<close>

lemma join_one_panic:
  assumes "transport_safe S"
  shows "snd (join_one checks S c t) = Panic \<longleftrightarrow> chunk_length c > length (chunk_contents c)"
proof (cases "chunk_length c > length (chunk_contents c)")
  case False
  obtain t' o' where r: "transport_read S t (take (chunk_length c) (chunk_contents c)) (chunk_length c) = (t', o')"
    by fastforce
  have o': "o' \<noteq> Panic" "\<And>p. o' = Ok p \<Longrightarrow> chunk_length c = length p + TAGLEN"
    using transport_read_safe [OF assms r] False by auto
  show ?thesis
    using False r o' by (cases o') (auto simp: join_one_def Let_def)
qed (simp add: join_one_def)

lemma Chunk_join_safe:
  assumes "transport_safe S" and "\<forall>c\<in>set chunks. chunk_length c \<le> length (chunk_contents c)"
  shows "snd (Chunk_join checks S chunks t) \<noteq> Panic"
  using assms(2)
proof (induction chunks arbitrary: t)
  case (Cons c cs)
  have "snd (join_one checks S c t) \<noteq> Panic"
    using Cons.prems join_one_panic [OF assms(1)] by auto
  moreover obtain t' o' where "join_one checks S c t = (t', o')" by fastforce
  moreover obtain t2 o2 where "Chunk_join checks S cs t' = (t2, o2)" by fastforce
  ultimately show ?case
    using Cons.IH [of t'] Cons.prems by (cases o'; cases o2) auto
qed simp

text \<open>Joining panics at the first chunk that is too short, if it gets there.\<close>

definition joins :: "bool \<Rightarrow> ('h, 't) snow_ops \<Rightarrow> chunk list \<Rightarrow> 't \<Rightarrow> bool" where
  "joins checks S chunks t \<longleftrightarrow> (\<exists>t' payload. Chunk_join checks S chunks t = (t', Ok payload))"

lemma Chunk_join_Cons:
  assumes "join_one checks S x t = (t1, Ok contents)"
  shows "snd (Chunk_join checks S (x # xs) t) = Panic \<longleftrightarrow> snd (Chunk_join checks S xs t1) = Panic"
    and "joins checks S (x # xs) t \<longleftrightarrow> joins checks S xs t1"
  using assms by (cases "Chunk_join checks S xs t1"; cases "snd (Chunk_join checks S xs t1)"; simp add: joins_def)+

lemma Chunk_join_panic:
  assumes "transport_safe S"
  shows "snd (Chunk_join checks S chunks t) = Panic \<longleftrightarrow>
    (\<exists>i<length chunks. joins checks S (take i chunks) t \<and> chunk_length (chunks ! i) > length (chunk_contents (chunks ! i)))"
proof (induction chunks arbitrary: t)
  case (Cons x xs)
  obtain t1 r where j: "join_one checks S x t = (t1, r)" by fastforce
  note x = join_one_panic [OF assms, of checks x t]
  have [simp]: "joins checks S [] t" by (simp add: joins_def)
  show ?case
  proof (cases r)
    case (Ok contents)
    then show ?thesis
      using x j Cons.IH [of t1] Chunk_join_Cons [OF j [unfolded Ok]] by (simp add: Ex_less_Suc2 del: Chunk_join.simps)
  qed (use x j in \<open>auto simp: Ex_less_Suc2 joins_def\<close>)
qed simp

subsection \<open>The contract of an encrypted channel\<close>

text \<open>
  An operation that seals a payload at one end and one that opens it at the other, between linked
  ends. The server channel here and the peer channel of the client are instances; a whole sequence
  of payloads then arrives complete and in order.
\<close>

fun run_all :: "('s \<Rightarrow> 'a \<Rightarrow> 's \<times> ('e, 'b) outcome) \<Rightarrow> 's \<Rightarrow> 'a list \<Rightarrow> 's \<times> ('e, 'b list) outcome" where
  "run_all f s [] = (s, Ok [])"
| "run_all f s (x # xs) =
     st_then (f s x) (\<lambda>s y. st_then (run_all f s xs) (\<lambda>s ys. (s, Ok (y # ys))) id) id"

locale sealed_channel =
  fixes seal :: "('h, 't) snow_ops \<Rightarrow> 's \<Rightarrow> 'm \<Rightarrow> 's \<times> ('e, 'c) outcome"
    and unseal :: "bool \<Rightarrow> ('h, 't) snow_ops \<Rightarrow> 'r \<Rightarrow> 'c \<Rightarrow> 'r \<times> ('e, 'd) outcome"
    and received :: "'m \<Rightarrow> 'd"
    and linked :: "('t \<Rightarrow> 't \<Rightarrow> bool) \<Rightarrow> 's \<Rightarrow> 'r \<Rightarrow> bool"
  assumes delivers: "transport_laws S sync \<Longrightarrow> linked sync a b \<Longrightarrow>
    \<exists>a' c b'. seal S a m = (a', Ok c) \<and> unseal checks S b c = (b', Ok (received m)) \<and> linked sync a' b'"
begin

lemma delivers_all:
  assumes "transport_laws S sync" and "linked sync a b"
  shows "\<exists>a' cs b'. run_all (seal S) a ms = (a', Ok cs) \<and>
    run_all (unseal checks S) b cs = (b', Ok (map received ms)) \<and> linked sync a' b'"
  using assms(2)
proof (induction ms arbitrary: a b)
  case (Cons m ms)
  obtain a1 c b1 where one: "seal S a m = (a1, Ok c)" "unseal checks S b c = (b1, Ok (received m))"
    "linked sync a1 b1"
    using delivers [OF assms(1) Cons.prems] by blast
  obtain a2 cs b2 where "run_all (seal S) a1 ms = (a2, Ok cs)"
    "run_all (unseal checks S) b1 cs = (b2, Ok (map received ms))" "linked sync a2 b2"
    using Cons.IH [OF one(3)] by blast
  then show ?case
    using one by (intro exI [of _ a2] exI [of _ "c # cs"] exI [of _ b2]) simp
qed auto

end

text \<open>The channel reaches its peer: what one end encrypts, the other end decrypts.\<close>

lemma server_channel_delivers:
  assumes "transport_laws S sync" and "sync a b"
  shows "\<exists>a' b' envelope.
    encrypt_server_channel S (Transport a) payload broadcast = (Transport a', Ok envelope) \<and>
    decrypt_server_channel checks S (Transport b) envelope = (Transport b', Ok (Blob, payload)) \<and>
    sync a' b' \<and> env_broadcast envelope = broadcast"
proof -
  obtain a' b' chunks where "Chunk_split S payload a = (a', Ok chunks)"
    "Chunk_join checks S chunks b = (b', Ok payload)" "sync a' b'"
    using chunk_split_join [OF assms] by blast
  then show ?thesis by simp
qed

fun transports_linked :: "('t \<Rightarrow> 't \<Rightarrow> bool) \<Rightarrow> ('h, 't) protocol_state \<Rightarrow> ('h, 't) protocol_state \<Rightarrow> bool" where
  "transports_linked sync (Transport a) (Transport b) = sync a b"
| "transports_linked sync _ _ = False"

interpretation server_channel: sealed_channel
  "\<lambda>S s (payload, broadcast). encrypt_server_channel S s payload broadcast" decrypt_server_channel
  "\<lambda>(payload, _). (Blob, payload)" transports_linked
proof unfold_locales
  fix S :: "('h, 't) snow_ops" and sync and a b :: "('h, 't) protocol_state" and m :: "bytes \<times> bool" and checks
  assume laws: "transport_laws S sync" and "transports_linked sync a b"
  then obtain ta tb where ab: "a = Transport ta" "b = Transport tb" "sync ta tb"
    by (cases a; cases b) auto
  obtain payload broadcast where "m = (payload, broadcast)" by fastforce
  then show "\<exists>a' c b'. (case m of (payload, broadcast) \<Rightarrow> encrypt_server_channel S a payload broadcast) = (a', Ok c) \<and>
      decrypt_server_channel checks S b c = (b', Ok (case m of (payload, _) \<Rightarrow> (Blob, payload))) \<and>
      transports_linked sync a' b'"
    using server_channel_delivers [OF laws ab(3), of payload broadcast checks] ab(1,2) by fastforce
qed

subsection \<open>Properties\<close>

text \<open>
  C28: A sequence of payloads encrypted at one end of the server channel and decrypted at the
  other arrives complete, unchanged and in order, under any build of the receiver.
\<close>

theorem server_channel_in_order:
  assumes "transport_laws S sync" and "sync a b"
  shows "\<exists>a' envelopes b'.
    run_all (\<lambda>s (payload, broadcast). encrypt_server_channel S s payload broadcast) (Transport a) ms
      = (a', Ok envelopes) \<and>
    run_all (decrypt_server_channel checks S) (Transport b) envelopes
      = (b', Ok (map (\<lambda>(payload, _). (Blob, payload)) ms))"
  using server_channel.delivers_all [OF assms(1), of "Transport a" "Transport b" ms checks] assms(2)
  by auto

theorem server_channel_in_order_witness:
  "\<exists>a' envelopes b'.
    run_all (\<lambda>s (payload, broadcast). encrypt_server_channel counter_snow s payload broadcast)
      (Transport (0, 0)) [([1, 2], False), ([3], True)] = (a', Ok envelopes) \<and>
    run_all (decrypt_server_channel True counter_snow) (Transport (0, 0)) envelopes
      = (b', Ok [(Blob, [1, 2]), (Blob, [3])])"
  using server_channel_in_order [OF counter_transport_laws, of "(0, 0)" "(0, 0)"
      "[([1, 2], False), ([3], True)]" True]
  by (simp add: counter_sync_def)

text \<open>
  C29: Opening an envelope from the network panics exactly if it reaches a chunk that declares more
  bytes than it holds: the channel is in transport mode, one of the chunks is such a chunk, and all
  chunks before it decrypt. The length check that would turn this into an error is absent.
\<close>

theorem envelope_panic_condition:
  assumes "transport_safe S"
  shows "snd (decrypt_server_channel checks S s envelope) = Panic \<longleftrightarrow>
    (\<exists>t i. s = Transport t \<and> i < length (env_chunks envelope) \<and>
       (\<exists>t' payload. Chunk_join checks S (take i (env_chunks envelope)) t = (t', Ok payload)) \<and>
       chunk_length (env_chunks envelope ! i) > length (chunk_contents (env_chunks envelope ! i)))"
proof (cases s)
  case (Transport t)
  have "snd (decrypt_server_channel checks S s envelope) = Panic \<longleftrightarrow>
      snd (Chunk_join checks S (env_chunks envelope) t) = Panic"
    using Transport
    by (cases "Chunk_join checks S (env_chunks envelope) t"; cases "snd (Chunk_join checks S (env_chunks envelope) t)") auto
  then show ?thesis using Transport by (auto simp: Chunk_join_panic [OF assms] joins_def)
qed simp

text \<open>The second of two chunks is too short.\<close>

theorem envelope_panic_condition_witness:
  "\<exists>t chunk. snd (decrypt_server_channel True counter_snow (Transport t)
     \<lparr>env_encoding = Blob, env_chunks = [chunk, \<lparr>chunk_length = 2, chunk_contents = [1]\<rparr>], env_broadcast = False\<rparr>) = Panic"
proof -
  obtain b' chunks where c: "Chunk_join True counter_snow chunks (0, 0) = (b', Ok [7])" "length chunks = 1"
    using chunk_split_join [OF counter_transport_laws, of "(0, 0)" "(0, 0)" "[7]" True]
    by (auto simp: counter_sync_def CHUNK_SIZE_def TAGLEN_def)
  then obtain x where x: "chunks = [x]" by (cases chunks) auto
  let ?e = "\<lparr>env_encoding = Blob, env_chunks = [x, \<lparr>chunk_length = 2, chunk_contents = [1]\<rparr>], env_broadcast = False\<rparr>"
  have "1 < length (env_chunks ?e)" "Chunk_join True counter_snow (take 1 (env_chunks ?e)) (0, 0) = (b', Ok [7])"
    "length (chunk_contents (env_chunks ?e ! 1)) < chunk_length (env_chunks ?e ! 1)"
    using c(1) x by simp_all
  then show ?thesis
    using envelope_panic_condition [OF counter_transport_safe, of True "Transport (0, 0)" ?e] by blast
qed

end
