(* ===== verification/Sessions.thy ===== *)
theory Sessions
  imports Messages
begin

text \<open>
  Meeting points and sessions as the server keeps them (\<open>Session\<close>, \<open>Meeting\<close>,
  \<open>MeetingManager\<close>, \<open>SessionManager\<close> in \<open>protocol/src/protocol.rs\<close>).

  Times are nanoseconds. \<open>MeetingId::new_v4()\<close> and \<open>SystemTime::now()\<close> are inputs of the
  operations that call them; \<open>expired_keys\<close> reads the clock for each entry, so it takes the
  reading as a function of the entry's identifier. A \<open>HashMap\<close> or \<open>HashSet\<close> is a list without
  repeated keys; its order stands for the iteration order, on which no lemma depends.
  The locale \<open>expiring_store\<close> is what the reaper of the server needs from a manager; both managers
  are interpretations of it.
\<close>

record session =
  owner_key :: public_key
  session_participant_keys :: "public_key list"
  session_connections :: "(public_key \<times> public_key) list"
  session_last_access :: nat

record meeting =
  slots :: "(user_id \<times> public_key option) list"
  meeting_last_access :: nat

type_synonym session_manager = "(session_id \<times> session) list"
type_synonym meeting_manager = "(meeting_id \<times> meeting) list"

subsection \<open>Sessions\<close>

definition public_keys :: "session \<Rightarrow> public_key list" where
  "public_keys s = owner_key s # session_participant_keys s"

definition register_connection :: "public_key \<Rightarrow> public_key \<Rightarrow> session \<Rightarrow> session" where
  "register_connection peer other s =
     s\<lparr>session_connections := hset_insert (peer, other) (session_connections s)\<rparr>"

fun check_connection :: "(public_key \<times> public_key) list \<Rightarrow> public_key \<Rightarrow> public_key list \<Rightarrow> bool" where
  "check_connection conns peer [] = True"
| "check_connection conns peer (key # keys) =
     (if key = peer then check_connection conns peer keys
      else if (peer, key) \<in> set conns \<or> (key, peer) \<in> set conns
      then check_connection conns peer keys
      else False)"

fun check_connections :: "(public_key \<times> public_key) list \<Rightarrow> public_key list \<Rightarrow> public_key list \<Rightarrow> bool" where
  "check_connections conns all_keys [] = True"
| "check_connections conns all_keys (key # keys) =
     (if check_connection conns key all_keys then check_connections conns all_keys keys else False)"

definition is_active :: "session \<Rightarrow> bool" where
  "is_active s = check_connections (session_connections s) (public_keys s) (public_keys s)"

subsection \<open>Meetings\<close>

definition meeting_join :: "nat \<Rightarrow> user_id \<Rightarrow> public_key \<Rightarrow> meeting \<Rightarrow> meeting" where
  "meeting_join now user key m =
     m\<lparr>slots := AList.update user (Some key) (slots m), meeting_last_access := now\<rparr>"

definition is_full :: "meeting \<Rightarrow> bool" where
  "is_full m = list_all (\<lambda>(_, s). s \<noteq> None) (slots m)"

definition participants :: "meeting \<Rightarrow> public_key list" where
  "participants m = List.map_filter snd (slots m)"

definition new_meeting ::
  "nat \<Rightarrow> meeting_id \<Rightarrow> public_key \<Rightarrow> user_id \<Rightarrow> user_id list \<Rightarrow> meeting_manager \<Rightarrow> meeting_manager" where
  "new_meeting now new_id owner owner_id users ms =
     (let m = \<lparr>slots = map (\<lambda>u. (u, None)) users, meeting_last_access = now\<rparr>
      in AList.update new_id (meeting_join now owner_id owner m) ms)"

definition remove_meeting :: "meeting_id \<Rightarrow> meeting_manager \<Rightarrow> meeting_manager" where
  "remove_meeting i ms = AList.delete i ms"

definition get_meeting :: "meeting_manager \<Rightarrow> meeting_id \<Rightarrow> meeting option" where
  "get_meeting ms i = map_of ms i"

subsection \<open>Expiry\<close>

text \<open>
  \<open>SystemTime::checked_add\<close> fails beyond the largest time of the platform (64-bit signed
  seconds). The time to live is \<open>Duration::from_millis(timeout * 1000)\<close>, a 64-bit product.
\<close>

definition system_time_max :: nat where
  "system_time_max = (2 ^ 63 - 1) * 1000000000 + 999999999"

definition time_checked_add :: "nat \<Rightarrow> nat \<Rightarrow> nat option" where
  "time_checked_add t d = (if t + d \<le> system_time_max then Some (t + d) else None)"

definition ttl_expired :: "bool \<Rightarrow> u64 \<Rightarrow> nat \<Rightarrow> nat \<Rightarrow> ('e, bool) outcome" where
  "ttl_expired checks timeout last_access now =
     and_then (checked_mul checks timeout 1000) (\<lambda>millis.
       Ok (case time_checked_add last_access (unat millis * 1000000) of
             Some current \<Rightarrow> current < now
           | None \<Rightarrow> False))"

fun filter_outcome :: "('a \<Rightarrow> ('e, bool) outcome) \<Rightarrow> 'a list \<Rightarrow> ('e, 'a list) outcome" where
  "filter_outcome p [] = Ok []"
| "filter_outcome p (x # xs) =
     and_then (p x) (\<lambda>b. and_then (filter_outcome p xs) (\<lambda>ys. Ok (if b then x # ys else ys)))"

definition expired_meetings :: "bool \<Rightarrow> u64 \<Rightarrow> (meeting_id \<Rightarrow> nat) \<Rightarrow> meeting_manager \<Rightarrow> ('e, meeting_id list) outcome" where
  "expired_meetings checks timeout clock ms =
     and_then (filter_outcome (\<lambda>(i, m). ttl_expired checks timeout (meeting_last_access m) (clock i)) ms)
       (\<lambda>es. Ok (map fst es))"

definition new_session ::
  "nat \<Rightarrow> session_id \<Rightarrow> public_key \<Rightarrow> public_key list \<Rightarrow> session_manager \<Rightarrow> session_manager" where
  "new_session now new_id owner keys ss =
     AList.update new_id \<lparr>owner_key = owner, session_participant_keys = hset_of keys,
       session_connections = [], session_last_access = now\<rparr> ss"

definition get_session :: "session_manager \<Rightarrow> session_id \<Rightarrow> session option" where
  "get_session ss i = map_of ss i"

definition remove_session :: "session_id \<Rightarrow> session_manager \<Rightarrow> session_manager" where
  "remove_session i ss = AList.delete i ss"

definition touch_session :: "nat \<Rightarrow> session_id \<Rightarrow> session_manager \<Rightarrow> session_manager \<times> session option" where
  "touch_session now i ss =
     (case map_of ss i of
        Some s \<Rightarrow> (let s' = s\<lparr>session_last_access := now\<rparr> in (AList.update i s' ss, Some s'))
      | None \<Rightarrow> (ss, None))"

definition expired_sessions :: "bool \<Rightarrow> u64 \<Rightarrow> (session_id \<Rightarrow> nat) \<Rightarrow> session_manager \<Rightarrow> ('e, session_id list) outcome" where
  "expired_sessions checks timeout clock ss =
     and_then (filter_outcome (\<lambda>(i, s). ttl_expired checks timeout (session_last_access s) (clock i)) ss)
       (\<lambda>es. Ok (map fst es))"

subsection \<open>Activity of a session\<close>

lemma check_connection_iff:
  "check_connection conns peer keys \<longleftrightarrow>
   (\<forall>k\<in>set keys. k \<noteq> peer \<longrightarrow> (peer, k) \<in> set conns \<or> (k, peer) \<in> set conns)"
  by (induction keys) auto

lemma check_connections_iff:
  "check_connections conns all_keys keys \<longleftrightarrow> (\<forall>k\<in>set keys. check_connection conns k all_keys)"
  by (induction keys) auto

text \<open>A session is active when its connections, read in either direction, join every pair.\<close>

lemma is_active_complete:
  "is_active s \<longleftrightarrow>
   (\<forall>a\<in>set (public_keys s). \<forall>b\<in>set (public_keys s). a \<noteq> b \<longrightarrow>
      (a, b) \<in> set (session_connections s) \<or> (b, a) \<in> set (session_connections s))"
  unfolding is_active_def check_connections_iff check_connection_iff by blast

lemma public_keys_register [simp]: "public_keys (register_connection p q s) = public_keys s"
  by (simp add: register_connection_def public_keys_def)

lemma connections_register [simp]:
  "set (session_connections (register_connection p q s)) = insert (p, q) (set (session_connections s))"
  by (simp add: register_connection_def)

lemma is_active_register_outsider:
  "p \<notin> set (public_keys s) \<or> q \<notin> set (public_keys s) \<Longrightarrow>
   is_active (register_connection p q s) = is_active s"
  by (auto simp: is_active_complete)

lemma is_active_register_mono: "is_active s \<Longrightarrow> is_active (register_connection p q s)"
  by (auto simp: is_active_complete)

subsection \<open>Meetings fill up\<close>

lemma list_all_not_None: "list_all (\<lambda>(_, s). s \<noteq> None) xs \<longleftrightarrow> (\<forall>u. (u, None) \<notin> set xs)"
  by (induction xs) (auto simp del: not_None_eq)

lemma is_full_iff:
  assumes "distinct (map fst (slots m))"
  shows "is_full m \<longleftrightarrow> (\<forall>u. map_of (slots m) u \<noteq> Some None)"
proof -
  have "is_full m \<longleftrightarrow> (\<forall>u. (u, None) \<notin> set (slots m))"
    unfolding is_full_def by (rule list_all_not_None)
  then show ?thesis unfolding in_alist_iff_map_of [OF assms] .
qed

lemma set_participants: "set (participants m) = {k. \<exists>u. (u, Some k) \<in> set (slots m)}"
  by (force simp: participants_def List.map_filter_def split: option.splits)

lemma slots_meeting_join [simp]: "slots (meeting_join now u k m) = AList.update u (Some k) (slots m)"
  by (simp add: meeting_join_def)

lemma distinct_slots_join:
  "distinct (map fst (slots m)) \<Longrightarrow> distinct (map fst (slots (meeting_join now u k m)))"
  by (simp add: distinct_update)

lemma map_of_None_slots: "map_of (map (\<lambda>u. (u, None)) us) u = (if u \<in> set us then Some None else None)"
  by (induction us) auto

subsection \<open>Stores that expire\<close>

lemma filter_outcome_Ok:
  "filter_outcome p xs = Ok ys \<Longrightarrow>
   ys = filter (\<lambda>x. p x = Ok True) xs \<and> (\<forall>x\<in>set xs. \<exists>b. p x = Ok b)"
  by (induction xs arbitrary: ys) (auto simp: outcome_simps)

lemma filter_outcome_total:
  "(\<And>x. x \<in> set xs \<Longrightarrow> \<exists>b. p x = Ok b) \<Longrightarrow> \<exists>ys. filter_outcome p xs = Ok ys"
  by (induction xs) (fastforce simp: outcome_simps)+

text \<open>Timeouts below this bound neither panic nor wrap.\<close>

lemma ttl_expired_exact:
  assumes "unat timeout * 1000 < 2 ^ 64"
  shows "ttl_expired checks timeout last_access now =
    Ok (last_access + unat timeout * 1000000000 \<le> system_time_max \<and>
        last_access + unat timeout * 1000000000 < now)"
proof -
  have p: "unat timeout * unat (1000 :: u64) < 2 ^ LENGTH(64)"
    using assms by simp
  show ?thesis
    by (simp add: ttl_expired_def time_checked_add_def checked_mul_exact(1) [OF p]
        checked_mul_exact(2) [OF p, simplified] mult.commute)
qed

locale expiring_store =
  fixes get :: "'m \<Rightarrow> uuid \<Rightarrow> 'v option"
    and rem :: "uuid \<Rightarrow> 'm \<Rightarrow> 'm"
    and expired :: "bool \<Rightarrow> u64 \<Rightarrow> (uuid \<Rightarrow> nat) \<Rightarrow> 'm \<Rightarrow> ('e, uuid list) outcome"
    and last_access :: "'v \<Rightarrow> nat"
    and invar :: "'m \<Rightarrow> bool"
  assumes get_rem: "invar m \<Longrightarrow> get (rem i m) j = (if j = i then None else get m j)"
    and invar_rem: "invar m \<Longrightarrow> invar (rem i m)"
    and expired_iff: "invar m \<Longrightarrow> expired checks timeout clock m = Ok ids \<Longrightarrow>
      i \<in> set ids \<longleftrightarrow> (\<exists>v. get m i = Some v \<and>
        (ttl_expired checks timeout (last_access v) (clock i) :: ('e, bool) outcome) = Ok True)"
    and expired_total: "unat timeout * 1000 < 2 ^ 64 \<Longrightarrow> \<exists>ids. expired checks timeout clock m = Ok ids"
begin

lemma get_rem_all: "invar m \<Longrightarrow> get (fold rem ids m) i = (if i \<in> set ids then None else get m i)"
  by (induction ids arbitrary: m) (auto simp: get_rem invar_rem)

lemma invar_rem_all: "invar m \<Longrightarrow> invar (fold rem ids m)"
  by (induction ids arbitrary: m) (auto simp: invar_rem)

text \<open>
  Removing the expired identifiers removes exactly the entries not accessed for the timeout and
  keeps every other entry unchanged.
\<close>

lemma purge_exact:
  assumes "invar m" and "unat timeout * 1000 < 2 ^ 64"
  shows "\<exists>ids. expired checks timeout clock m = Ok ids \<and>
    (\<forall>i. get (fold rem ids m) i =
      (case get m i of
         None \<Rightarrow> None
       | Some v \<Rightarrow> if last_access v + unat timeout * 1000000000 < clock i \<and>
                      last_access v + unat timeout * 1000000000 \<le> system_time_max
                   then None else Some v))"
proof -
  obtain ids where ids: "expired checks timeout clock m = Ok ids"
    using expired_total [OF assms(2)] by blast
  have "i \<in> set ids \<longleftrightarrow> (\<exists>v. get m i = Some v \<and>
      last_access v + unat timeout * 1000000000 < clock i \<and>
      last_access v + unat timeout * 1000000000 \<le> system_time_max)" for i
    unfolding expired_iff [OF assms(1) ids] ttl_expired_exact [OF assms(2)] by auto
  then show ?thesis
    using ids assms(1) by (auto simp: get_rem_all split: option.splits)
qed

end

interpretation meeting_store: expiring_store get_meeting remove_meeting expired_meetings
  meeting_last_access "\<lambda>ms. distinct (map fst ms)"
proof unfold_locales
  fix checks timeout and clock :: "uuid \<Rightarrow> nat" and m :: meeting_manager and ids :: "uuid list" and i j
  show "get_meeting (remove_meeting i m) j = (if j = i then None else get_meeting m j)"
    by (simp add: get_meeting_def remove_meeting_def)
  show "distinct (map fst (remove_meeting i m))" if "distinct (map fst m)"
    using that by (simp add: remove_meeting_def distinct_delete)
  show "i \<in> set ids \<longleftrightarrow> (\<exists>v. get_meeting m i = Some v \<and>
      (ttl_expired checks timeout (meeting_last_access v) (clock i) :: ('e, bool) outcome) = Ok True)"
    if "distinct (map fst m)" "expired_meetings checks timeout clock m = (Ok ids :: ('e, uuid list) outcome)"
    using that
    by (force simp: expired_meetings_def outcome_simps get_meeting_def dest: filter_outcome_Ok)
  show "\<exists>ids. expired_meetings checks timeout clock m = (Ok ids :: ('e, uuid list) outcome)"
    if "unat timeout * 1000 < 2 ^ 64"
    using filter_outcome_total [of m "\<lambda>(i, v). ttl_expired checks timeout (meeting_last_access v) (clock i)"]
      ttl_expired_exact [OF that]
    by (force simp: expired_meetings_def outcome_simps)
qed

interpretation session_store: expiring_store get_session remove_session expired_sessions
  session_last_access "\<lambda>ss. distinct (map fst ss)"
proof unfold_locales
  fix checks timeout and clock :: "uuid \<Rightarrow> nat" and m :: session_manager and ids :: "uuid list" and i j
  show "get_session (remove_session i m) j = (if j = i then None else get_session m j)"
    by (simp add: get_session_def remove_session_def)
  show "distinct (map fst (remove_session i m))" if "distinct (map fst m)"
    using that by (simp add: remove_session_def distinct_delete)
  show "i \<in> set ids \<longleftrightarrow> (\<exists>v. get_session m i = Some v \<and>
      (ttl_expired checks timeout (session_last_access v) (clock i) :: ('e, bool) outcome) = Ok True)"
    if "distinct (map fst m)" "expired_sessions checks timeout clock m = (Ok ids :: ('e, uuid list) outcome)"
    using that
    by (force simp: expired_sessions_def outcome_simps get_session_def dest: filter_outcome_Ok)
  show "\<exists>ids. expired_sessions checks timeout clock m = (Ok ids :: ('e, uuid list) outcome)"
    if "unat timeout * 1000 < 2 ^ 64"
    using filter_outcome_total [of m "\<lambda>(i, v). ttl_expired checks timeout (session_last_access v) (clock i)"]
      ttl_expired_exact [OF that]
    by (force simp: expired_sessions_def outcome_simps)
qed


subsection \<open>Properties\<close>

definition register_all :: "(public_key \<times> public_key) list \<Rightarrow> session \<Rightarrow> session" where
  "register_all rs s = fold (\<lambda>(peer, other). register_connection peer other) rs s"

definition prescribed :: "session_state \<Rightarrow> (public_key \<times> public_key) list" where
  "prescribed st = concat (map (\<lambda>k. map (Pair k) (connections st k)) (all_participants st))"

lemma register_all_keys [simp]: "public_keys (register_all rs s) = public_keys s"
  unfolding register_all_def by (induction rs arbitrary: s) auto

lemma register_all_connections [simp]:
  "set (session_connections (register_all rs s)) = set rs \<union> set (session_connections s)"
  unfolding register_all_def by (induction rs arbitrary: s) auto

lemma set_drop_nth: "set (drop (i + 1) ks) = {ks ! j |j. i < j \<and> j < length ks}"
proof (intro equalityI subsetI)
  fix x assume "x \<in> set (drop (i + 1) ks)"
  then obtain n where "n < length ks - (i + 1)" "x = ks ! (i + 1 + n)"
    by (auto simp: in_set_conv_nth)
  then show "x \<in> {ks ! j |j. i < j \<and> j < length ks}"
    by (intro CollectI exI [of _ "i + 1 + n"]) simp
next
  fix x assume "x \<in> {ks ! j |j. i < j \<and> j < length ks}"
  then obtain j where j: "i < j" "j < length ks" "x = ks ! j" by auto
  then have "drop (i + 1) ks ! (j - (i + 1)) = x" "j - (i + 1) < length (drop (i + 1) ks)"
    by auto
  then show "x \<in> set (drop (i + 1) ks)" by (metis nth_mem)
qed

lemma set_prescribed:
  assumes "distinct (all_participants st)"
  shows "set (prescribed st) =
    {(all_participants st ! i, all_participants st ! j) |i j. i < j \<and> j < length (all_participants st)}"
    (is "_ = ?R")
proof -
  let ?ks = "all_participants st"
  have c: "connections st (?ks ! i) = drop (i + 1) ?ks" if "i < length ?ks" for i
    using that assms by (simp add: connections_drop position_distinct)
  have "set (prescribed st) = (\<Union>k\<in>set ?ks. Pair k ` set (connections st k))"
    by (simp add: prescribed_def)
  also have "\<dots> = ?R"
  proof (intro equalityI subsetI)
    fix p assume "p \<in> (\<Union>k\<in>set ?ks. Pair k ` set (connections st k))"
    then obtain i where "i < length ?ks" "p \<in> Pair (?ks ! i) ` set (connections st (?ks ! i))"
      by (auto simp: in_set_conv_nth [of _ ?ks])
    then show "p \<in> ?R" using c [of i] set_drop_nth [of i ?ks] by auto
  next
    fix p assume "p \<in> ?R"
    then obtain i j where "i < j" "j < length ?ks" "p = (?ks ! i, ?ks ! j)" by blast
    moreover have "?ks ! j \<in> set (connections st (?ks ! i))"
      using calculation c [of i] set_drop_nth [of i ?ks] by auto
    ultimately show "p \<in> (\<Union>k\<in>set ?ks. Pair k ` set (connections st k))" by auto
  qed
  finally show ?thesis .
qed

lemma active_iff_prescribed:
  assumes "distinct (all_participants st)" and "set (all_participants st) = set (public_keys s)"
    and "session_connections s = []" and "set reports \<subseteq> set (prescribed st)"
  shows "is_active (register_all reports s) \<longleftrightarrow> set reports = set (prescribed st)"
proof -
  let ?ks = "all_participants st"
  note P = set_prescribed [OF assms(1)]
  have inj: "m = n" if "?ks ! m = ?ks ! n" "m < length ?ks" "n < length ?ks" for m n
    using that assms(1) nth_eq_iff_index_eq by blast
  have conns: "set (session_connections (register_all reports s)) = set reports"
    using assms(3) by simp
  show ?thesis
  proof
    assume act: "is_active (register_all reports s)"
    have "(?ks ! m, ?ks ! n) \<in> set reports" if "m < n" "n < length ?ks" for m n
    proof -
      have "?ks ! m \<noteq> ?ks ! n" using inj [of m n] that by auto
      then have "(?ks ! m, ?ks ! n) \<in> set reports \<or> (?ks ! n, ?ks ! m) \<in> set reports"
        using act that unfolding is_active_complete conns register_all_keys assms(2) [symmetric] by simp
      moreover have "(?ks ! n, ?ks ! m) \<notin> set (prescribed st)"
        unfolding P using inj that by (fastforce dest: inj)
      ultimately show ?thesis using assms(4) by blast
    qed
    then show "set reports = set (prescribed st)" using assms(4) unfolding P by blast
  next
    assume all: "set reports = set (prescribed st)"
    show "is_active (register_all reports s)"
      unfolding is_active_complete conns register_all_keys all P assms(2) [symmetric]
      by (clarsimp simp: in_set_conv_nth) (metis nat_neq_iff)
  qed
qed

text \<open>
  C16: A session with no connections becomes active exactly when every connection that
  \<open>SessionState::connections\<close> prescribes to some participant has been registered, for any session
  state that lists the keys of the session once each; the prescription names each pair of
  participants once, so until the last report the session is not active. The reports considered
  are the prescribed ones, in any order and any number of times; a report in the other direction
  counts as well and is not among them.
\<close>

theorem session_active_iff_prescribed:
  assumes "distinct (all_participants st)" and "set (all_participants st) = set (public_keys s)"
    and "session_connections s = []" and "set reports \<subseteq> set (prescribed st)"
  shows "is_active (register_all reports s) \<longleftrightarrow> set reports = set (prescribed st)"
  using assms by (rule active_iff_prescribed)

lemma two_of_three: "y \<noteq> x \<Longrightarrow> y \<noteq> z \<Longrightarrow> set [x, z] \<subset> set [x, y, z]"
  by auto

theorem session_active_iff_prescribed_witness:
  "\<not> is_active (register_all [([1], [2]), ([2], [3])]
     \<lparr>owner_key = [1], session_participant_keys = [[2], [3]], session_connections = [], session_last_access = 0\<rparr>)"
proof -
  let ?s = "\<lparr>owner_key = [1], session_participant_keys = [[2], [3]], session_connections = [],
    session_last_access = 0\<rparr>"
  let ?st = "\<lparr>session_id = [], all_participants = [[1], [2], [3]]\<rparr>"
  have "prescribed ?st = [([1], [2]), ([1], [3]), ([2], [3])]"
    by (simp add: prescribed_def connections_def)
  then have sub: "set [([1], [2]), ([2], [3])] \<subset> set (prescribed ?st)"
    by (simp only:) (rule two_of_three, simp_all)
  have "distinct (all_participants ?st)" "set (all_participants ?st) = set (public_keys ?s)"
    "session_connections ?s = []"
    by (auto simp: public_keys_def)
  from session_active_iff_prescribed [OF this] sub show ?thesis by blast
qed

text \<open>
  A reported connection with a key that is not a participant never changes whether the
  session is active, and no report makes an active session inactive.
\<close>

lemma connection_reports_monotone:
  "(is_active s \<longrightarrow> is_active (register_connection peer other s)) \<and>
   (peer \<notin> set (public_keys s) \<or> other \<notin> set (public_keys s) \<longrightarrow>
     is_active (register_connection peer other s) = is_active s)"
  using is_active_register_mono is_active_register_outsider by blast

definition join_all :: "(user_id \<times> public_key \<times> nat) list \<Rightarrow> meeting \<Rightarrow> meeting" where
  "join_all js m = fold (\<lambda>(user, key, now). meeting_join now user key) js m"

lemma map_of_join_all:
  "map_of (slots (join_all js m)) u =
     (case map_of (rev js) u of Some (key, _) \<Rightarrow> Some (Some key) | None \<Rightarrow> map_of (slots m) u)"
  unfolding join_all_def
  by (induction js arbitrary: m) (auto simp: map_add_def split: option.splits)

lemma distinct_join_all:
  "distinct (map fst (slots m)) \<Longrightarrow> distinct (map fst (slots (join_all js m)))"
  unfolding join_all_def by (induction js arbitrary: m) (auto intro: distinct_slots_join)

lemma map_of_rev_None: "map_of (rev js) u = None \<longleftrightarrow> u \<notin> fst ` set js"
  by (simp add: map_of_eq_None_iff)

text \<open>
  C30: A new meeting point with the owner joined and any sequence of joins after it is full exactly
  when every invited user other than the owner has joined; each slot then holds the key of the
  last join for that user, and users that were not invited (the owner among them) get a slot too.
\<close>

theorem meeting_fills:
  assumes "distinct users"
  shows "\<exists>m. get_meeting (new_meeting now new_id owner owner_id users ms) new_id = Some m \<and>
    (is_full (join_all js m) \<longleftrightarrow> set users \<subseteq> insert owner_id (fst ` set js)) \<and>
    (\<forall>u. map_of (slots (join_all js m)) u =
       (case map_of (rev js) u of
          Some (key, _) \<Rightarrow> Some (Some key)
        | None \<Rightarrow> if u = owner_id then Some (Some owner)
                  else if u \<in> set users then Some None else None))"
proof -
  let ?m = "meeting_join now owner_id owner \<lparr>slots = map (\<lambda>u. (u, None)) users, meeting_last_access = now\<rparr>"
  have d: "distinct (map fst (slots (join_all js ?m)))"
    using assms by (intro distinct_join_all distinct_slots_join) (simp add: comp_def)
  have s: "map_of (slots (join_all js ?m)) u =
       (case map_of (rev js) u of
          Some (key, _) \<Rightarrow> Some (Some key)
        | None \<Rightarrow> if u = owner_id then Some (Some owner)
                  else if u \<in> set users then Some None else None)" for u
    by (simp add: map_of_join_all map_of_None_slots split: option.splits)
  have "is_full (join_all js ?m) \<longleftrightarrow> set users \<subseteq> insert owner_id (fst ` set js)"
  proof -
    have "is_full (join_all js ?m) \<longleftrightarrow> (\<forall>u. map_of (slots (join_all js ?m)) u \<noteq> Some None)"
      by (rule is_full_iff [OF d])
    also have "\<dots> \<longleftrightarrow> (\<forall>u. \<not> (u \<notin> fst ` set js \<and> u \<noteq> owner_id \<and> u \<in> set users))"
      unfolding s map_of_rev_None [symmetric]
      by (intro arg_cong [of _ _ All] ext) (simp split: option.splits)
    finally show ?thesis by blast
  qed
  then show ?thesis
    using s by (intro exI [of _ ?m]) (simp add: get_meeting_def new_meeting_def)
qed

theorem meeting_fills_witness:
  "\<exists>m. get_meeting (new_meeting 0 [7] [1] [10] [[10], [20]] []) [7] = Some m \<and>
     \<not> is_full m \<and> is_full (join_all [([20], [2], 5)] m)"
  using meeting_fills [of "[[10], [20]]" 0 "[7]" "[1]" "[10]" "[]" "[]"]
    meeting_fills [of "[[10], [20]]" 0 "[7]" "[1]" "[10]" "[]" "[([20], [2], 5)]"]
  by (auto simp: join_all_def)

end
