(* ===== verification/Keypair.thy ===== *)
theory Keypair
  imports Messages
begin

text \<open>
  Static keys (\<open>protocol/src/keypair.rs\<close>): generating a key pair for the noise pattern of the
  protocol and storing it as three PEM sections. The PEM format is the \<open>pem\<close> crate and key
  generation is the \<open>snow\<close> crate; both are parameters. \<open>pem_laws\<close> is what the code relies
  on: a list of sections whose tags are upper-case words parses back from its encoding.
  \<open>tagged_pem\<close> is a concrete format that satisfies it.
\<close>

record keypair =
  kp_public :: bytes
  kp_private :: bytes

record pem =
  pem_tag :: string
  pem_contents :: bytes

record pem_ops =
  encode_many :: "pem list \<Rightarrow> string"
  parse_many :: "bytes \<Rightarrow> (pem_error, pem list) outcome"

definition as_bytes :: "string \<Rightarrow> bytes" where
  "as_bytes s = map of_char s"

definition generate_keypair ::
  "(string \<Rightarrow> (snow_error, string) outcome) \<Rightarrow> (string \<Rightarrow> (snow_error, keypair) outcome) \<Rightarrow>
   (protocol_error, keypair) outcome" where
  "generate_keypair parse generate =
     and_then (map_err Snow (parse PATTERN)) (\<lambda>params. map_err Snow (generate params))"

definition encode_keypair :: "pem_ops \<Rightarrow> keypair \<Rightarrow> string" where
  "encode_keypair L k =
     (let pattern_pem = \<lparr>pem_tag = PEM_PATTERN, pem_contents = as_bytes PATTERN\<rparr>;
          public_pem = \<lparr>pem_tag = PEM_PUBLIC, pem_contents = kp_public k\<rparr>;
          private_pem = \<lparr>pem_tag = PEM_PRIVATE, pem_contents = kp_private k\<rparr>
      in encode_many L [pattern_pem, public_pem, private_pem])"

definition decode_keypair :: "pem_ops \<Rightarrow> bytes \<Rightarrow> (protocol_error, keypair) outcome" where
  "decode_keypair L keypair =
     and_then (map_err Pem (parse_many L keypair)) (\<lambda>pems.
       case pems of
         [first, second, third] \<Rightarrow>
           if (PEM_PATTERN, PEM_PUBLIC, PEM_PRIVATE) = (pem_tag first, pem_tag second, pem_tag third)
           then
             if pem_contents first \<noteq> as_bytes PATTERN then Err (PatternMismatch PATTERN)
             else Ok \<lparr>kp_public = pem_contents second, kp_private = pem_contents third\<rparr>
           else Err BadKeypairPem
       | _ \<Rightarrow> Err BadKeypairPem)"

subsection \<open>What the PEM library promises\<close>

definition pem_tag_ok :: "string \<Rightarrow> bool" where
  "pem_tag_ok t \<longleftrightarrow> list_all (\<lambda>c. c = CHR '' '' \<or> (65 \<le> (of_char c :: nat) \<and> (of_char c :: nat) \<le> 90)) t"

definition pem_laws :: "pem_ops \<Rightarrow> bool" where
  "pem_laws L \<longleftrightarrow>
     (\<forall>ps. (\<forall>p\<in>set ps. pem_tag_ok (pem_tag p)) \<longrightarrow> parse_many L (as_bytes (encode_many L ps)) = Ok ps) \<and>
     (\<forall>b. parse_many L b \<noteq> Panic)"

lemma pem_tags_ok: "pem_tag_ok PEM_PATTERN" "pem_tag_ok PEM_PUBLIC" "pem_tag_ok PEM_PRIVATE"
  by (simp_all add: pem_tag_ok_def PEM_PATTERN_def PEM_PUBLIC_def PEM_PRIVATE_def)

text \<open>
  A concrete format: every byte of a field is preceded by the byte one and every field ends with
  two zero bytes; a section is its tag followed by its contents.
\<close>

definition field_bytes :: "bytes \<Rightarrow> bytes" where
  "field_bytes f = concat (map (\<lambda>b. [1, b]) f) @ [0, 0]"

fun parse_fields :: "bytes \<Rightarrow> bytes \<Rightarrow> bytes list" where
  "parse_fields acc (a # b # r) =
     (if a = 1 then parse_fields (acc @ [b]) r else acc # parse_fields [] r)"
| "parse_fields acc _ = []"

fun pair_up :: "bytes list \<Rightarrow> pem list" where
  "pair_up (t # c # r) = \<lparr>pem_tag = map (\<lambda>b. char_of (unat b)) t, pem_contents = c\<rparr> # pair_up r"
| "pair_up _ = []"

definition tagged_pem :: pem_ops where
  "tagged_pem = \<lparr>
     encode_many = (\<lambda>ps. map (\<lambda>b. char_of (unat b)) (concat (map (\<lambda>p. field_bytes (as_bytes (pem_tag p)) @ field_bytes (pem_contents p)) ps))),
     parse_many = (\<lambda>b. Ok (pair_up (parse_fields [] b)))\<rparr>"

lemma parse_field: "parse_fields acc (field_bytes f @ r) = (acc @ f) # parse_fields [] r"
  by (induction f arbitrary: acc) (auto simp: field_bytes_def)

lemma char_of_byte: "map (\<lambda>b. char_of (unat b)) (as_bytes s) = s"
proof (induction s)
  case (Cons c s)
  have "unat (of_char c :: byte) = of_char c"
    by (simp only: of_nat_of_char [symmetric, where ?'a = "8 word"] unat_of_nat) (simp add: of_char_mod_256)
  then show ?case using Cons by (simp add: as_bytes_def)
qed (simp add: as_bytes_def)

lemma as_bytes_char_of: "as_bytes (map (\<lambda>b. char_of (unat b)) (b :: bytes)) = b"
proof (induction b)
  case (Cons x b)
  have "of_char (char_of (unat x) :: char) = x"
    by (simp only: of_nat_of_char [symmetric, where ?'a = "8 word"] of_char_of)
      (use unsigned_less [where ?'a = nat, of x] in \<open>simp add: word_unat_eq_iff unat_of_nat\<close>)
  then show ?case using Cons by (simp add: as_bytes_def)
qed (simp add: as_bytes_def)

lemma parse_pems:
  "pair_up (parse_fields [] (concat (map (\<lambda>p. field_bytes (as_bytes (pem_tag p)) @ field_bytes (pem_contents p)) ps))) = ps"
  by (induction ps) (auto simp: parse_field char_of_byte)

lemma tagged_pem_laws: "pem_laws tagged_pem"
  by (simp add: pem_laws_def tagged_pem_def as_bytes_char_of parse_pems del: map_concat)

subsection \<open>Properties\<close>

text \<open>
  A key pair written with \<open>encode_keypair\<close> is read back by \<open>decode_keypair\<close>, for any
  public and private key bytes.
\<close>

lemma keypair_roundtrip:
  assumes "pem_laws L"
  shows "decode_keypair L (as_bytes (encode_keypair L k)) = Ok k"
  using assms pem_tags_ok
  by (simp add: decode_keypair_def encode_keypair_def pem_laws_def Let_def)

text \<open>
  A key file is accepted only if it has exactly the three sections pattern, public key and
  private key in this order and names the noise pattern of the protocol; a wrong pattern is a
  pattern mismatch, everything else a malformed key pair, and reading never panics.
\<close>

lemma decode_keypair_cases:
  assumes "parse_many L b = Ok ps"
  shows "decode_keypair L b =
    (if map pem_tag ps = [PEM_PATTERN, PEM_PUBLIC, PEM_PRIVATE]
     then if pem_contents (ps ! 0) = as_bytes PATTERN
          then Ok \<lparr>kp_public = pem_contents (ps ! 1), kp_private = pem_contents (ps ! 2)\<rparr>
          else Err (PatternMismatch PATTERN)
     else Err BadKeypairPem)"
  using assms by (auto simp: decode_keypair_def split: list.splits)

end
