(* ===== verification/Server_Config.thy ===== *)
theory Server_Config
  imports Keypair
begin

text \<open>
  Errors and configuration of the relay server (\<open>server/src/error.rs\<close>,
  \<open>server/src/config.rs\<close>) and the command that starts it (\<open>src/commands/server.rs\<close>).

  The file system, the paths of the platform and the TOML parser are the record \<open>host_ops\<close>, a
  parameter of \<open>ServerConfig_load\<close>. \<open>AccessKey\<close> has one field, so an access list is a list of
  public keys; an empty string is the default path.
\<close>

datatype toml_error = TomlError

datatype server_error =
    NotFile string
  | PermissionDenied
  | KeyFileRequired
  | KeyNotFound string
  | PeerAlreadyExists
  | Server_PeerNotFound string
  | NoParentDir
  | Server_NotHandshakeState
  | MeetingNotFound meeting_id
  | MeetingFull meeting_id
  | SessionNotFound session_id
  | NotSessionParticipant session_id string
  | SessionTimeoutConfig
  | SessionWaitConfig
  | Server_Io io_error
  | Server_Protocol protocol_error
  | Server_Axum
  | Server_Snow snow_error
  | Server_Toml toml_error
  | Server_HeaderValue
  | BufferMpscSend
  | MessageMpscSend

record tls_config =
  tls_cert :: string
  tls_key :: string

record session_config =
  cfg_timeout :: u64
  cfg_interval :: u64
  cfg_wait_interval :: u64
  cfg_wait_timeout :: u64

definition SessionConfig_default :: session_config where
  "SessionConfig_default =
     \<lparr>cfg_timeout = 300, cfg_interval = 900, cfg_wait_interval = 15, cfg_wait_timeout = 300\<rparr>"

record server_config =
  cfg_key :: string
  cfg_pattern :: "string option"
  cfg_session :: session_config
  cfg_tls :: "tls_config option"
  cfg_allow :: "bytes list option"
  cfg_deny :: "bytes list option"

subsection \<open>Access lists\<close>

definition is_allowed_access :: "server_config \<Rightarrow> bytes \<Rightarrow> bool" where
  "is_allowed_access config key =
     (if (case cfg_deny config of Some deny \<Rightarrow> list_ex (\<lambda>k. k = key) deny | None \<Rightarrow> False) then False
      else case cfg_allow config of
        Some allow \<Rightarrow> list_ex (\<lambda>k. k = key) allow
      | None \<Rightarrow> True)"

subsection \<open>Loading\<close>

record host_ops =
  try_exists :: "string \<Rightarrow> (io_error, bool) outcome"
  read_to_string :: "string \<Rightarrow> (io_error, string) outcome"
  canonicalize :: "string \<Rightarrow> (io_error, string) outcome"
  path_parent :: "string \<Rightarrow> string option"
  path_join :: "string \<Rightarrow> string \<Rightarrow> string"
  is_relative :: "string \<Rightarrow> bool"
  toml_from_str :: "string \<Rightarrow> (toml_error, server_config) outcome"

definition directory :: "host_ops \<Rightarrow> string \<Rightarrow> (server_error, string) outcome" where
  "directory H file = ok_or NoParentDir (path_parent H file)"

definition resolve :: "host_ops \<Rightarrow> string \<Rightarrow> string \<Rightarrow> (server_error, string) outcome" where
  "resolve H dir p =
     (if is_relative H p then map_err Server_Io (canonicalize H (path_join H dir p)) else Ok p)"

definition ServerConfig_load ::
  "host_ops \<Rightarrow> pem_ops \<Rightarrow> string \<Rightarrow> (server_error, server_config \<times> keypair) outcome" where
  "ServerConfig_load H L path =
     and_then (map_err Server_Io (try_exists H path)) (\<lambda>exists.
     if \<not> exists then Err (NotFile path) else
     and_then (map_err Server_Io (read_to_string H path)) (\<lambda>contents.
     and_then (map_err Server_Toml (toml_from_str H contents)) (\<lambda>config.
     if cfg_interval (cfg_session config) \<le> cfg_timeout (cfg_session config)
     then Err SessionTimeoutConfig else
     if cfg_wait_timeout (cfg_session config) \<le> cfg_wait_interval (cfg_session config)
     then Err SessionWaitConfig else
     if cfg_key config = [] then Err KeyFileRequired else
     and_then (directory H path) (\<lambda>dir.
     and_then (resolve H dir (cfg_key config)) (\<lambda>key.
     let config = config\<lparr>cfg_key := key\<rparr> in
     and_then (map_err Server_Io (try_exists H key)) (\<lambda>exists.
     if \<not> exists then Err (KeyNotFound key) else
     and_then (map_err Server_Io (read_to_string H key)) (\<lambda>contents.
     and_then (map_err Server_Protocol (decode_keypair L (as_bytes contents))) (\<lambda>keypair.
     case cfg_tls config of
       Some tls \<Rightarrow>
         and_then (resolve H dir (tls_cert tls)) (\<lambda>cert.
         and_then (resolve H dir (tls_key tls)) (\<lambda>tkey.
           Ok (config\<lparr>cfg_tls := Some \<lparr>tls_cert = cert, tls_key = tkey\<rparr>\<rparr>, keypair)))
     | None \<Rightarrow> Ok (config, keypair)))))))))"

text \<open>
  The \<open>server\<close> command: the options of the command line replace two values of the loaded
  configuration.
\<close>

definition server_command_config ::
  "u64 option \<Rightarrow> u64 option \<Rightarrow> server_config \<Rightarrow> server_config" where
  "server_command_config interval session_timeout config =
     (let config = (case interval of
            Some i \<Rightarrow> config\<lparr>cfg_session := (cfg_session config)\<lparr>cfg_interval := i\<rparr>\<rparr>
          | None \<Rightarrow> config)
      in case session_timeout of
           Some t \<Rightarrow> config\<lparr>cfg_session := (cfg_session config)\<lparr>cfg_timeout := t\<rparr>\<rparr>
         | None \<Rightarrow> config)"

subsection \<open>Properties\<close>

text \<open>
  The access lists: a denied key is always refused, even if it is allowed as well; without an
  allow list every other key is accepted, and with one exactly the keys on it.
\<close>

lemma access_lists:
  "is_allowed_access config key \<longleftrightarrow>
     (\<forall>deny. cfg_deny config = Some deny \<longrightarrow> key \<notin> set deny) \<and>
     (\<forall>allow. cfg_allow config = Some allow \<longrightarrow> key \<in> set allow)"
  by (auto simp: is_allowed_access_def list_ex_iff split: option.splits)

definition open_config :: server_config where
  "open_config = \<lparr>cfg_key = ''server.pem'', cfg_pattern = None, cfg_session = SessionConfig_default,
     cfg_tls = None, cfg_allow = None, cfg_deny = None\<rparr>"

text \<open>
  What a configuration satisfies that \<open>ServerConfig::load\<close> returns. The first check is the opposite of
  what its error says: a timeout that is greater than the interval is refused.
\<close>

lemma loaded_config_valid:
  assumes "ServerConfig_load H L path = Ok (config, k)"
  shows "cfg_timeout (cfg_session config) < cfg_interval (cfg_session config) \<and>
    cfg_wait_interval (cfg_session config) < cfg_wait_timeout (cfg_session config) \<and>
    try_exists H (cfg_key config) = Ok True \<and>
    (\<exists>contents. read_to_string H (cfg_key config) = Ok contents \<and> decode_keypair L (as_bytes contents) = Ok k)"
  using assms
  by (auto simp: ServerConfig_load_def Let_def outcome_simps not_le split: if_splits option.splits)

definition sample_host :: host_ops where
  "sample_host = \<lparr>
     try_exists = (\<lambda>p. Ok (p \<in> {''relay.toml'', ''/srv/server.pem''})),
     read_to_string = (\<lambda>p. if p = ''relay.toml'' then Ok ''key''
        else Ok (encode_keypair tagged_pem \<lparr>kp_public = [1], kp_private = [2]\<rparr>)),
     canonicalize = Ok, path_parent = (\<lambda>_. Some ''/srv''),
     path_join = (\<lambda>a b. a @ ''/'' @ b), is_relative = (\<lambda>p. take 1 p \<noteq> ''/''),
     toml_from_str = (\<lambda>_. Ok open_config)\<rparr>"

lemma sample_load:
  "ServerConfig_load sample_host tagged_pem ''relay.toml'' =
   Ok (open_config\<lparr>cfg_key := ''/srv/server.pem''\<rparr>, \<lparr>kp_public = [1], kp_private = [2]\<rparr>)"
proof -
  have "decode_keypair tagged_pem (as_bytes (encode_keypair tagged_pem \<lparr>kp_public = [1], kp_private = [2]\<rparr>)) =
      Ok \<lparr>kp_public = [1], kp_private = [2]\<rparr>"
    using tagged_pem_laws pem_tags_ok
    by (simp add: decode_keypair_def encode_keypair_def pem_laws_def Let_def)
  then show ?thesis
    by (simp add: ServerConfig_load_def sample_host_def directory_def resolve_def open_config_def
        SessionConfig_default_def Let_def)
qed

text \<open>
  The checks of \<open>ServerConfig::load\<close> do not cover the options of the command line, which are
  applied afterwards: the server can be started with an interval it would refuse in the file.
\<close>

lemma command_line_unchecked:
  "\<exists>H L path config k i. ServerConfig_load H L path = Ok (config, k) \<and>
     cfg_interval (cfg_session (server_command_config (Some i) None config)) \<le>
     cfg_timeout (cfg_session (server_command_config (Some i) None config))"
proof -
  let ?c = "open_config\<lparr>cfg_key := ''/srv/server.pem''\<rparr>"
  have "cfg_interval (cfg_session (server_command_config (Some 0) None ?c)) \<le>
     cfg_timeout (cfg_session (server_command_config (Some 0) None ?c))"
    by (simp add: server_command_config_def Let_def)
  then show ?thesis using sample_load by blast
qed

text \<open>
  The checks accept a wait interval of zero, a period that the timer of a waiting task refuses: the
  tasks that announce ready and active sessions would then end at once.
\<close>

lemma zero_wait_interval_accepted:
  "\<exists>H L path config k. ServerConfig_load H L path = Ok (config, k) \<and> cfg_wait_interval (cfg_session config) = 0"
proof -
  let ?c = "open_config\<lparr>cfg_session := SessionConfig_default\<lparr>cfg_wait_interval := 0\<rparr>\<rparr>"
  let ?k = "\<lparr>kp_public = [1], kp_private = [2]\<rparr>"
  have "ServerConfig_load (sample_host\<lparr>toml_from_str := (\<lambda>_. Ok ?c)\<rparr>) tagged_pem ''relay.toml'' =
      Ok (?c\<lparr>cfg_key := ''/srv/server.pem''\<rparr>, ?k)"
    using keypair_roundtrip [OF tagged_pem_laws, of ?k]
    by (simp add: ServerConfig_load_def sample_host_def directory_def resolve_def open_config_def
        SessionConfig_default_def Let_def)
  then show ?thesis by fastforce
qed

end
