(* ===== verification/Relay_Server.thy ===== *)
theory Relay_Server
  imports Encoding Noise_Channel Sessions Server_Config
begin

text \<open>
  The relay server: the handlers of \<open>server/src/service.rs\<close>, the websocket connections of
  \<open>server/src/websocket.rs\<close> and the reaper of \<open>server/src/server.rs\<close>, as functions on an
  explicit server state.

  A connection is shared (\<open>Arc<RwLock<WebSocketConnection>>\<close>) between its socket tasks, the maps
  \<open>pending\<close> and \<open>active\<close> and the waiting tasks, so connections live in a store \<open>conns\<close> and are
  passed by reference, a number. A queue of a channel is the list of what was sent and not yet
  received; sending fails exactly when the receiver is gone. A handler runs to its end: the
  operations of other tasks happen before or after it, and a full queue (32 messages) only delays.

  Compression is the \<open>flate2\<close> crate, hexadecimal text the \<open>hex\<close> crate and the text of an error
  \<open>thiserror\<close>: fields of the record \<open>env\<close> beside the byte stream and the noise operations.
  The time and the random identifiers a handler asks for are arguments.
\<close>

subsection \<open>State\<close>

datatype ws_message =
    WsText string
  | WsBinary bytes
  | WsPing bytes
  | WsPong bytes
  | WsClose "bytes option"

record ('h, 't) env =
  stream :: codec_ops
  snow :: "('h, 't) snow_ops"
  zlib_encode :: "bytes \<Rightarrow> (io_error, bytes) outcome"
  zlib_decode :: "bytes \<Rightarrow> (io_error, bytes) outcome"
  hex_encode :: "bytes \<Rightarrow> string"
  display :: "server_error \<Rightarrow> string"
  overflow_checks :: bool

type_synonym conn_ref = nat

record ('h, 't) connection =
  conn_id :: uuid
  conn_key :: bytes
  outgoing :: "ws_message list"
  outgoing_open :: bool
  incoming :: "bytes list"
  incoming_open :: bool
  conn_state :: "('h, 't) protocol_state option"

datatype wait_task =
    WaitMeetingReady u64 conn_ref nat meeting_state
  | WaitSessionReady u64 conn_ref nat session_state
  | WaitSessionActive u64 conn_ref nat session_state

record ('h, 't) server_state =
  srv_keypair :: keypair
  srv_config :: server_config
  pending :: "uuid \<rightharpoonup> conn_ref"
  active :: "bytes \<rightharpoonup> conn_ref"
  meetings :: meeting_manager
  sessions :: session_manager
  conns :: "conn_ref \<Rightarrow> ('h, 't) connection"
  next_conn :: conn_ref
  tasks :: "wait_task list"

type_synonym ('h, 't, 'a) handled = "('h, 't) server_state \<times> (server_error, 'a) outcome"

definition no_connection :: "('h, 't) connection" where
  "no_connection = \<lparr>conn_id = [], conn_key = [], outgoing = [], outgoing_open = False,
     incoming = [], incoming_open = False, conn_state = None\<rparr>"

definition RelayServer_new :: "server_config \<Rightarrow> keypair \<Rightarrow> ('h, 't) server_state" where
  "RelayServer_new config k = \<lparr>srv_keypair = k, srv_config = config, pending = Map.empty,
     active = Map.empty, meetings = [], sessions = [], conns = (\<lambda>_. no_connection), next_conn = 0,
     tasks = []\<rparr>"

definition update_conn ::
  "conn_ref \<Rightarrow> (('h, 't) connection \<Rightarrow> ('h, 't) connection) \<Rightarrow> ('h, 't) server_state \<Rightarrow> ('h, 't) server_state" where
  "update_conn c f s = s\<lparr>conns := (conns s)(c := f (conns s c))\<rparr>"

definition set_state ::
  "conn_ref \<Rightarrow> ('h, 't) protocol_state option \<Rightarrow> ('h, 't) server_state \<Rightarrow> ('h, 't) server_state" where
  "set_state c p = update_conn c (\<lambda>conn. conn\<lparr>conn_state := p\<rparr>)"

subsection \<open>Sending\<close>

definition deflate :: "('h, 't) env \<Rightarrow> bytes \<Rightarrow> (protocol_error, bytes) outcome" where
  "deflate E packet = map_err Io (zlib_encode E packet)"

definition inflate :: "('h, 't) env \<Rightarrow> bytes \<Rightarrow> (protocol_error, bytes) outcome" where
  "inflate E packet = map_err Io (zlib_decode E packet)"

definition outgoing_send :: "conn_ref \<Rightarrow> ws_message \<Rightarrow> ('h, 't) server_state \<Rightarrow> ('h, 't, unit) handled" where
  "outgoing_send c m s =
     (if outgoing_open (conns s c)
      then (update_conn c (\<lambda>conn. conn\<lparr>outgoing := outgoing conn @ [m]\<rparr>) s, Ok ())
      else (s, Err MessageMpscSend))"

definition conn_send :: "('h, 't) env \<Rightarrow> conn_ref \<Rightarrow> bytes \<Rightarrow> ('h, 't) server_state \<Rightarrow> ('h, 't, unit) handled" where
  "conn_send E c buffer s =
     st_then (s, map_err Server_Protocol (deflate E buffer))
       (\<lambda>s deflated. outgoing_send c (WsBinary deflated) s) id"

definition send_response ::
  "('h, 't) env \<Rightarrow> conn_ref \<Rightarrow> response_message \<Rightarrow> ('h, 't) server_state \<Rightarrow> ('h, 't, unit) handled" where
  "send_response E c response s =
     st_then (s, map_err Server_Io (encode ResponseMessage_encode (stream E) response))
       (\<lambda>s buffer. conn_send E c buffer s) id"

text \<open>\<open>send_message\<close>: encrypt for the connection and send; \<open>state.as_mut().unwrap()\<close> may panic.\<close>

definition send_message ::
  "('h, 't) env \<Rightarrow> conn_ref \<Rightarrow> server_message \<Rightarrow> bool \<Rightarrow> ('h, 't) server_state \<Rightarrow> ('h, 't, unit) handled" where
  "send_message E c message broadcast s =
     st_then (s, map_err Server_Io (encode ServerMessage_encode (stream E) message)) (\<lambda>s payload.
       case conn_state (conns s c) of
         None \<Rightarrow> (s, Panic)
       | Some p \<Rightarrow>
           st_then (apsnd (map_err Server_Protocol) (encrypt_server_channel (snow E) p payload broadcast))
             (\<lambda>p envelope.
               send_response E c (Response_Opaque (Opaque_ServerMessage envelope)) (set_state c (Some p) s))
             (\<lambda>p. set_state c (Some p) s)) id"

fun notify_each ::
  "('h, 't) env \<Rightarrow> bytes list \<Rightarrow> server_message \<Rightarrow> ('h, 't) server_state \<Rightarrow> ('h, 't, unit) handled" where
  "notify_each E [] message s = (s, Ok ())"
| "notify_each E (key # keys) message s =
     (case active s key of
        Some c \<Rightarrow> st_then (send_message E c message True s) (\<lambda>s _. notify_each E keys message s) id
      | None \<Rightarrow> notify_each E keys message s)"

definition notify_peers ::
  "('h, 't) env \<Rightarrow> bytes list \<Rightarrow> server_message \<Rightarrow> ('h, 't) server_state \<Rightarrow> ('h, 't, unit) handled" where
  "notify_peers E keys message s = notify_each E keys message s"

definition notify_meeting_ready ::
  "('h, 't) env \<Rightarrow> meeting_state \<Rightarrow> ('h, 't) server_state \<Rightarrow> ('h, 't, unit) handled" where
  "notify_meeting_ready E m s = notify_peers E (registered_participants m) (MeetingReady m) s"

definition notify_session_ready ::
  "('h, 't) env \<Rightarrow> session_state \<Rightarrow> ('h, 't) server_state \<Rightarrow> ('h, 't, unit) handled" where
  "notify_session_ready E x s = notify_peers E (all_participants x) (SessionReady x) s"

definition notify_session_active ::
  "('h, 't) env \<Rightarrow> session_state \<Rightarrow> ('h, 't) server_state \<Rightarrow> ('h, 't, unit) handled" where
  "notify_session_active E x s = notify_peers E (all_participants x) (SessionActive x) s"

definition notify_session_timeout ::
  "('h, 't) env \<Rightarrow> session_state \<Rightarrow> ('h, 't) server_state \<Rightarrow> ('h, 't, unit) handled" where
  "notify_session_timeout E x s = notify_peers E (all_participants x) (SessionTimeout (session_id x)) s"

text \<open>\<open>handle_error\<close>: over the encrypted channel once it exists, in the clear before.\<close>

definition INTERNAL_SERVER_ERROR :: status_code where
  "INTERNAL_SERVER_ERROR = 500"

definition handle_error ::
  "('h, 't) env \<Rightarrow> conn_ref \<Rightarrow> server_error \<Rightarrow> ('h, 't) server_state \<Rightarrow> ('h, 't, unit) handled" where
  "handle_error E c e s =
     (case conn_state (conns s c) of
        Some (Transport _) \<Rightarrow> send_message E c (Server_Error INTERNAL_SERVER_ERROR (display E e)) False s
      | _ \<Rightarrow> send_response E c (Response_Transparent (Transparent_Error INTERNAL_SERVER_ERROR (display E e))) s)"

subsection \<open>Connections\<close>

definition promote_connection :: "conn_ref \<Rightarrow> ('h, 't) server_state \<Rightarrow> ('h, 't) server_state" where
  "promote_connection c s =
     s\<lparr>pending := (pending s)(conn_id (conns s c) := None),
       active := (active s)(conn_key (conns s c) \<mapsto> c)\<rparr>"

definition disconnect :: "conn_ref \<Rightarrow> ('h, 't) server_state \<Rightarrow> ('h, 't) server_state" where
  "disconnect c s =
     s\<lparr>pending := (pending s)(conn_id (conns s c) := None),
       active := (active s)(conn_key (conns s c) := None)\<rparr>"

definition FORBIDDEN :: status_code where
  "FORBIDDEN = 403"

text \<open>
  \<open>upgrade\<close>: the new identifier and the randomness of the handshake are arguments. The socket
  tasks start with both channels open.
\<close>

definition upgrade ::
  "('h, 't) env \<Rightarrow> uuid \<Rightarrow> nat \<Rightarrow> bytes \<Rightarrow> ('h, 't) server_state \<Rightarrow>
   ('h, 't) server_state \<times> (status_code, conn_ref) outcome" where
  "upgrade E new_id random key s =
     (if (cfg_allow (srv_config s) \<noteq> None \<or> cfg_deny (srv_config s) \<noteq> None) \<and>
         \<not> is_allowed_access (srv_config s) key
      then (s, Err FORBIDDEN)
      else
        let pattern = (case cfg_pattern (srv_config s) of Some p \<Rightarrow> p | None \<Rightarrow> PATTERN) in
        st_then (s, map_err (\<lambda>_. INTERNAL_SERVER_ERROR) (parse_params (snow E) pattern)) (\<lambda>s params.
        st_then (s, map_err (\<lambda>_. INTERNAL_SERVER_ERROR)
            (build_responder (snow E) random params (kp_private (srv_keypair s)) key)) (\<lambda>s responder.
          let c = next_conn s;
              conn = \<lparr>conn_id = new_id, conn_key = key, outgoing = [], outgoing_open = True,
                incoming = [], incoming_open = True, conn_state = Some (Handshake responder)\<rparr>
          in (s\<lparr>conns := (conns s)(c := conn), next_conn := Suc c, pending := (pending s)(new_id \<mapsto> c)\<rparr>, Ok c))
          id) id)"

subsection \<open>Meeting and session requests\<close>

definition service ::
  "nat \<Rightarrow> uuid \<Rightarrow> conn_ref \<Rightarrow> bytes \<Rightarrow> server_message \<Rightarrow> ('h, 't) server_state \<Rightarrow>
   ('h, 't, server_message option) handled" where
  "service now new_id c key message s =
     (case message of
        NewMeeting owner_id users \<Rightarrow>
          let s = s\<lparr>meetings := new_meeting now new_id key owner_id users (meetings s)\<rparr>;
              wait_interval = cfg_wait_interval (cfg_session (srv_config s));
              response = \<lparr>meeting_id = new_id, registered_participants = [key]\<rparr>;
              s = s\<lparr>tasks := tasks s @ [WaitMeetingReady wait_interval c now response]\<rparr>
          in (s, Ok (Some (MeetingCreated response)))
      | JoinMeeting mid uid \<Rightarrow>
          (case get_meeting (meetings s) mid of
             Some m \<Rightarrow>
               if is_full m then (s, Err (MeetingFull mid))
               else (s\<lparr>meetings := AList.update mid (meeting_join now uid (conn_key (conns s c)) m) (meetings s)\<rparr>,
                     Ok None)
           | None \<Rightarrow> (s, Err (MeetingNotFound mid)))
      | NewSession request \<Rightarrow>
          let all = key # participant_keys request;
              s = s\<lparr>sessions := new_session now new_id key (participant_keys request) (sessions s)\<rparr>;
              wait_interval = cfg_wait_interval (cfg_session (srv_config s));
              response = \<lparr>session_id = new_id, all_participants = all\<rparr>;
              s = s\<lparr>tasks := tasks s @ [WaitSessionReady wait_interval c now response]\<rparr>
          in (s, Ok (Some (SessionCreated response)))
      | SessionConnection sid peer \<Rightarrow>
          (case get_session (sessions s) sid of
             Some x \<Rightarrow>
               (s\<lparr>sessions := AList.update sid (register_connection (conn_key (conns s c)) peer x) (sessions s)\<rparr>,
                Ok None)
           | None \<Rightarrow> (s, Err (SessionNotFound sid)))
      | CloseSession sid \<Rightarrow>
          (case get_session (sessions s) sid of
             Some x \<Rightarrow>
               if key \<noteq> owner_key x then (s, Err PermissionDenied)
               else (s\<lparr>sessions := remove_session sid (sessions s)\<rparr>, Ok (Some (SessionFinished sid)))
           | None \<Rightarrow> (s, Err (SessionNotFound sid)))
      | _ \<Rightarrow> (s, Ok None))"

subsection \<open>Requests\<close>

text \<open>
  The server side of the noise handshake: read the first message, reply, change to transport mode
  and become active. \<open>&buf[..len]\<close> panics when the declared length exceeds the buffer, and the
  state is taken out before \<open>into_transport_mode\<close>, so a failure there leaves none.
\<close>

definition server_handshake ::
  "('h, 't) env \<Rightarrow> conn_ref \<Rightarrow> nat \<Rightarrow> bytes \<Rightarrow> ('h, 't) server_state \<Rightarrow> ('h, 't, unit) handled" where
  "server_handshake E c len buf s =
     (case conn_state (conns s c) of
        Some (Handshake responder) \<Rightarrow>
          if len > length buf then (s, Panic)
          else
            st_then (apsnd (map_err Server_Snow) (handshake_read (snow E) responder (take len buf) 1024))
              (\<lambda>responder _.
                st_then (apsnd (map_err Server_Snow) (handshake_write (snow E) responder [] 1024))
                  (\<lambda>responder reply.
                    let s = set_state c (Some (Handshake responder)) s;
                        response = Response_Transparent (ServerHandshake
                          (Handshake_Responder (length reply) (write_into (replicate 1024 0) reply)))
                    in st_then (send_response E c response s)
                      (\<lambda>s _.
                        let taken = conn_state (conns s c); s = set_state c None s in
                        case taken of
                          Some (Handshake h) \<Rightarrow>
                            st_then (s, map_err Server_Snow (into_transport_mode (snow E) h))
                              (\<lambda>s transport.
                                (promote_connection c (set_state c (Some (Transport transport)) s), Ok ()))
                              id
                        | _ \<Rightarrow> (s, Panic))
                      id)
                  (\<lambda>responder. set_state c (Some (Handshake responder)) s))
              (\<lambda>responder. set_state c (Some (Handshake responder)) s)
      | _ \<Rightarrow> (s, Err Server_NotHandshakeState))"

definition relay_to ::
  "('h, 't) env \<Rightarrow> bytes \<Rightarrow> response_message \<Rightarrow> ('h, 't) server_state \<Rightarrow> ('h, 't, unit) handled" where
  "relay_to E key relayed s =
     (case active s key of
        Some peer \<Rightarrow> send_response E peer relayed s
      | None \<Rightarrow> (s, Err (Server_PeerNotFound (hex_encode E key))))"

text \<open>The session check of a peer message: the session exists and has the target as participant.\<close>

definition check_session ::
  "('h, 't) env \<Rightarrow> nat \<Rightarrow> session_id option \<Rightarrow> bytes \<Rightarrow> ('h, 't) server_state \<Rightarrow> ('h, 't, unit) handled" where
  "check_session E now sid key s =
     (case sid of
        None \<Rightarrow> (s, Ok ())
      | Some i \<Rightarrow>
          (let (ss, found) = touch_session now i (sessions s); s = s\<lparr>sessions := ss\<rparr> in
           case found of
             Some x \<Rightarrow>
               if list_ex (\<lambda>k. k = key) (public_keys x) then (s, Ok ())
               else (s, Err (NotSessionParticipant i (hex_encode E key)))
           | None \<Rightarrow> (s, Err (SessionNotFound i))))"

definition server_request ::
  "('h, 't) env \<Rightarrow> nat \<Rightarrow> uuid \<Rightarrow> conn_ref \<Rightarrow> sealed_envelope \<Rightarrow> ('h, 't) server_state \<Rightarrow> ('h, 't, unit) handled" where
  "server_request E now new_id c envelope s =
     (let from_key = conn_key (conns s c) in
      case active s from_key of
        Some peer \<Rightarrow>
          (case conn_state (conns s peer) of
             None \<Rightarrow> (s, Panic)
           | Some p \<Rightarrow>
               st_then (apsnd (map_err Server_Protocol)
                   (decrypt_server_channel (overflow_checks E) (snow E) p envelope))
                 (\<lambda>p (encoding, contents).
                   let s = set_state peer (Some p) s in
                   if encoding = Blob then
                     st_then (s, map_err Server_Io (decode ServerMessage_decode (stream E) contents))
                       (\<lambda>s request. st_then (service now new_id c from_key request s)
                         (\<lambda>s response. case response of
                             Some r \<Rightarrow> send_message E c r False s
                           | None \<Rightarrow> (s, Ok ()))
                         id)
                       id
                   else (s, Ok ()))
                 (\<lambda>p. set_state peer (Some p) s))
      | None \<Rightarrow> (s, Err (Server_PeerNotFound (hex_encode E from_key))))"

definition handle_request ::
  "('h, 't) env \<Rightarrow> nat \<Rightarrow> uuid \<Rightarrow> conn_ref \<Rightarrow> request_message \<Rightarrow> ('h, 't) server_state \<Rightarrow> ('h, 't, unit) handled" where
  "handle_request E now new_id c message s =
     (case message of
        Request_Transparent (ServerHandshake (Handshake_Initiator len buf)) \<Rightarrow> server_handshake E c len buf s
      | Request_Transparent (PeerHandshake key m) \<Rightarrow>
          relay_to E key (Response_Transparent (PeerHandshake (conn_key (conns s c)) m)) s
      | Request_Opaque (PeerMessage key sid envelope) \<Rightarrow>
          st_then (check_session E now sid key s)
            (\<lambda>s _. relay_to E key (Response_Opaque (PeerMessage (conn_key (conns s c)) sid envelope)) s) id
      | Request_Opaque (Opaque_ServerMessage envelope) \<Rightarrow> server_request E now new_id c envelope s
      | _ \<Rightarrow> (s, Ok ()))"

subsection \<open>Socket and listener tasks\<close>

text \<open>
  One iteration of each loop. A task that returns or panics drops its receiver: the listener owns
  the receiving end of \<open>incoming\<close>, the writer that of \<open>outgoing\<close>. The listener handles the error
  of a request with \<open>handle_error\<close>, whose own error is only logged; a buffer that does not decode
  ends the listener.
\<close>

definition close_incoming :: "conn_ref \<Rightarrow> ('h, 't) server_state \<Rightarrow> ('h, 't) server_state" where
  "close_incoming c = update_conn c (\<lambda>conn. conn\<lparr>incoming_open := False, incoming := []\<rparr>)"

definition close_outgoing :: "conn_ref \<Rightarrow> ('h, 't) server_state \<Rightarrow> ('h, 't) server_state" where
  "close_outgoing c = update_conn c (\<lambda>conn. conn\<lparr>outgoing_open := False, outgoing := []\<rparr>)"

definition listen_one ::
  "('h, 't) env \<Rightarrow> nat \<Rightarrow> uuid \<Rightarrow> conn_ref \<Rightarrow> bytes \<Rightarrow> ('h, 't) server_state \<Rightarrow> ('h, 't) server_state" where
  "listen_one E now new_id c buffer s =
     (case decode RequestMessage_decode (stream E) buffer of
        Ok message \<Rightarrow>
          (case handle_request E now new_id c message s of
             (s, Ok _) \<Rightarrow> s
           | (s, Err e) \<Rightarrow>
               (case handle_error E c e s of
                  (s, Panic) \<Rightarrow> close_incoming c s
                | (s, _) \<Rightarrow> s)
           | (s, Panic) \<Rightarrow> close_incoming c s)
      | _ \<Rightarrow> close_incoming c s)"

definition listen ::
  "('h, 't) env \<Rightarrow> nat \<Rightarrow> uuid \<Rightarrow> conn_ref \<Rightarrow> ('h, 't) server_state \<Rightarrow> ('h, 't) server_state" where
  "listen E now new_id c s =
     (case incoming (conns s c) of
        [] \<Rightarrow> s
      | buffer # rest \<Rightarrow>
          listen_one E now new_id c buffer (update_conn c (\<lambda>conn. conn\<lparr>incoming := rest\<rparr>) s))"

text \<open>
  The socket reader: \<open>Some frame\<close> is a frame from the client, \<open>None\<close> an error of the socket.
  The result says whether the reader goes on.
\<close>

definition read_one ::
  "('h, 't) env \<Rightarrow> conn_ref \<Rightarrow> ws_message option \<Rightarrow> ('h, 't) server_state \<Rightarrow> ('h, 't) server_state \<times> bool" where
  "read_one E c msg s =
     (case msg of
        Some (WsBinary buffer) \<Rightarrow>
          (case inflate E buffer of
             Ok inflated \<Rightarrow>
               if incoming_open (conns s c)
               then (update_conn c (\<lambda>conn. conn\<lparr>incoming := incoming conn @ [inflated]\<rparr>) s, True)
               else (s, False)
           | Err _ \<Rightarrow> (s, True)
           | Panic \<Rightarrow> (s, False))
      | Some (WsClose frame) \<Rightarrow> (fst (outgoing_send c (WsClose frame) s), False)
      | Some _ \<Rightarrow> (s, True)
      | None \<Rightarrow> (disconnect c s, False))"

text \<open>The socket writer: \<open>sent\<close> says whether the socket took the message.\<close>

definition write_one :: "conn_ref \<Rightarrow> bool \<Rightarrow> ('h, 't) server_state \<Rightarrow> ('h, 't) server_state \<times> ws_message option" where
  "write_one c sent s =
     (case outgoing (conns s c) of
        [] \<Rightarrow> (s, None)
      | m # rest \<Rightarrow>
          let s = update_conn c (\<lambda>conn. conn\<lparr>outgoing := rest\<rparr>) s in
          if sent then (s, Some m) else (close_outgoing c (disconnect c s), None))"

subsection \<open>Waiting tasks and the reaper\<close>

text \<open>
  One tick of a waiting task: the new state and the tasks that go on (the task itself, the task it
  spawned, or none). Errors of a notification are logged. \<open>elapsed().unwrap()\<close> panics when the
  clock is before the start of the task; a panic ends the task.
\<close>

definition ignore_error :: "('h, 't, unit) handled \<Rightarrow> wait_task list \<Rightarrow> ('h, 't) server_state \<times> wait_task list" where
  "ignore_error r next_tasks = (case r of (s, Panic) \<Rightarrow> (s, []) | (s, _) \<Rightarrow> (s, next_tasks))"

definition elapsed :: "nat \<Rightarrow> nat \<Rightarrow> (server_error, nat) outcome" where
  "elapsed now start = (if now < start then Panic else Ok (now - start))"

definition secs :: "u64 \<Rightarrow> nat" where
  "secs n = unat n * 1000000000"

definition tick_meeting_ready ::
  "('h, 't) env \<Rightarrow> u64 \<Rightarrow> conn_ref \<Rightarrow> nat \<Rightarrow> meeting_state \<Rightarrow> ('h, 't) server_state \<Rightarrow>
   ('h, 't) server_state \<times> wait_task list" where
  "tick_meeting_ready E interval owner start m s =
     (case get_meeting (meetings s) (meeting_id m) of
        None \<Rightarrow> (s, [])
      | Some target \<Rightarrow>
          if is_full target
          then ignore_error (notify_meeting_ready E
            \<lparr>meeting_id = meeting_id m, registered_participants = participants target\<rparr> s) []
          else (s, [WaitMeetingReady interval owner start m]))"

definition tick_session_ready ::
  "('h, 't) env \<Rightarrow> nat \<Rightarrow> u64 \<Rightarrow> conn_ref \<Rightarrow> nat \<Rightarrow> session_state \<Rightarrow> ('h, 't) server_state \<Rightarrow>
   ('h, 't) server_state \<times> wait_task list" where
  "tick_session_ready E now interval owner start x s =
     (if list_all (\<lambda>key. active s key \<noteq> None) (all_participants x)
      then ignore_error (notify_session_ready E x s) [WaitSessionActive interval owner now x]
      else case elapsed now start of
        Ok duration \<Rightarrow>
          if duration > secs (cfg_wait_timeout (cfg_session (srv_config s)))
          then ignore_error (notify_session_timeout E x s) []
          else (s, [WaitSessionReady interval owner start x])
      | _ \<Rightarrow> (s, []))"

definition tick_session_active ::
  "('h, 't) env \<Rightarrow> nat \<Rightarrow> u64 \<Rightarrow> conn_ref \<Rightarrow> nat \<Rightarrow> session_state \<Rightarrow> ('h, 't) server_state \<Rightarrow>
   ('h, 't) server_state \<times> wait_task list" where
  "tick_session_active E now interval owner start x s =
     (case get_session (sessions s) (session_id x) of
        None \<Rightarrow> (s, [])
      | Some target \<Rightarrow>
          if is_active target then ignore_error (notify_session_active E x s) []
          else case elapsed now start of
            Ok duration \<Rightarrow>
              if duration > secs (cfg_wait_timeout (cfg_session (srv_config s)))
              then ignore_error (notify_session_timeout E x s) []
              else (s, [WaitSessionActive interval owner start x])
          | _ \<Rightarrow> (s, []))"

fun tick :: "('h, 't) env \<Rightarrow> nat \<Rightarrow> wait_task \<Rightarrow> ('h, 't) server_state \<Rightarrow> ('h, 't) server_state \<times> wait_task list" where
  "tick E now (WaitMeetingReady interval owner start m) s = tick_meeting_ready E interval owner start m s"
| "tick E now (WaitSessionReady interval owner start x) s = tick_session_ready E now interval owner start x s"
| "tick E now (WaitSessionActive interval owner start x) s = tick_session_active E now interval owner start x s"

lemmas tick_defs = tick_meeting_ready_def tick_session_ready_def tick_session_active_def

text \<open>The \<open>i\<close>-th waiting task ticks.\<close>

definition run_tick :: "('h, 't) env \<Rightarrow> nat \<Rightarrow> nat \<Rightarrow> ('h, 't) server_state \<Rightarrow> ('h, 't) server_state" where
  "run_tick E now i s =
     (if i < length (tasks s)
      then let (s', next_tasks) = tick E now (tasks s ! i) s
           in s'\<lparr>tasks := take i (tasks s) @ next_tasks @ drop (Suc i) (tasks s)\<rparr>
      else s)"

definition purge_expired ::
  "('h, 't) env \<Rightarrow> (uuid \<Rightarrow> nat) \<Rightarrow> (uuid \<Rightarrow> nat) \<Rightarrow> ('h, 't) server_state \<Rightarrow> ('h, 't, unit) handled" where
  "purge_expired E meeting_clock session_clock s =
     st_then (s, expired_meetings (overflow_checks E) (cfg_timeout (cfg_session (srv_config s))) meeting_clock (meetings s))
       (\<lambda>s expired.
         let s = s\<lparr>meetings := fold remove_meeting expired (meetings s)\<rparr> in
         st_then (s, expired_sessions (overflow_checks E) (cfg_timeout (cfg_session (srv_config s))) session_clock (sessions s))
           (\<lambda>s expired. (s\<lparr>sessions := fold remove_session expired (sessions s)\<rparr>, Ok ())) id)
       id"

subsection \<open>What sending changes\<close>

text \<open>
  Sending, in the clear or encrypted, changes only the queue of a connection (a message is
  appended) and the counters inside its protocol state. \<open>quiet s s'\<close> says that \<open>s'\<close> differs from
  \<open>s\<close> at most in this way; every notification and every relayed message is quiet.
\<close>

fun same_kind :: "('h, 't) protocol_state \<Rightarrow> ('h, 't) protocol_state \<Rightarrow> bool" where
  "same_kind (Handshake _) (Handshake _) = True"
| "same_kind (Transport _) (Transport _) = True"
| "same_kind _ _ = False"

definition quiet_conn :: "('h, 't) connection \<Rightarrow> ('h, 't) connection \<Rightarrow> bool" where
  "quiet_conn a b \<longleftrightarrow> conn_id b = conn_id a \<and> conn_key b = conn_key a \<and>
     incoming b = incoming a \<and> incoming_open b = incoming_open a \<and> outgoing_open b = outgoing_open a \<and>
     (\<exists>ms. outgoing b = outgoing a @ ms) \<and> rel_option same_kind (conn_state a) (conn_state b)"

definition quiet :: "('h, 't) server_state \<Rightarrow> ('h, 't) server_state \<Rightarrow> bool" where
  "quiet s s' \<longleftrightarrow> srv_keypair s' = srv_keypair s \<and> srv_config s' = srv_config s \<and>
     pending s' = pending s \<and> active s' = active s \<and> meetings s' = meetings s \<and>
     sessions s' = sessions s \<and> next_conn s' = next_conn s \<and> tasks s' = tasks s \<and>
     (\<forall>c. quiet_conn (conns s c) (conns s' c))"

lemma same_kind_refl [simp]: "same_kind p p"
  by (cases p) auto

lemma same_kind_trans: "same_kind p q \<Longrightarrow> same_kind q r \<Longrightarrow> same_kind p r"
  by (cases p; cases q; cases r) auto

lemma same_kind_Transport [simp]: "same_kind (Transport t) q \<longleftrightarrow> (\<exists>t'. q = Transport t')"
  by (cases q) auto

lemma rel_kind_trans:
  "rel_option same_kind a b \<Longrightarrow> rel_option same_kind b c \<Longrightarrow> rel_option same_kind a c"
  by (cases a; cases b; cases c) (auto intro: same_kind_trans)

lemma rel_kind_refl [simp]: "rel_option same_kind a a"
  by (cases a) auto

lemma quiet_conn_refl [simp]: "quiet_conn a a"
  by (auto simp: quiet_conn_def)

lemma quiet_conn_trans: "quiet_conn a b \<Longrightarrow> quiet_conn b c \<Longrightarrow> quiet_conn a c"
  by (auto simp: quiet_conn_def intro: rel_kind_trans)

lemma quiet_refl [simp, intro]: "quiet s s"
  by (simp add: quiet_def)

lemma quiet_trans: "quiet s t \<Longrightarrow> quiet t u \<Longrightarrow> quiet s u"
  by (auto simp: quiet_def intro: quiet_conn_trans)

lemma quiet_update_conn: "quiet_conn (conns s c) (f (conns s c)) \<Longrightarrow> quiet s (update_conn c f s)"
  by (auto simp: quiet_def update_conn_def)

lemma quiet_then:
  assumes "quiet s (fst m)" and "\<And>s1 x. m = (s1, Ok x) \<Longrightarrow> quiet s s1 \<Longrightarrow> quiet s (fst (f s1 x))"
  shows "quiet s (fst (st_then m f id))"
  using assms by (cases "(m, f, id :: ('a, 'b) server_state \<Rightarrow> _)" rule: st_then.cases) auto

lemma encrypt_kind: "same_kind p (fst (encrypt_server_channel S p payload broadcast))"
  by (cases p) (auto split: st_then_splits)

lemma decrypt_kind: "same_kind p (fst (decrypt_server_channel checks S p envelope))"
  by (cases p) (auto split: st_then_splits)

lemma quiet_outgoing_send: "quiet s (fst (outgoing_send c m s))"
  by (auto simp: outgoing_send_def quiet_conn_def intro!: quiet_update_conn)

lemma quiet_conn_send: "quiet s (fst (conn_send E c buffer s))"
  unfolding conn_send_def by (rule quiet_then) (auto simp: quiet_outgoing_send)

lemma quiet_send_response: "quiet s (fst (send_response E c response s))"
  unfolding send_response_def by (rule quiet_then) (auto simp: quiet_conn_send)

lemma quiet_set_state:
  "conn_state (conns s c) = Some p \<Longrightarrow> same_kind p q \<Longrightarrow> quiet s (set_state c (Some q) s)"
  unfolding set_state_def by (rule quiet_update_conn) (simp add: quiet_conn_def)

lemma quiet_send_message: "quiet s (fst (send_message E c message broadcast s))"
  unfolding send_message_def
proof (rule quiet_then)
  fix s1 payload
  assume m: "(s, map_err Server_Io (encode ServerMessage_encode (stream E) message)) = (s1, Ok payload)"
  show "quiet s (fst (case conn_state (conns s1 c) of
         None \<Rightarrow> (s1, Panic)
       | Some p \<Rightarrow>
           st_then (apsnd (map_err Server_Protocol) (encrypt_server_channel (snow E) p payload broadcast))
             (\<lambda>p envelope.
               send_response E c (Response_Opaque (Opaque_ServerMessage envelope)) (set_state c (Some p) s1))
             (\<lambda>p. set_state c (Some p) s1)))"
  proof (cases "conn_state (conns s1 c)")
    case (Some p)
    obtain q r where e: "encrypt_server_channel (snow E) p payload broadcast = (q, r)" by fastforce
    then have "quiet s (set_state c (Some q) s1)"
      using quiet_set_state [OF Some, of q] encrypt_kind [of p "snow E" payload broadcast] m by auto
    then show ?thesis
      using Some e by (cases r) (auto intro: quiet_trans quiet_send_response)
  qed (use m in auto)
qed simp

lemma quiet_notify_each: "quiet s (fst (notify_each E keys message s))"
proof (induction keys arbitrary: s)
  case (Cons key keys)
  show ?case
  proof (cases "active s key")
    case (Some c)
    have "quiet s (fst (st_then (send_message E c message True s) (\<lambda>s _. notify_each E keys message s) id))"
      by (rule quiet_then) (auto intro: quiet_send_message quiet_trans Cons.IH)
    then show ?thesis using Some by simp
  qed (simp add: Cons.IH)
qed simp

lemmas notify_defs = notify_meeting_ready_def notify_session_ready_def notify_session_active_def
  notify_session_timeout_def notify_peers_def

lemma quiet_handle_error: "quiet s (fst (handle_error E c e s))"
  unfolding handle_error_def
  by (auto split: option.splits protocol_state.splits intro: quiet_send_message quiet_send_response)

lemma quiet_relay_to: "quiet s (fst (relay_to E key relayed s))"
  by (auto simp: relay_to_def quiet_send_response split: option.splits)

lemma quiet_tick: "quiet s (fst (tick E now task s))"
  by (cases "(E, now, task, s)" rule: tick.cases)
     (auto simp: tick_defs ignore_error_def notify_defs split: option.splits outcome.splits prod.splits,
      (metis fst_conv quiet_notify_each)+)

subsection \<open>The server invariant\<close>

text \<open>
  An active entry refers to a connection with that public key in transport mode, a pending entry
  to a connection with that identifier that is not yet in transport mode; identifiers of meetings
  and sessions are unique, and so are the users of a meeting and the participants of a session.
\<close>

abbreviation in_transport :: "('h, 't) server_state \<Rightarrow> conn_ref \<Rightarrow> bool" where
  "in_transport s c \<equiv> (\<exists>t. conn_state (conns s c) = Some (Transport t))"

definition active_ok :: "('h, 't) server_state \<Rightarrow> bool" where
  "active_ok s \<longleftrightarrow> (\<forall>k c. active s k = Some c \<longrightarrow>
     c < next_conn s \<and> conn_key (conns s c) = k \<and> in_transport s c)"

definition pending_ok :: "('h, 't) server_state \<Rightarrow> bool" where
  "pending_ok s \<longleftrightarrow> (\<forall>i c. pending s i = Some c \<longrightarrow>
     c < next_conn s \<and> conn_id (conns s c) = i \<and> \<not> in_transport s c)"

definition stores_ok :: "('h, 't) server_state \<Rightarrow> bool" where
  "stores_ok s \<longleftrightarrow> distinct (map fst (meetings s)) \<and> distinct (map fst (sessions s)) \<and>
     (\<forall>(_, m)\<in>set (meetings s). distinct (map fst (slots m))) \<and>
     (\<forall>(_, x)\<in>set (sessions s). distinct (session_participant_keys x))"

definition server_inv :: "('h, 't) server_state \<Rightarrow> bool" where
  "server_inv s \<longleftrightarrow> active_ok s \<and> pending_ok s \<and> stores_ok s"

lemma quiet_in_transport: "quiet s s' \<Longrightarrow> in_transport s' c \<longleftrightarrow> in_transport s c"
proof -
  assume "quiet s s'"
  then have "rel_option same_kind (conn_state (conns s c)) (conn_state (conns s' c))"
    by (auto simp: quiet_def quiet_conn_def)
  then show ?thesis
    by (cases rule: option.rel_cases) (auto elim: same_kind.elims)
qed

lemma quiet_fields:
  assumes "quiet s s'"
  shows "pending s' = pending s" "active s' = active s" "meetings s' = meetings s"
    "sessions s' = sessions s" "next_conn s' = next_conn s" "srv_config s' = srv_config s"
    "tasks s' = tasks s"
    "conn_id (conns s' c) = conn_id (conns s c)" "conn_key (conns s' c) = conn_key (conns s c)"
  using assms by (auto simp: quiet_def quiet_conn_def)

lemma server_inv_quiet: "server_inv s \<Longrightarrow> quiet s s' \<Longrightarrow> server_inv s'"
  unfolding server_inv_def active_ok_def pending_ok_def stores_ok_def
  by (simp add: quiet_fields [of s s'] quiet_in_transport [of s s'])

lemma server_inv_new: "server_inv (RelayServer_new config k)"
  by (simp add: server_inv_def active_ok_def pending_ok_def stores_ok_def RelayServer_new_def)

lemma set_alist_update: "set (AList.update k v al) \<subseteq> insert (k, v) (set al)"
  by (induction al) auto

lemma set_alist_delete: "set (AList.delete k al) \<subseteq> set al"
  by (auto simp: AList.delete_eq)

lemma inv_untouched [simp]:
  "active_ok (s\<lparr>meetings := ms\<rparr>) = active_ok s" "pending_ok (s\<lparr>meetings := ms\<rparr>) = pending_ok s"
  "active_ok (s\<lparr>sessions := xs\<rparr>) = active_ok s" "pending_ok (s\<lparr>sessions := xs\<rparr>) = pending_ok s"
  "active_ok (s\<lparr>tasks := ts\<rparr>) = active_ok s" "pending_ok (s\<lparr>tasks := ts\<rparr>) = pending_ok s"
  "stores_ok (s\<lparr>tasks := ts\<rparr>) = stores_ok s" "stores_ok (set_state c p s) = stores_ok s"
  "stores_ok (promote_connection c s) = stores_ok s" "stores_ok (disconnect c s) = stores_ok s"
  "stores_ok (update_conn c f s) = stores_ok s"
  by (simp_all add: active_ok_def pending_ok_def stores_ok_def set_state_def update_conn_def
      promote_connection_def disconnect_def)

lemma stores_update_meeting:
  "stores_ok s \<Longrightarrow> distinct (map fst (slots m)) \<Longrightarrow> stores_ok (s\<lparr>meetings := AList.update i m (meetings s)\<rparr>)"
  using set_alist_update [of i m "meetings s"]
  by (fastforce simp: stores_ok_def distinct_update)

lemma stores_update_session:
  "stores_ok s \<Longrightarrow> distinct (session_participant_keys x) \<Longrightarrow>
   stores_ok (s\<lparr>sessions := AList.update i x (sessions s)\<rparr>)"
  using set_alist_update [of i x "sessions s"]
  by (fastforce simp: stores_ok_def distinct_update)

lemma stores_remove_session: "stores_ok s \<Longrightarrow> stores_ok (s\<lparr>sessions := remove_session i (sessions s)\<rparr>)"
  using set_alist_delete [of i "sessions s"]
  by (fastforce simp: stores_ok_def remove_session_def distinct_delete)

lemma stores_remove_meeting: "stores_ok s \<Longrightarrow> stores_ok (s\<lparr>meetings := remove_meeting i (meetings s)\<rparr>)"
  using set_alist_delete [of i "meetings s"]
  by (fastforce simp: stores_ok_def remove_meeting_def distinct_delete)

lemma stored_meeting:
  "stores_ok s \<Longrightarrow> get_meeting (meetings s) i = Some m \<Longrightarrow> distinct (map fst (slots m))"
  unfolding stores_ok_def get_meeting_def by (fastforce dest: map_of_SomeD)

lemma stored_session:
  "stores_ok s \<Longrightarrow> get_session (sessions s) i = Some x \<Longrightarrow> distinct (session_participant_keys x)"
  unfolding stores_ok_def get_session_def by (fastforce dest: map_of_SomeD)

lemma service_inv:
  assumes "server_inv s" and "\<And>owner users. message = NewMeeting owner users \<Longrightarrow> distinct users"
  shows "server_inv (fst (service now new_id c key message s))"
proof -
  have d: "distinct (map fst (slots (meeting_join now u k \<lparr>slots = map (\<lambda>u. (u, None)) users, meeting_last_access = now\<rparr>)))"
    if "distinct users" for u k users
    using that by (intro distinct_slots_join) (simp add: comp_def)
  show ?thesis
    using assms
    by (cases message)
       (auto simp: service_def server_inv_def Let_def new_meeting_def new_session_def register_connection_def
         intro!: stores_update_meeting stores_update_session stores_remove_session d
         dest: stored_meeting stored_session split: option.splits if_splits
         simp del: slots_meeting_join,
        (metis distinct_slots_join stored_meeting)+)
qed

lemma inv_update_conn:
  assumes "server_inv s" and "conn_id (f (conns s c)) = conn_id (conns s c)"
    and "conn_key (f (conns s c)) = conn_key (conns s c)"
    and "(\<exists>t. conn_state (f (conns s c)) = Some (Transport t)) \<longleftrightarrow> in_transport s c"
  shows "server_inv (update_conn c f s)"
proof -
  have "conn_id (conns (update_conn c f s) d) = conn_id (conns s d)"
    "conn_key (conns (update_conn c f s) d) = conn_key (conns s d)"
    "in_transport (update_conn c f s) d \<longleftrightarrow> in_transport s d" for d
    using assms(2-4) by (simp_all add: update_conn_def)
  moreover have "pending (update_conn c f s) = pending s" "active (update_conn c f s) = active s"
    "next_conn (update_conn c f s) = next_conn s"
    by (simp_all add: update_conn_def)
  ultimately show ?thesis
    using assms(1) unfolding server_inv_def active_ok_def pending_ok_def by simp
qed

lemma inv_set_state:
  assumes "server_inv s" and "\<not> in_transport s c" and "\<And>t. p \<noteq> Some (Transport t)"
  shows "server_inv (set_state c p s)"
  unfolding set_state_def by (rule inv_update_conn) (use assms in auto)

lemma inv_promote:
  assumes "server_inv s" and "\<not> in_transport s c" and "c < next_conn s"
  shows "server_inv (promote_connection c (set_state c (Some (Transport t)) s))"
  using assms
  by (auto simp: server_inv_def active_ok_def pending_ok_def)
     (auto simp: set_state_def update_conn_def promote_connection_def split: if_splits)

lemma inv_disconnect: "server_inv s \<Longrightarrow> server_inv (disconnect c s)"
  by (auto simp: server_inv_def active_ok_def pending_ok_def)
     (auto simp: disconnect_def split: if_splits)

lemma server_handshake_inv:
  assumes "server_inv s" and "c < next_conn s"
  shows "server_inv (fst (server_handshake E c len buf s))"
proof (cases "\<exists>h. conn_state (conns s c) = Some (Handshake h) \<and> len \<le> length buf")
  case True
  then obtain h where h: "conn_state (conns s c) = Some (Handshake h)" "len \<le> length buf" by blast
  have nt: "\<not> in_transport s c" using h by simp
  have I: "server_inv (set_state c (Some (Handshake h')) s)" for h'
    using inv_set_state [OF assms(1) nt] by simp
  have nt': "\<not> in_transport (set_state c (Some (Handshake h')) s) c" for h'
    by (simp add: set_state_def update_conn_def)
  have fin: "server_inv (promote_connection c (set_state c (Some (Transport t)) (set_state c None s1))) \<and>
      server_inv (set_state c None s1)"
    if "quiet (set_state c (Some (Handshake h')) s) s1" for h' s1 t
  proof -
    have s1: "server_inv s1" "\<not> in_transport s1 c" "c < next_conn s1"
      using server_inv_quiet [OF I that] quiet_in_transport [OF that] nt' quiet_fields(5) [OF that] assms(2)
      by (auto simp: set_state_def update_conn_def)
    then have "server_inv (set_state c None s1)" by (intro inv_set_state) auto
    moreover have "\<not> in_transport (set_state c None s1) c" "c < next_conn (set_state c None s1)"
      using s1 by (auto simp: set_state_def update_conn_def)
    ultimately show ?thesis by (auto intro: inv_promote)
  qed
  have q: "quiet u (fst (send_response E c r u))" for r and u :: "('a, 'b) server_state"
    by (rule quiet_send_response)
  show ?thesis
    using h I
    by (auto simp: server_handshake_def Let_def split: st_then_splits option.splits protocol_state.splits
        intro: fin server_inv_quiet [OF I])
       (metis fin fst_conv q server_inv_quiet [OF I])+
qed (use assms in \<open>auto simp: server_handshake_def split: option.splits protocol_state.splits\<close>)

lemma check_session_inv: "server_inv s \<Longrightarrow> server_inv (fst (check_session E now sid key s))"
  by (cases sid)
     (auto simp: check_session_def touch_session_def server_inv_def Let_def
       dest: stored_session [unfolded get_session_def] intro!: stores_update_session
       split: option.splits prod.splits if_splits)

lemma check_session_frame:
  "conns (fst (check_session E now sid key s)) = conns s"
  "active (fst (check_session E now sid key s)) = active s"
  "next_conn (fst (check_session E now sid key s)) = next_conn s"
  by (cases sid; auto simp: check_session_def Let_def split: option.splits prod.splits if_splits)+

subsection \<open>Environments\<close>

text \<open>
  \<open>env_safe\<close>: the libraries do not panic. \<open>sample_env\<close> is a concrete environment, used to show
  that the assumptions on the libraries can hold.
\<close>

definition handshake_safe :: "('h, 't) snow_ops \<Rightarrow> bool" where
  "handshake_safe S \<longleftrightarrow>
     (\<forall>h m n. snd (handshake_read S h m n) \<noteq> Panic) \<and> (\<forall>h m n. snd (handshake_write S h m n) \<noteq> Panic) \<and>
     (\<forall>h. into_transport_mode S h \<noteq> Panic)"

definition env_safe :: "('h, 't) env \<Rightarrow> bool" where
  "env_safe E \<longleftrightarrow> stream_laws (stream E) \<and> transport_safe (snow E) \<and> handshake_safe (snow E) \<and>
     never_panics (zlib_encode E) \<and> never_panics (zlib_decode E)"

definition sample_env :: "(bool \<times> nat, nat \<times> nat) env" where
  "sample_env = \<lparr>stream = le_stream, snow = counter_snow, zlib_encode = Ok, zlib_decode = Ok,
     hex_encode = (\<lambda>_. ''hex''), display = (\<lambda>_. ''error''), overflow_checks = True\<rparr>"

lemma counter_handshake_safe: "handshake_safe counter_snow"
  by (auto simp: handshake_safe_def counter_snow_def split: prod.splits)

lemma sample_env_safe: "env_safe sample_env"
  by (simp add: env_safe_def sample_env_def le_stream_laws counter_transport_safe never_panics_def
      counter_handshake_safe)

end
