(* ===== verification/Client.thy ===== *)
theory Client
  imports Relay_Server
begin

text \<open>
  The websocket client (\<open>client/src/client.rs\<close>, \<open>event_loop.rs\<close>, \<open>native.rs\<close> and
  \<open>lib.rs\<close>): the handshakes with the server and with peers, encrypted messages to peers and to
  the server, and the event loop that turns what arrives into events.

  The client handle and its event loop share the server channel, the peer channels and the
  outbound queue, which are fields of one record here. The parameters are those of the server: the
  byte stream, the noise operations and compression (record \<open>env\<close>). JSON is the \<open>serde_json\<close>
  crate: the operations that serialise take the outcome of the serialisation. The web client
  differs from the native one only in the socket interface.
\<close>

subsection \<open>State\<close>

datatype client_error =
    ConnectError status_code string
  | ServerError status_code string
  | NoReply
  | Client_PeerAlreadyExists
  | PeerAlreadyExistsMaybeRace
  | Client_PeerNotFound string
  | Client_NotHandshakeState
  | Client_NotTransportState
  | InvalidPeerHandshakeMessage
  | WebSocketSend
  | StreamReunite
  | Client_Io io_error
  | Client_Protocol protocol_error
  | Client_Snow snow_error
  | Client_Json
  | Client_Websocket
  | RequestMpscSend
  | ResponseMpscSend

datatype client_event =
    ServerConnected bytes
  | PeerConnected bytes
  | BinaryMessage bytes bytes "session_id option"
  | JsonMessage bytes bytes "session_id option"
  | Ev_MeetingCreated meeting_state
  | Ev_MeetingReady meeting_state
  | Ev_SessionCreated session_state
  | Ev_SessionReady session_state
  | Ev_SessionActive session_state
  | Ev_SessionTimeout session_id
  | Ev_SessionFinished session_id
  | Ev_Close

datatype internal_message =
    Internal_Request request_message
  | Internal_Close

record client_options =
  opt_keypair :: keypair
  opt_server_key :: bytes
  opt_pattern :: "string option"

record ('h, 't) client =
  options :: client_options
  server_channel :: "('h, 't) protocol_state option"
  peers :: "bytes \<rightharpoonup> ('h, 't) protocol_state"
  outbound :: "internal_message list"
  outbound_open :: bool
  inbound :: "response_message list"
  socket :: "ws_message list"

type_synonym ('h, 't, 'a) client_result = "('h, 't) client \<times> (client_error, 'a) outcome"

definition ClientOptions_params :: "('h, 't) env \<Rightarrow> client_options \<Rightarrow> (client_error, string) outcome" where
  "ClientOptions_params E opts =
     map_err Client_Snow (parse_params (snow E) (case opt_pattern opts of Some p \<Rightarrow> p | None \<Rightarrow> PATTERN))"

definition url :: "('h, 't) env \<Rightarrow> client_options \<Rightarrow> string \<Rightarrow> string" where
  "url E opts server =
     rev (dropWhile (\<lambda>c. c = CHR ''/'') (rev server)) @ ''/?public_key='' @ hex_encode E (kp_public (opt_keypair opts))"

definition SWITCHING_PROTOCOLS :: status_code where
  "SWITCHING_PROTOCOLS = 101"

text \<open>\<open>NativeClient::new\<close>: the outcome of the connection is an argument (status and its text).\<close>

definition client_new ::
  "('h, 't) env \<Rightarrow> nat \<Rightarrow> (client_error, status_code \<times> string) outcome \<Rightarrow> client_options \<Rightarrow>
   (client_error, ('h, 't) client) outcome" where
  "client_new E random connected opts =
     and_then connected (\<lambda>(status, text).
     if status \<noteq> SWITCHING_PROTOCOLS then Err (ConnectError status text) else
     and_then (ClientOptions_params E opts) (\<lambda>params.
     and_then (map_err Client_Snow
         (build_initiator (snow E) random params (kp_private (opt_keypair opts)) (opt_server_key opts))) (\<lambda>handshake.
       Ok \<lparr>options = opts, server_channel = Some (Handshake handshake), peers = Map.empty, outbound = [],
           outbound_open = True, inbound = [], socket = []\<rparr>)))"

subsection \<open>Encrypted channels to peers\<close>

fun encrypt_peer_channel ::
  "('h, 't) snow_ops \<Rightarrow> bytes \<Rightarrow> ('h, 't) protocol_state \<Rightarrow> bytes \<Rightarrow> encoding \<Rightarrow> bool \<Rightarrow> session_id option \<Rightarrow>
   ('h, 't) protocol_state \<times> (client_error, request_message) outcome" where
  "encrypt_peer_channel S key (Transport t) payload enc broadcast sid =
     st_then (apsnd (map_err Client_Protocol) (Chunk_split S payload t))
       (\<lambda>t chunks. (Transport t, Ok (Request_Opaque (PeerMessage key sid
          \<lparr>env_encoding = enc, env_chunks = chunks, env_broadcast = broadcast\<rparr>))))
       Transport"
| "encrypt_peer_channel S key (Handshake h) payload enc broadcast sid = (Handshake h, Err Client_NotTransportState)"

fun decrypt_peer_channel ::
  "bool \<Rightarrow> ('h, 't) snow_ops \<Rightarrow> ('h, 't) protocol_state \<Rightarrow> sealed_envelope \<Rightarrow>
   ('h, 't) protocol_state \<times> (client_error, encoding \<times> bytes) outcome" where
  "decrypt_peer_channel checks S (Transport t) envelope =
     st_then (apsnd (map_err Client_Protocol) (Chunk_join checks S (env_chunks envelope) t))
       (\<lambda>t contents. (Transport t, Ok (env_encoding envelope, contents)))
       Transport"
| "decrypt_peer_channel checks S (Handshake h) envelope = (Handshake h, Err Client_NotTransportState)"

subsection \<open>Requests of the client\<close>

definition outbound_send :: "internal_message \<Rightarrow> ('h, 't) client \<Rightarrow> ('h, 't, unit) client_result" where
  "outbound_send m c =
     (if outbound_open c then (c\<lparr>outbound := outbound c @ [m]\<rparr>, Ok ()) else (c, Err RequestMpscSend))"

definition relay ::
  "('h, 't) env \<Rightarrow> bytes \<Rightarrow> bytes \<Rightarrow> encoding \<Rightarrow> bool \<Rightarrow> session_id option \<Rightarrow> ('h, 't) client \<Rightarrow>
   ('h, 't, unit) client_result" where
  "relay E key payload enc broadcast sid c =
     (case peers c key of
        Some peer \<Rightarrow>
          st_then (encrypt_peer_channel (snow E) key peer payload enc broadcast sid)
            (\<lambda>peer request. outbound_send (Internal_Request request) (c\<lparr>peers := (peers c)(key \<mapsto> peer)\<rparr>))
            (\<lambda>peer. c\<lparr>peers := (peers c)(key \<mapsto> peer)\<rparr>)
      | None \<Rightarrow> (c, Err (Client_PeerNotFound (hex_encode E key))))"

text \<open>\<open>request\<close> reaches \<open>unreachable!()\<close> when there is no server channel.\<close>

definition request :: "('h, 't) env \<Rightarrow> server_message \<Rightarrow> ('h, 't) client \<Rightarrow> ('h, 't, unit) client_result" where
  "request E message c =
     (case server_channel c of
        Some server \<Rightarrow>
          st_then (c, map_err Client_Io (encode ServerMessage_encode (stream E) message))
            (\<lambda>c payload. st_then (apsnd (map_err Client_Protocol) (encrypt_server_channel (snow E) server payload False))
              (\<lambda>server envelope. outbound_send (Internal_Request (Request_Opaque (Opaque_ServerMessage envelope)))
                (c\<lparr>server_channel := Some server\<rparr>))
              (\<lambda>server. c\<lparr>server_channel := Some server\<rparr>))
            id
      | None \<Rightarrow> (c, Panic))"

fun relay_broadcast ::
  "('h, 't) env \<Rightarrow> session_id \<Rightarrow> bytes list \<Rightarrow> bytes \<Rightarrow> encoding \<Rightarrow> ('h, 't) client \<Rightarrow>
   ('h, 't, unit) client_result" where
  "relay_broadcast E sid [] payload enc c = (c, Ok ())"
| "relay_broadcast E sid (key # keys) payload enc c =
     st_then (relay E key payload enc True (Some sid) c)
       (\<lambda>c _. relay_broadcast E sid keys payload enc c) id"

definition client_connect :: "('h, 't) env \<Rightarrow> ('h, 't) client \<Rightarrow> ('h, 't, unit) client_result" where
  "client_connect E c =
     (case server_channel c of
        Some (Handshake initiator) \<Rightarrow>
          st_then (apsnd (map_err Client_Snow) (handshake_write (snow E) initiator [] 1024))
            (\<lambda>initiator msg. outbound_send (Internal_Request (Request_Transparent (ServerHandshake
                (Handshake_Initiator (length msg) (write_into (replicate 1024 0) msg)))))
              (c\<lparr>server_channel := Some (Handshake initiator)\<rparr>))
            (\<lambda>initiator. c\<lparr>server_channel := Some (Handshake initiator)\<rparr>)
      | _ \<Rightarrow> (c, Err Client_NotHandshakeState))"

definition is_connected :: "('h, 't) client \<Rightarrow> bool" where
  "is_connected c = (case server_channel c of Some (Transport _) \<Rightarrow> True | _ \<Rightarrow> False)"

definition connect_peer :: "('h, 't) env \<Rightarrow> nat \<Rightarrow> bytes \<Rightarrow> ('h, 't) client \<Rightarrow> ('h, 't, unit) client_result" where
  "connect_peer E random key c =
     (if peers c key \<noteq> None then (c, Err Client_PeerAlreadyExists)
      else
        st_then (c, ClientOptions_params E (options c)) (\<lambda>c params.
        st_then (c, map_err Client_Snow
            (build_initiator (snow E) random params (kp_private (opt_keypair (options c))) key)) (\<lambda>c initiator.
        st_then (apsnd (map_err Client_Snow) (handshake_write (snow E) initiator [] 1024))
          (\<lambda>initiator msg. outbound_send (Internal_Request (Request_Transparent (PeerHandshake key
              (Handshake_Initiator (length msg) (write_into (replicate 1024 0) msg)))))
            (c\<lparr>peers := (peers c)(key \<mapsto> Handshake initiator)\<rparr>))
          (\<lambda>initiator. c\<lparr>peers := (peers c)(key \<mapsto> Handshake initiator)\<rparr>)) id) id)"

definition send_json ::
  "('h, 't) env \<Rightarrow> bytes \<Rightarrow> (unit, bytes) outcome \<Rightarrow> session_id option \<Rightarrow> ('h, 't) client \<Rightarrow> ('h, 't, unit) client_result" where
  "send_json E key json sid c =
     st_then (c, map_err (\<lambda>_. Client_Json) json) (\<lambda>c payload. relay E key payload Json False sid c) id"

definition send_blob ::
  "('h, 't) env \<Rightarrow> bytes \<Rightarrow> bytes \<Rightarrow> session_id option \<Rightarrow> ('h, 't) client \<Rightarrow> ('h, 't, unit) client_result" where
  "send_blob E key payload sid c = relay E key payload Blob False sid c"

definition request_new_meeting ::
  "('h, 't) env \<Rightarrow> user_id \<Rightarrow> user_id list \<Rightarrow> ('h, 't) client \<Rightarrow> ('h, 't, unit) client_result" where
  "request_new_meeting E owner users c = request E (NewMeeting owner users) c"

definition request_join_meeting ::
  "('h, 't) env \<Rightarrow> meeting_id \<Rightarrow> user_id \<Rightarrow> ('h, 't) client \<Rightarrow> ('h, 't, unit) client_result" where
  "request_join_meeting E mid uid c = request E (JoinMeeting mid uid) c"

definition request_new_session ::
  "('h, 't) env \<Rightarrow> bytes list \<Rightarrow> ('h, 't) client \<Rightarrow> ('h, 't, unit) client_result" where
  "request_new_session E keys c = request E (NewSession \<lparr>participant_keys = keys\<rparr>) c"

definition request_register_connection ::
  "('h, 't) env \<Rightarrow> session_id \<Rightarrow> bytes \<Rightarrow> ('h, 't) client \<Rightarrow> ('h, 't, unit) client_result" where
  "request_register_connection E sid peer c = request E (SessionConnection sid peer) c"

definition request_close_session ::
  "('h, 't) env \<Rightarrow> session_id \<Rightarrow> ('h, 't) client \<Rightarrow> ('h, 't, unit) client_result" where
  "request_close_session E sid c = request E (CloseSession sid) c"

definition broadcast_json ::
  "('h, 't) env \<Rightarrow> session_id \<Rightarrow> bytes list \<Rightarrow> (unit, bytes) outcome \<Rightarrow> ('h, 't) client \<Rightarrow> ('h, 't, unit) client_result" where
  "broadcast_json E sid keys json c =
     st_then (c, map_err (\<lambda>_. Client_Json) json) (\<lambda>c payload. relay_broadcast E sid keys payload Json c) id"

definition broadcast_blob ::
  "('h, 't) env \<Rightarrow> session_id \<Rightarrow> bytes list \<Rightarrow> bytes \<Rightarrow> ('h, 't) client \<Rightarrow> ('h, 't, unit) client_result" where
  "broadcast_blob E sid keys payload c = relay_broadcast E sid keys payload Blob c"

definition client_close :: "('h, 't) client \<Rightarrow> ('h, 't, unit) client_result" where
  "client_close c = outbound_send Internal_Close c"

subsection \<open>The event loop\<close>

definition client_server_handshake ::
  "('h, 't) env \<Rightarrow> nat \<Rightarrow> bytes \<Rightarrow> ('h, 't) client \<Rightarrow> ('h, 't, client_event) client_result" where
  "client_server_handshake E len buf c =
     (let taken = server_channel c; c = c\<lparr>server_channel := None\<rparr> in
      case taken of
        Some (Handshake initiator) \<Rightarrow>
          if len > length buf then (c, Panic)
          else
            st_then (apsnd (map_err Client_Snow) (handshake_read (snow E) initiator (take len buf) 1024))
              (\<lambda>initiator _. st_then (c, map_err Client_Snow (into_transport_mode (snow E) initiator))
                (\<lambda>c transport. (c\<lparr>server_channel := Some (Transport transport)\<rparr>,
                   Ok (ServerConnected (opt_server_key (options c)))))
                id)
              (\<lambda>_. c)
      | _ \<Rightarrow> (c, Err Client_NotHandshakeState))"

definition peer_handshake_responder ::
  "('h, 't) env \<Rightarrow> nat \<Rightarrow> bytes \<Rightarrow> nat \<Rightarrow> bytes \<Rightarrow> ('h, 't) client \<Rightarrow> ('h, 't, client_event option) client_result" where
  "peer_handshake_responder E random key len buf c =
     (if peers c key \<noteq> None then (c, Err PeerAlreadyExistsMaybeRace)
      else
        st_then (c, ClientOptions_params E (options c)) (\<lambda>c params.
        st_then (c, map_err Client_Snow
            (build_responder (snow E) random params (kp_private (opt_keypair (options c))) key)) (\<lambda>c responder.
        if len > length buf then (c, Panic) else
        st_then (apsnd (map_err Client_Snow) (handshake_read (snow E) responder (take len buf) 1024))
          (\<lambda>responder _.
            st_then (apsnd (map_err Client_Snow) (handshake_write (snow E) responder [] 1024))
              (\<lambda>responder msg.
                st_then (c, map_err Client_Snow (into_transport_mode (snow E) responder))
                  (\<lambda>c transport.
                    st_then (outbound_send (Internal_Request (Request_Transparent (PeerHandshake key
                        (Handshake_Responder (length msg) (write_into (replicate 1024 0) msg)))))
                      (c\<lparr>peers := (peers c)(key \<mapsto> Transport transport)\<rparr>))
                      (\<lambda>c _. (c, Ok (Some (PeerConnected key)))) id)
                  id)
              (\<lambda>_. c))
          (\<lambda>_. c)) id) id)"

definition peer_handshake_ack ::
  "('h, 't) env \<Rightarrow> bytes \<Rightarrow> nat \<Rightarrow> bytes \<Rightarrow> ('h, 't) client \<Rightarrow> ('h, 't, client_event) client_result" where
  "peer_handshake_ack E key len buf c =
     (case peers c key of
        None \<Rightarrow> (c, Err (Client_PeerNotFound (hex_encode E key)))
      | Some peer \<Rightarrow>
          let c = c\<lparr>peers := (peers c)(key := None)\<rparr> in
          (case peer of
             Handshake initiator \<Rightarrow>
               if len > length buf then (c, Panic)
               else
                 st_then (apsnd (map_err Client_Snow) (handshake_read (snow E) initiator (take len buf) 1024))
                   (\<lambda>initiator _. st_then (c, map_err Client_Snow (into_transport_mode (snow E) initiator))
                     (\<lambda>c transport. (c\<lparr>peers := (peers c)(key \<mapsto> Transport transport)\<rparr>, Ok (PeerConnected key)))
                     id)
                   (\<lambda>_. c)
           | Transport _ \<Rightarrow> (c, Err Client_NotHandshakeState)))"

definition handle_relayed_message ::
  "('h, 't) env \<Rightarrow> bytes \<Rightarrow> sealed_envelope \<Rightarrow> session_id option \<Rightarrow> ('h, 't) client \<Rightarrow>
   ('h, 't, client_event) client_result" where
  "handle_relayed_message E key envelope sid c =
     (case peers c key of
        Some peer \<Rightarrow>
          st_then (decrypt_peer_channel (overflow_checks E) (snow E) peer envelope)
            (\<lambda>peer (enc, contents).
              (c\<lparr>peers := (peers c)(key \<mapsto> peer)\<rparr>,
               case enc of
                 Encoding_Noop \<Rightarrow> Panic
               | Blob \<Rightarrow> Ok (BinaryMessage key contents sid)
               | Json \<Rightarrow> Ok (JsonMessage key contents sid)))
            (\<lambda>peer. c\<lparr>peers := (peers c)(key \<mapsto> peer)\<rparr>)
      | None \<Rightarrow> (c, Err (Client_PeerNotFound (hex_encode E key))))"

fun handle_server_channel_message :: "server_message \<Rightarrow> (client_error, client_event option) outcome" where
  "handle_server_channel_message (Server_Error code message) = Err (ServerError code message)"
| "handle_server_channel_message (MeetingCreated response) = Ok (Some (Ev_MeetingCreated response))"
| "handle_server_channel_message (MeetingReady response) = Ok (Some (Ev_MeetingReady response))"
| "handle_server_channel_message (SessionCreated response) = Ok (Some (Ev_SessionCreated response))"
| "handle_server_channel_message (SessionReady response) = Ok (Some (Ev_SessionReady response))"
| "handle_server_channel_message (SessionActive response) = Ok (Some (Ev_SessionActive response))"
| "handle_server_channel_message (SessionTimeout sid) = Ok (Some (Ev_SessionTimeout sid))"
| "handle_server_channel_message (SessionFinished sid) = Ok (Some (Ev_SessionFinished sid))"
| "handle_server_channel_message _ = Ok None"

definition some_event :: "('h, 't, client_event) client_result \<Rightarrow> ('h, 't, client_event option) client_result" where
  "some_event r = st_then r (\<lambda>c e. (c, Ok (Some e))) id"

definition handle_incoming_message ::
  "('h, 't) env \<Rightarrow> nat \<Rightarrow> response_message \<Rightarrow> ('h, 't) client \<Rightarrow> ('h, 't, client_event option) client_result" where
  "handle_incoming_message E random response c =
     (case response of
        Response_Transparent (Transparent_Error code message) \<Rightarrow> (c, Err (ServerError code message))
      | Response_Transparent (ServerHandshake (Handshake_Responder len buf)) \<Rightarrow>
          some_event (client_server_handshake E len buf c)
      | Response_Transparent (PeerHandshake key (Handshake_Initiator len buf)) \<Rightarrow>
          peer_handshake_responder E random key len buf c
      | Response_Transparent (PeerHandshake key (Handshake_Responder len buf)) \<Rightarrow>
          some_event (peer_handshake_ack E key len buf c)
      | Response_Opaque (PeerMessage key sid envelope) \<Rightarrow>
          some_event (handle_relayed_message E key envelope sid c)
      | Response_Opaque (Opaque_ServerMessage envelope) \<Rightarrow>
          (case server_channel c of
             Some server \<Rightarrow>
               st_then (apsnd (map_err Client_Protocol)
                   (decrypt_server_channel (overflow_checks E) (snow E) server envelope))
                 (\<lambda>server (enc, contents).
                   let c = c\<lparr>server_channel := Some server\<rparr> in
                   if enc = Blob then
                     (c, and_then (map_err Client_Io (decode ServerMessage_decode (stream E) contents))
                           handle_server_channel_message)
                   else (c, Panic))
                 (\<lambda>server. c\<lparr>server_channel := Some server\<rparr>)
           | None \<Rightarrow> (c, Panic))
      | _ \<Rightarrow> (c, Panic))"

text \<open>
  The three branches of the \<open>select!\<close>: a frame or an error from the socket, a request to the
  socket (whose write succeeds or not) or a request to close it (with the outcome of closing), a
  decoded message to handle. Each returns what the stream yields; the loop ends after a close
  request.
\<close>

definition client_read_message :: "('h, 't) env \<Rightarrow> ws_message \<Rightarrow> ('h, 't) client \<Rightarrow> ('h, 't, unit) client_result" where
  "client_read_message E response c =
     (case response of
        WsBinary buffer \<Rightarrow>
          st_then (c, map_err Client_Protocol (inflate E buffer)) (\<lambda>c inflated.
          st_then (c, map_err Client_Io (decode ResponseMessage_decode (stream E) inflated)) (\<lambda>c decoded.
            (c\<lparr>inbound := inbound c @ [decoded]\<rparr>, Ok ())) id) id
      | _ \<Rightarrow> (c, Ok ()))"

definition client_send_message ::
  "('h, 't) env \<Rightarrow> bool \<Rightarrow> request_message \<Rightarrow> ('h, 't) client \<Rightarrow> ('h, 't, unit) client_result" where
  "client_send_message E writable message c =
     st_then (c, map_err Client_Io (encode RequestMessage_encode (stream E) message)) (\<lambda>c encoded.
     st_then (c, map_err Client_Protocol (deflate E encoded)) (\<lambda>c deflated.
       if writable then (c\<lparr>socket := socket c @ [WsBinary deflated]\<rparr>, Ok ())
       else (c, Err WebSocketSend)) id) id"

definition yields ::
  "('h, 't, client_event option) client_result \<Rightarrow> ('h, 't) client \<times> (client_error, client_event) outcome list" where
  "yields r =
     (case r of
        (c, Ok (Some e)) \<Rightarrow> (c, [Ok e])
      | (c, Ok None) \<Rightarrow> (c, [])
      | (c, Err e) \<Rightarrow> (c, [Err e])
      | (c, Panic) \<Rightarrow> (c, [Panic]))"

definition loop_read ::
  "('h, 't) env \<Rightarrow> ws_message option \<Rightarrow> ('h, 't) client \<Rightarrow> ('h, 't) client \<times> (client_error, client_event) outcome list" where
  "loop_read E message c =
     (case message of
        Some m \<Rightarrow> yields (st_then (client_read_message E m c) (\<lambda>c _. (c, Ok None)) id)
      | None \<Rightarrow> (c, [Err Client_Websocket]))"

definition loop_write ::
  "('h, 't) env \<Rightarrow> bool \<Rightarrow> (client_error, unit) outcome \<Rightarrow> ('h, 't) client \<Rightarrow>
   ('h, 't) client \<times> (client_error, client_event) outcome list" where
  "loop_write E writable closed c =
     (case outbound c of
        [] \<Rightarrow> (c, [])
      | Internal_Request m # rest \<Rightarrow>
          yields (st_then (client_send_message E writable m (c\<lparr>outbound := rest\<rparr>)) (\<lambda>c _. (c, Ok None)) id)
      | Internal_Close # rest \<Rightarrow>
          (c\<lparr>outbound := [], outbound_open := False\<rparr>,
           (case closed of Err e \<Rightarrow> [Err e] | _ \<Rightarrow> []) @ [Ok Ev_Close]))"

definition loop_event ::
  "('h, 't) env \<Rightarrow> nat \<Rightarrow> ('h, 't) client \<Rightarrow> ('h, 't) client \<times> (client_error, client_event) outcome list" where
  "loop_event E random c =
     (case inbound c of
        [] \<Rightarrow> (c, [])
      | m # rest \<Rightarrow> yields (handle_incoming_message E random m (c\<lparr>inbound := rest\<rparr>)))"

subsection \<open>The peer channel\<close>

lemma peer_channel_delivers:
  assumes "transport_laws S sync" and "sync a b"
  shows "\<exists>a' b' chunks.
    encrypt_peer_channel S key (Transport a) payload enc broadcast sid =
      (Transport a', Ok (Request_Opaque (PeerMessage key sid
         \<lparr>env_encoding = enc, env_chunks = chunks, env_broadcast = broadcast\<rparr>))) \<and>
    (\<forall>from. decrypt_peer_channel checks S (Transport b)
        \<lparr>env_encoding = enc, env_chunks = chunks, env_broadcast = from\<rparr> = (Transport b', Ok (enc, payload))) \<and>
    sync a' b' \<and> length chunks = (length payload + CHUNK_SIZE - 1) div CHUNK_SIZE \<and>
    (\<forall>c\<in>set chunks. chunk_length c \<le> 65535 \<and> length (chunk_contents c) = chunk_length c)"
proof -
  obtain a' b' chunks where "Chunk_split S payload a = (a', Ok chunks)"
    "Chunk_join checks S chunks b = (b', Ok payload)" "sync a' b'"
    "length chunks = (length payload + CHUNK_SIZE - 1) div CHUNK_SIZE"
    "\<forall>c\<in>set chunks. chunk_length c \<le> 65535 \<and> length (chunk_contents c) = chunk_length c"
    using chunk_split_join [OF assms, of payload checks] by blast
  then show ?thesis
    by (intro exI [of _ a'] exI [of _ b'] exI [of _ chunks]) simp
qed

text \<open>What the receiving client opens of a request: the envelope of a peer message.\<close>

definition open_peer_message ::
  "bool \<Rightarrow> ('h, 't) snow_ops \<Rightarrow> ('h, 't) protocol_state \<Rightarrow> request_message \<Rightarrow>
   ('h, 't) protocol_state \<times> (client_error, encoding \<times> bytes) outcome" where
  "open_peer_message checks S s m =
     (case m of Request_Opaque (PeerMessage _ _ envelope) \<Rightarrow> decrypt_peer_channel checks S s envelope
      | _ \<Rightarrow> (s, Panic))"

interpretation peer_channel: sealed_channel
  "\<lambda>S s (key, payload, enc, broadcast, sid). encrypt_peer_channel S key s payload enc broadcast sid"
  open_peer_message "\<lambda>(_, payload, enc, _). (enc, payload)" transports_linked
proof unfold_locales
  fix S :: "('h, 't) snow_ops" and sync and a b :: "('h, 't) protocol_state" and checks
    and m :: "bytes \<times> bytes \<times> encoding \<times> bool \<times> session_id option"
  assume laws: "transport_laws S sync" and "transports_linked sync a b"
  then obtain ta tb where ab: "a = Transport ta" "b = Transport tb" "sync ta tb"
    by (cases a; cases b) auto
  obtain key payload enc broadcast sid where m: "m = (key, payload, enc, broadcast, sid)"
    by (cases m)
  show "\<exists>a' c b'.
      (case m of (key, payload, enc, broadcast, sid) \<Rightarrow> encrypt_peer_channel S key a payload enc broadcast sid) = (a', Ok c) \<and>
      open_peer_message checks S b c = (b', Ok (case m of (_, payload, enc, _) \<Rightarrow> (enc, payload))) \<and>
      transports_linked sync a' b'"
    using peer_channel_delivers [OF laws ab(3), of key payload enc broadcast sid checks] ab(1,2) m
    by (fastforce simp: open_peer_message_def)
qed

subsection \<open>Properties\<close>

text \<open>
  Messages relayed to a peer over an established channel, of any sizes and encodings, are
  decrypted by the peer complete, unchanged, with their encoding and in order.
\<close>

lemma peer_channel_in_order:
  assumes "transport_laws S sync" and "sync a b"
  shows "\<exists>a' requests b'.
    run_all (\<lambda>s (key, payload, enc, broadcast, sid). encrypt_peer_channel S key s payload enc broadcast sid)
      (Transport a) ms = (a', Ok requests) \<and>
    run_all (open_peer_message checks S) (Transport b) requests =
      (b', Ok (map (\<lambda>(_, payload, enc, _). (enc, payload)) ms))"
  using peer_channel.delivers_all [OF assms(1), of "Transport a" "Transport b" ms checks] assms(2) by auto

text \<open>
  A handshake reply from the server that does not decrypt leaves the client without a server
  channel, because the state is taken before it is checked: from then on the client cannot
  handshake again and every request over the server channel panics.
\<close>

lemma failed_handshake_loses_channel:
  assumes "server_channel c = Some (Handshake h)" and "len \<le> length buf"
    and "handshake_read (snow E) h (take len buf) 1024 = (h', Err e)"
  shows "\<exists>c'. handle_incoming_message E random (Response_Transparent (ServerHandshake (Handshake_Responder len buf))) c =
      (c', Err (Client_Snow e)) \<and> client_connect E c' = (c', Err Client_NotHandshakeState) \<and>
    (\<forall>message. request E message c' = (c', Panic))"
  using assms
  by (simp add: handle_incoming_message_def client_server_handshake_def some_event_def Let_def
      client_connect_def request_def)

definition sample_client :: "bytes \<Rightarrow> (bool \<times> nat, nat \<times> nat) client" where
  "sample_client key = \<lparr>options = \<lparr>opt_keypair = \<lparr>kp_public = key, kp_private = [0]\<rparr>, opt_server_key = [1],
       opt_pattern = None\<rparr>, server_channel = Some (Handshake (True, 0)), peers = Map.empty, outbound = [],
     outbound_open = True, inbound = [], socket = []\<rparr>"

fun sender_key :: "response_message \<Rightarrow> bytes option" where
  "sender_key (Response_Transparent (PeerHandshake key _)) = Some key"
| "sender_key (Response_Opaque (PeerMessage key _ _)) = Some key"
| "sender_key _ = None"

lemma outbound_send_frame:
  "peers (fst (outbound_send m c)) = peers c" "server_channel (fst (outbound_send m c)) = server_channel c"
  by (simp_all add: outbound_send_def)

lemma responder_frame:
  "peers (fst (peer_handshake_responder E random key len buf c)) k =
     (if k = key \<and> peers c key = None then peers (fst (peer_handshake_responder E random key len buf c)) key else peers c k)"
  using outbound_send_frame(1) [of _ "c\<lparr>peers := _\<rparr>"]
  by (auto simp: peer_handshake_responder_def outbound_send_def split: st_then_splits if_splits)

text \<open>
  C36: What arrives from one peer never disturbs the channel with another: handling a message
  changes at most the channel of the peer it came from. A handshake started by a peer leaves an
  existing channel with that peer as it is.
\<close>

theorem incoming_isolated:
  "(\<forall>k. Some k \<noteq> sender_key m \<longrightarrow> peers (fst (handle_incoming_message E random m c)) k = peers c k) \<and>
   (\<forall>k len buf. m = Response_Transparent (PeerHandshake k (Handshake_Initiator len buf)) \<longrightarrow> peers c k \<noteq> None \<longrightarrow>
      peers (fst (handle_incoming_message E random m c)) k = peers c k)"
proof -
  have R: "peers (fst (peer_handshake_responder E random key len buf c)) k = peers c k"
    if "k \<noteq> key \<or> peers c key \<noteq> None" for key len buf k
    using responder_frame [of E random key len buf c k] that by (auto split: if_splits)
  have "peers (fst (some_event r)) = peers (fst r)" for r :: "('a, 'b, client_event) client_result"
    by (auto simp: some_event_def split: st_then_splits)
  moreover have "peers (fst (client_server_handshake E len buf c)) k = peers c k" for len buf k
    by (auto simp: client_server_handshake_def Let_def split: st_then_splits option.splits protocol_state.splits)
  moreover have "peers (fst (peer_handshake_ack E key len buf c)) k = peers c k" if "k \<noteq> key" for key len buf k
    using that by (auto simp: peer_handshake_ack_def Let_def split: st_then_splits option.splits protocol_state.splits)
  moreover have "peers (fst (handle_relayed_message E key envelope sid c)) k = peers c k" if "k \<noteq> key" for key envelope sid k
    using that by (auto simp: handle_relayed_message_def split: st_then_splits option.splits)
  ultimately show ?thesis
    using R
    by (auto simp: handle_incoming_message_def Let_def split: response_message.splits transparent_message.splits
        handshake_message.splits opaque_message.splits option.splits st_then_splits)
qed

theorem incoming_isolated_witness:
  "peers (fst (handle_incoming_message sample_env 0 (Response_Transparent (PeerHandshake [7] (Handshake_Responder 1 [9])))
     (sample_client [5]\<lparr>peers := [[6] \<mapsto> Transport (0, 0)]\<rparr>))) [6] = Some (Transport (0, 0))"
  using incoming_isolated [of "Response_Transparent (PeerHandshake [7] (Handshake_Responder 1 [9]))" sample_env 0
      "sample_client [5]\<lparr>peers := [[6] \<mapsto> Transport (0, 0)]\<rparr>"]
  by simp

text \<open>
  A handshake reply from a peer whose channel is already established destroys the channel: it
  is removed before its mode is checked, and later messages to or from the peer fail with
  \<open>PeerNotFound\<close>.
\<close>

lemma stray_reply_destroys_channel:
  assumes "peers c key = Some (Transport t)"
  shows "\<exists>c'. handle_incoming_message E random (Response_Transparent (PeerHandshake key (Handshake_Responder len buf))) c =
      (c', Err Client_NotHandshakeState) \<and>
    relay E key payload enc broadcast sid c' = (c', Err (Client_PeerNotFound (hex_encode E key))) \<and>
    handle_incoming_message E random (Response_Opaque (PeerMessage key sid envelope)) c' =
      (c', Err (Client_PeerNotFound (hex_encode E key)))"
  using assms
  by (simp add: handle_incoming_message_def peer_handshake_ack_def some_event_def Let_def relay_def
      handle_relayed_message_def)

end
