(* ===== verification/Relay_Machine.thy ===== *)
theory Relay_Machine
  imports Relay_Server
begin

text \<open>
  The relay server as a state machine: its tasks (new sockets, socket readers and writers, the
  listener of each connection, waiting tasks, the reaper) as steps of one relation, with the
  invariant of every reachable state and the safety properties that follow from it: who can close
  a session, whose key a relayed message carries, and when a request can make the server panic.
\<close>

subsection \<open>The invariant is preserved\<close>

lemma inv_set_state_kind:
  assumes "server_inv s" and "conn_state (conns s c) = Some p" and "same_kind p q"
  shows "server_inv (set_state c (Some q) s)"
  using server_inv_quiet [OF assms(1) quiet_set_state [OF assms(2,3)]] .

lemma decoded_users_distinct:
  "stream_laws B \<Longrightarrow> decode ServerMessage_decode B r = Ok (NewMeeting owner users) \<Longrightarrow> distinct users"
  using server_codec.decode_sound by fastforce

lemma inv_then:
  assumes "server_inv (fst m)" and "\<And>s1 x. m = (s1, Ok x) \<Longrightarrow> server_inv s1 \<Longrightarrow> server_inv (fst (f s1 x))"
  shows "server_inv (fst (st_then m f id))"
  using assms by (cases "(m, f, id :: ('a, 'b) server_state \<Rightarrow> _)" rule: st_then.cases) auto

lemma server_request_inv:
  assumes "server_inv s" and "stream_laws (stream E)"
  shows "server_inv (fst (server_request E now new_id c envelope s))"
proof (cases "active s (conn_key (conns s c))")
  case (Some peer)
  then obtain t where t: "conn_state (conns s peer) = Some (Transport t)"
    using assms(1) by (auto simp: server_inv_def active_ok_def)
  obtain p r where d: "decrypt_server_channel (overflow_checks E) (snow E) (Transport t) envelope = (p, r)"
    by fastforce
  have I: "server_inv (set_state peer (Some p) s)"
    using inv_set_state_kind [OF assms(1) t] decrypt_kind [of "Transport t" "overflow_checks E" "snow E" envelope] d
    by simp
  have "server_inv (fst (st_then (set_state peer (Some p) s, map_err Server_Io (decode ServerMessage_decode (stream E) contents))
       (\<lambda>s request. st_then (service now new_id c key request s)
         (\<lambda>s response. case response of Some r \<Rightarrow> send_message E c r False s | None \<Rightarrow> (s, Ok ())) id) id))"
    for contents key
  proof (rule inv_then, goal_cases)
    case (2 s1 request)
    have "server_inv (fst (service now new_id c key request s1))"
      using 2 decoded_users_distinct [OF assms(2)] by (intro service_inv) auto
    then show ?case
      by (rule inv_then) (auto split: option.splits intro: server_inv_quiet quiet_send_message)
  qed (simp add: I)
  then show ?thesis
    using Some t d I by (cases r) (auto simp: server_request_def Let_def)
qed (simp add: server_request_def Let_def assms)

lemma handle_request_inv:
  assumes "server_inv s" and "c < next_conn s" and "stream_laws (stream E)"
  shows "server_inv (fst (handle_request E now new_id c message s))"
proof -
  have r: "server_inv (fst (relay_to E key m u))" if "server_inv u" for key m and u :: "('a, 'b) server_state"
    using server_inv_quiet [OF that quiet_relay_to] .
  have "server_inv (fst (st_then (check_session E now sid key s) (\<lambda>s _. relay_to E key (f s) s) id))" for sid key f
    by (rule inv_then) (auto intro: r check_session_inv assms(1))
  then show ?thesis
    using assms r server_handshake_inv [OF assms(1,2)] server_request_inv [OF assms(1,3)]
    by (auto simp: handle_request_def split: request_message.splits transparent_message.splits
        handshake_message.splits opaque_message.splits)
qed

subsection \<open>Connections stay allocated\<close>

lemma next_conn_quiet: "quiet s s' \<Longrightarrow> next_conn s' = next_conn s"
  by (simp add: quiet_def)

lemma next_conn_set_state [simp]:
  "next_conn (set_state c p s) = next_conn s" "next_conn (update_conn c f s) = next_conn s"
  "next_conn (promote_connection c s) = next_conn s" "next_conn (disconnect c s) = next_conn s"
  by (simp_all add: set_state_def update_conn_def promote_connection_def disconnect_def)

lemma inv_listen_one:
  assumes "server_inv s" and "c < next_conn s" and "stream_laws (stream E)"
  shows "server_inv (listen_one E now new_id c buffer s)"
proof -
  have close: "server_inv (close_incoming c u)" if "server_inv u" for u :: "('a, 'b) server_state"
    unfolding close_incoming_def by (rule inv_update_conn [OF that]) auto
  have "server_inv (fst (handle_error E c e u))" if "server_inv u" for e and u :: "('a, 'b) server_state"
    using server_inv_quiet [OF that quiet_handle_error] .
  then show ?thesis
    using assms(1) handle_request_inv [OF assms, of now new_id] close
    by (auto simp: listen_one_def split: outcome.splits prod.splits) (metis fst_conv)+
qed

lemma inv_listen:
  assumes "server_inv s" and "c < next_conn s" and "stream_laws (stream E)"
  shows "server_inv (listen E now new_id c s)"
  using assms
  by (auto simp: listen_def split: list.splits intro!: inv_listen_one inv_update_conn)

lemma inv_read_one: "server_inv s \<Longrightarrow> server_inv (fst (read_one E c msg s))"
  by (auto simp: read_one_def split: option.splits ws_message.splits outcome.splits
      intro!: inv_update_conn inv_disconnect intro: server_inv_quiet quiet_outgoing_send)

lemma inv_write_one: "server_inv s \<Longrightarrow> server_inv (fst (write_one c sent s))"
  by (auto simp: write_one_def close_outgoing_def Let_def split: list.splits
      intro!: inv_update_conn inv_disconnect)

lemma inv_run_tick: "server_inv s \<Longrightarrow> server_inv (run_tick E now i s)"
proof -
  assume "server_inv s"
  then have "server_inv (fst (tick E now (tasks s ! i) s))"
    using server_inv_quiet quiet_tick by blast
  then show ?thesis
    using \<open>server_inv s\<close> by (auto simp: run_tick_def server_inv_def split: prod.splits)
qed

lemma stores_fold_meetings:
  "stores_ok s \<Longrightarrow> stores_ok (s\<lparr>meetings := fold remove_meeting ids (meetings s)\<rparr>)"
proof (induction ids arbitrary: s)
  case (Cons i ids)
  from Cons.IH [OF stores_remove_meeting [OF Cons.prems, of i]] show ?case by simp
qed simp

lemma stores_fold_sessions:
  "stores_ok s \<Longrightarrow> stores_ok (s\<lparr>sessions := fold remove_session ids (sessions s)\<rparr>)"
proof (induction ids arbitrary: s)
  case (Cons i ids)
  from Cons.IH [OF stores_remove_session [OF Cons.prems, of i]] show ?case by simp
qed simp

lemma inv_fold_meetings:
  "server_inv s \<Longrightarrow> server_inv (s\<lparr>meetings := fold remove_meeting ids (meetings s)\<rparr>)"
  by (simp add: server_inv_def stores_fold_meetings)

lemma inv_fold_sessions:
  "server_inv s \<Longrightarrow> server_inv (s\<lparr>sessions := fold remove_session ids (sessions s)\<rparr>)"
  by (simp add: server_inv_def stores_fold_sessions)

lemma inv_purge: "server_inv s \<Longrightarrow> server_inv (fst (purge_expired E mc sc s))"
  unfolding purge_expired_def Let_def
proof (rule inv_then, simp, rule inv_then, goal_cases)
  case (1 s1 ids)
  then show ?case using inv_fold_meetings [of s1 ids] by simp
next
  case (2 s1 ids s2 expired)
  show ?case unfolding fst_conv using 2(5) by (rule inv_fold_sessions)
qed

lemma inv_upgrade: "server_inv s \<Longrightarrow> server_inv (fst (upgrade E new_id random key s))"
  unfolding upgrade_def Let_def
  by (auto split: st_then_splits)
     (auto simp: server_inv_def active_ok_def pending_ok_def stores_ok_def less_SucI split: if_splits)

subsection \<open>Steps and reachable states\<close>

text \<open>
  The guard of a step is that the connection exists and, for the listener, that it still runs. A
  socket reader or writer that has ended is not excluded from further steps, so the relation
  includes every behaviour of the server and possibly more.
\<close>

datatype relay_label =
    Connect bytes
  | Receive conn_ref "ws_message option"
  | Process conn_ref
  | Deliver conn_ref bool
  | Wait nat
  | Reap

inductive relay_step :: "('h, 't) env \<Rightarrow> ('h, 't) server_state \<Rightarrow> relay_label \<Rightarrow> ('h, 't) server_state \<Rightarrow> bool"
  for E :: "('h, 't) env" where
  connect: "relay_step E s (Connect key) (fst (upgrade E new_id random key s))"
| receive: "c < next_conn s \<Longrightarrow> relay_step E s (Receive c msg) (fst (read_one E c msg s))"
| process: "c < next_conn s \<Longrightarrow> incoming_open (conns s c) \<Longrightarrow>
    relay_step E s (Process c) (listen E now new_id c s)"
| deliver: "c < next_conn s \<Longrightarrow> relay_step E s (Deliver c sent) (fst (write_one c sent s))"
| wait: "i < length (tasks s) \<Longrightarrow> relay_step E s (Wait i) (run_tick E now i s)"
| reap: "relay_step E s Reap (fst (purge_expired E meeting_clock session_clock s))"

inductive_cases relay_stepE: "relay_step E s l s'"

inductive reachable :: "('h, 't) env \<Rightarrow> server_config \<Rightarrow> keypair \<Rightarrow> ('h, 't) server_state \<Rightarrow> bool"
  for E :: "('h, 't) env" and config k where
  start: "reachable E config k (RelayServer_new config k)"
| step: "reachable E config k s \<Longrightarrow> relay_step E s l s' \<Longrightarrow> reachable E config k s'"

lemma step_inv: "relay_step E s l s' \<Longrightarrow> stream_laws (stream E) \<Longrightarrow> server_inv s \<Longrightarrow> server_inv s'"
  by (induction rule: relay_step.induct)
     (auto intro: inv_upgrade inv_read_one inv_listen inv_write_one inv_run_tick inv_purge)

lemma reachable_inv: "reachable E config k s \<Longrightarrow> stream_laws (stream E) \<Longrightarrow> server_inv s"
  by (induction rule: reachable.induct) (auto intro: server_inv_new step_inv)

subsection \<open>Who removes a session\<close>

definition keeps_session :: "session_id \<Rightarrow> ('h, 't) server_state \<Rightarrow> ('h, 't) server_state \<Rightarrow> bool" where
  "keeps_session i s s' \<longleftrightarrow> (get_session (sessions s) i \<noteq> None \<longrightarrow> get_session (sessions s') i \<noteq> None)"

lemma keeps_session_same: "sessions s' = sessions s \<Longrightarrow> keeps_session i s s'"
  by (simp add: keeps_session_def)

lemma keeps_session_quiet: "quiet s s' \<Longrightarrow> keeps_session i s s'"
  by (simp add: keeps_session_same quiet_fields)

lemma keeps_session_trans: "keeps_session i s t \<Longrightarrow> keeps_session i t u \<Longrightarrow> keeps_session i s u"
  by (auto simp: keeps_session_def)

lemma sessions_frame [simp]:
  "sessions (set_state c p s) = sessions s" "sessions (promote_connection c s) = sessions s"
  "sessions (disconnect c s) = sessions s" "sessions (update_conn c f s) = sessions s"
  "sessions (close_incoming c s) = sessions s" "sessions (close_outgoing c s) = sessions s"
  by (simp_all add: set_state_def update_conn_def promote_connection_def disconnect_def
      close_incoming_def close_outgoing_def)

lemma sessions_send_response: "sessions (fst (send_response E c r s)) = sessions s"
  using quiet_fields(4) [OF quiet_send_response] .

lemma sessions_handshake: "sessions (fst (server_handshake E c len buf s)) = sessions s"
proof -
  have "send_response E c r (set_state c p s) = (u, w) \<Longrightarrow> sessions u = sessions s" for r p u w
    using sessions_send_response [of E c r "set_state c p s"] by simp
  then show ?thesis
    by (auto simp: server_handshake_def Let_def split: st_then_splits option.splits protocol_state.splits)
qed

lemma keeps_check_session: "keeps_session i s (fst (check_session E now sid key s))"
  by (cases sid)
     (auto simp: keeps_session_def check_session_def touch_session_def get_session_def Let_def
       split: option.splits prod.splits if_splits)

lemma service_keeps:
  assumes "get_session (sessions s) i = Some x" and "key \<noteq> owner_key x"
  shows "keeps_session i s (fst (service now new_id c key message s))"
  using assms
  by (cases message)
     (auto simp: service_def keeps_session_def get_session_def remove_session_def new_session_def Let_def
       split: option.splits if_splits)

lemma server_request_keeps:
  assumes "get_session (sessions s) i = Some x" and "conn_key (conns s c) \<noteq> owner_key x"
  shows "keeps_session i s (fst (server_request E now new_id c envelope s))"
proof -
  have K: "keeps_session i s (fst (st_then (set_state peer p s, w)
       (\<lambda>s request. st_then (service now new_id c (conn_key (conns s' c)) request s)
         (\<lambda>s response. case response of Some r \<Rightarrow> send_message E c r False s | None \<Rightarrow> (s, Ok ())) id) id))"
    if "conn_key (conns s' c) = conn_key (conns s c)" for peer p w s'
  proof -
    have "keeps_session i s (fst (service now new_id c (conn_key (conns s' c)) r (set_state peer p s)))" for r
      using service_keeps [of "set_state peer p s" i x "conn_key (conns s' c)" now new_id c r] assms that
      by (simp add: keeps_session_def)
    moreover have "keeps_session i u (fst (send_message E c r False u))" for r and u :: "('a, 'b) server_state"
      by (rule keeps_session_quiet [OF quiet_send_message])
    ultimately show ?thesis
      by (auto split: st_then_splits option.splits intro: keeps_session_same)
         (metis fst_conv keeps_session_trans)+
  qed
  show ?thesis
    using K [OF refl]
    by (auto simp: server_request_def Let_def split: option.splits st_then_splits prod.splits
        intro: keeps_session_same)
qed

lemma handle_request_keeps:
  assumes "get_session (sessions s) i = Some x" and "conn_key (conns s c) \<noteq> owner_key x"
  shows "keeps_session i s (fst (handle_request E now new_id c message s))"
proof -
  have relay: "keeps_session i u (fst (relay_to E key m u))" for key m and u :: "('a, 'b) server_state"
    by (rule keeps_session_quiet [OF quiet_relay_to])
  have "keeps_session i s (fst (st_then (check_session E now sid key s) (\<lambda>s _. relay_to E key (f s) s) id))" for sid key f
    using keeps_check_session [of i s E now sid key]
    by (auto split: st_then_splits) (metis relay fst_conv keeps_session_trans)+
  then show ?thesis
    using relay server_request_keeps [OF assms] keeps_session_same [OF sessions_handshake]
    by (auto simp: handle_request_def keeps_session_same split: request_message.splits
        transparent_message.splits handshake_message.splits opaque_message.splits)
qed

lemma listen_keeps:
  assumes "get_session (sessions s) i = Some x" and "conn_key (conns s c) \<noteq> owner_key x"
  shows "keeps_session i s (listen E now new_id c s)"
proof -
  have "keeps_session i s (listen_one E now new_id c buffer (update_conn c f s))"
    if f: "conn_key (f (conns s c)) = conn_key (conns s c)" for buffer f
  proof -
    let ?u = "update_conn c f s"
    have H: "keeps_session i s (fst (handle_request E now new_id c m ?u))" for m
      using handle_request_keeps [of ?u i x c E now new_id m] assms f
      by (simp add: keeps_session_def) (simp add: update_conn_def)
    have X: "keeps_session i v (fst (handle_error E c e v))" for e and v :: "('a, 'b) server_state"
      by (rule keeps_session_quiet [OF quiet_handle_error])
    have C: "keeps_session i v (close_incoming c v)" for v :: "('a, 'b) server_state"
      by (rule keeps_session_same) simp
    show ?thesis
      using C [of ?u]
      by (auto simp: listen_one_def split: outcome.splits prod.splits intro: keeps_session_same)
         (metis H X C fst_conv keeps_session_trans)+
  qed
  then show ?thesis
    by (auto simp: listen_def keeps_session_same split: list.splits)
qed

lemma step_keeps_session:
  assumes "relay_step E s l s'" and "get_session (sessions s) i = Some x"
    and "get_session (sessions s') i = None"
  shows "l = Reap \<or> (\<exists>c. l = Process c \<and> conn_key (conns s c) = owner_key x)"
proof -
  have q: "\<not> quiet s s'" using assms(2,3) quiet_fields(4) [of s s'] by auto
  have d: "sessions s' \<noteq> sessions s" using assms(2,3) by auto
  from assms(1) show ?thesis
  proof cases
    case (connect key new_id random)
    have "sessions (fst (upgrade E new_id random key s)) = sessions s"
      by (auto simp: upgrade_def Let_def split: st_then_splits)
    then show ?thesis using connect d by simp
  next
    case (receive c msg)
    have "sessions (fst (read_one E c msg s)) = sessions s"
      using quiet_fields(4) [OF quiet_outgoing_send]
      by (auto simp: read_one_def split: option.splits ws_message.splits outcome.splits)
    then show ?thesis using receive d by simp
  next
    case (process c now new_id)
    then show ?thesis
      using listen_keeps [OF assms(2), of c E now new_id] assms(2,3) by (auto simp: keeps_session_def)
  next
    case (deliver c sent)
    have "sessions (fst (write_one c sent s)) = sessions s"
      by (auto simp: write_one_def Let_def split: list.splits)
    then show ?thesis using deliver d by simp
  next
    case (wait j now)
    have "sessions (run_tick E now j s) = sessions s"
      using quiet_fields(4) [OF quiet_tick [of s E now "tasks s ! j"]]
      by (auto simp: run_tick_def split: prod.splits)
    then show ?thesis using wait d by simp
  qed simp
qed

subsection \<open>A concrete environment\<close>

definition sample_keys :: keypair where
  "sample_keys = \<lparr>kp_public = [1], kp_private = [2]\<rparr>"

definition connected :: "(bool \<times> nat, nat \<times> nat) server_state" where
  "connected = fst (upgrade sample_env sample_uuid 0 [9] (RelayServer_new open_config sample_keys))"

lemma connected_reachable: "reachable sample_env open_config sample_keys connected"
  unfolding connected_def by (rule reachable.step [OF reachable.start connect])

lemma connected_state: "connected = (RelayServer_new open_config sample_keys)
    \<lparr>conns := (\<lambda>_. no_connection)(0 := \<lparr>conn_id = sample_uuid, conn_key = [9], outgoing = [], outgoing_open = True,
        incoming = [], incoming_open = True, conn_state = Some (Handshake (False, 0))\<rparr>),
     next_conn := 1, pending := [sample_uuid \<mapsto> 0]\<rparr>"
  by (simp add: connected_def upgrade_def RelayServer_new_def open_config_def sample_env_def
      counter_snow_def Let_def)

text \<open>A state with two active clients and a session of the first with the second.\<close>

definition sample_session :: session where
  "sample_session = \<lparr>owner_key = [1], session_participant_keys = [[2]], session_connections = [],
     session_last_access = 0\<rparr>"

definition client_conn :: "bytes \<Rightarrow> (bool \<times> nat, nat \<times> nat) connection" where
  "client_conn key = \<lparr>conn_id = key, conn_key = key, outgoing = [], outgoing_open = True,
     incoming = [], incoming_open = True, conn_state = Some (Transport (0, 0))\<rparr>"

definition sample_state :: "(bool \<times> nat, nat \<times> nat) server_state" where
  "sample_state = (RelayServer_new open_config sample_keys)
     \<lparr>conns := (\<lambda>_. no_connection)(0 := client_conn [1], 1 := client_conn [2]), next_conn := 2,
      active := [[1] \<mapsto> 0, [2] \<mapsto> 1], sessions := [(sample_uuid, sample_session)]\<rparr>"

subsection \<open>Properties\<close>

text \<open>
  C2: In every reachable state of the server an active entry refers to a connection that offered
  this public key and completed the handshake, a pending entry to a connection with this
  identifier that has not, no connection is both, and the identifiers of meetings and sessions are
  unique.
\<close>

theorem reachable_states_consistent:
  assumes "stream_laws (stream E)" and "reachable E config k s"
  shows "(\<forall>key c. active s key = Some c \<longrightarrow>
      c < next_conn s \<and> conn_key (conns s c) = key \<and> (\<exists>t. conn_state (conns s c) = Some (Transport t))) \<and>
    (\<forall>i c. pending s i = Some c \<longrightarrow>
      c < next_conn s \<and> conn_id (conns s c) = i \<and> (\<forall>t. conn_state (conns s c) \<noteq> Some (Transport t))) \<and>
    ran (pending s) \<inter> ran (active s) = {} \<and>
    distinct (map fst (meetings s)) \<and> distinct (map fst (sessions s))"
proof -
  have I: "active_ok s" "pending_ok s" "stores_ok s"
    using reachable_inv [OF assms(2,1)] by (auto simp: server_inv_def)
  moreover have "ran (pending s) \<inter> ran (active s) = {}"
    using I(1,2) by (fastforce simp: active_ok_def pending_ok_def ran_def)
  ultimately show ?thesis
    by (simp add: active_ok_def pending_ok_def stores_ok_def)
qed

theorem reachable_states_consistent_witness:
  "pending connected sample_uuid = Some 0 \<and> conn_id (conns connected 0) = sample_uuid \<and>
   ran (active connected) = {}"
proof -
  have "stream_laws (stream sample_env)" by (simp add: sample_env_def le_stream_laws)
  from reachable_states_consistent [OF this connected_reachable] show ?thesis
    by (simp add: connected_state RelayServer_new_def)
qed

text \<open>
  C9: A session disappears only if the reaper removes it or its owner asks for it: no step of any
  other connection, whatever it sends, removes it.
\<close>

theorem only_owner_closes_session:
  assumes "relay_step E s l s'" and "get_session (sessions s) i = Some x"
    and "get_session (sessions s') i = None"
  shows "l = Reap \<or> (\<exists>c. l = Process c \<and> conn_key (conns s c) = owner_key x)"
  using assms by (rule step_keeps_session)

theorem only_owner_closes_session_witness:
  "\<exists>s'. relay_step sample_env sample_state Reap s' \<and> get_session (sessions s') sample_uuid = None \<and>
     (Reap = Reap \<or> (\<exists>c. Reap = Process c \<and> conn_key (conns sample_state c) = owner_key sample_session))"
proof -
  let ?s = "fst (purge_expired sample_env (\<lambda>_. 0) (\<lambda>_. 301 * 1000000000) sample_state)"
  have step: "relay_step sample_env sample_state Reap ?s" by (rule reap)
  have "get_session (sessions sample_state) sample_uuid = Some sample_session"
    by (simp add: sample_state_def get_session_def)
  moreover have "get_session (sessions ?s) sample_uuid = None"
    by (simp add: purge_expired_def sample_state_def sample_env_def RelayServer_new_def open_config_def
        SessionConfig_default_def expired_meetings_def expired_sessions_def ttl_expired_def checked_mul_def
        time_checked_add_def system_time_max_def sample_session_def get_session_def remove_session_def Let_def)
  ultimately show ?thesis using only_owner_closes_session [OF step] step by blast
qed

text \<open>
  C12: A peer message that the server accepts is appended, stamped with the public key of the
  connection it came from, to the queue of the active connection of its target and to no other
  queue; with a session identifier the session exists and the target is one of its participants.
  A message it refuses reaches no queue.
\<close>

theorem peer_message_relayed:
  "case handle_request E now new_id c (Request_Opaque (PeerMessage key sid envelope)) s of (s', r) \<Rightarrow>
     (if r = Ok () then
        (\<exists>peer buffer frame. active s key = Some peer \<and>
          encode ResponseMessage_encode (stream E)
            (Response_Opaque (PeerMessage (conn_key (conns s c)) sid envelope)) = Ok buffer \<and>
          deflate E buffer = Ok frame \<and>
          conns s' = (conns s)(peer := (conns s peer)
            \<lparr>outgoing := outgoing (conns s peer) @ [WsBinary frame]\<rparr>) \<and>
          (\<forall>i. sid = Some i \<longrightarrow> (\<exists>x. get_session (sessions s) i = Some x \<and> key \<in> set (public_keys x))))
      else conns s' = conns s)"
proof -
  obtain s1 r1 where c: "check_session E now sid key s = (s1, r1)" by fastforce
  have f: "conns s1 = conns s" "active s1 = active s"
    using check_session_frame [of E now sid key s] c by auto
  have r: "r1 = Ok () \<longrightarrow> (\<forall>i. sid = Some i \<longrightarrow> (\<exists>x. get_session (sessions s) i = Some x \<and> key \<in> set (public_keys x)))"
    using c by (cases sid) (auto simp: check_session_def touch_session_def get_session_def Let_def
        public_keys_def list_ex_iff split: option.splits if_splits)
  show ?thesis
    using c f r
    by (cases r1)
       (auto simp: handle_request_def relay_to_def send_response_def conn_send_def outgoing_send_def
         update_conn_def split: option.splits st_then_splits if_splits)
qed

theorem peer_message_relayed_witness:
  "\<exists>frame. outgoing (conns (fst (handle_request sample_env 5 [] 0
      (Request_Opaque (PeerMessage [2] (Some sample_uuid) sample_envelope)) sample_state)) 1) = [WsBinary frame]"
proof -
  let ?m = "Request_Opaque (PeerMessage [2] (Some sample_uuid) sample_envelope)"
  obtain s' r where h: "handle_request sample_env 5 [] 0 ?m sample_state = (s', r)" by fastforce
  obtain buffer where "encode ResponseMessage_encode le_stream
      (Response_Opaque (PeerMessage [1] (Some sample_uuid) sample_envelope)) = Ok buffer"
    using response_message_codec.decode_encode [OF le_stream_laws,
        of "Response_Opaque (PeerMessage [1] (Some sample_uuid) sample_envelope)"]
    by (auto simp: buffer_ok_def MAX_BUFFER_SIZE_def)
  then have "r = Ok ()"
    using h by (auto simp: handle_request_def check_session_def touch_session_def sample_state_def
        relay_to_def send_response_def conn_send_def outgoing_send_def sample_env_def client_conn_def
        deflate_def sample_session_def public_keys_def Let_def)
  then show ?thesis
    using peer_message_relayed [where E = sample_env and now = 5 and new_id = "[]" and c = 0 and key = "[2]"
        and sid = "Some sample_uuid" and envelope = sample_envelope and s = sample_state] h
    by (auto simp: sample_state_def client_conn_def)
qed

text \<open>
  C32: The reaper removes exactly the meetings and the sessions that were last used longer ago than
  the configured timeout and keeps all others unchanged; it neither panics nor overflows for
  timeouts below \<open>2 ^ 64\<close> milliseconds.
\<close>

theorem reaper_exact:
  assumes "server_inv s" and "unat (cfg_timeout (cfg_session (srv_config s))) * 1000 < 2 ^ 64"
  shows "\<exists>s'. purge_expired E meeting_clock session_clock s = (s', Ok ()) \<and>
    (\<forall>i. get_meeting (meetings s') i =
      (case get_meeting (meetings s) i of
         None \<Rightarrow> None
       | Some m \<Rightarrow>
           if meeting_last_access m + secs (cfg_timeout (cfg_session (srv_config s))) < meeting_clock i \<and>
              meeting_last_access m + secs (cfg_timeout (cfg_session (srv_config s))) \<le> system_time_max
           then None else Some m)) \<and>
    (\<forall>i. get_session (sessions s') i =
      (case get_session (sessions s) i of
         None \<Rightarrow> None
       | Some x \<Rightarrow>
           if session_last_access x + secs (cfg_timeout (cfg_session (srv_config s))) < session_clock i \<and>
              session_last_access x + secs (cfg_timeout (cfg_session (srv_config s))) \<le> system_time_max
           then None else Some x))"
proof -
  let ?t = "cfg_timeout (cfg_session (srv_config s))"
  have d: "distinct (map fst (meetings s))" "distinct (map fst (sessions s))"
    using assms(1) by (auto simp: server_inv_def stores_ok_def)
  obtain ms where ms: "expired_meetings (overflow_checks E) ?t meeting_clock (meetings s) =
      (Ok ms :: (server_error, _) outcome)"
    "\<And>i. get_meeting (fold remove_meeting ms (meetings s)) i =
      (case get_meeting (meetings s) i of None \<Rightarrow> None
       | Some m \<Rightarrow> if meeting_last_access m + unat ?t * 1000000000 < meeting_clock i \<and>
              meeting_last_access m + unat ?t * 1000000000 \<le> system_time_max then None else Some m)"
    using meeting_store.purge_exact [OF d(1) assms(2), of "overflow_checks E" meeting_clock] by blast
  obtain ss where ss: "expired_sessions (overflow_checks E) ?t session_clock (sessions s) =
      (Ok ss :: (server_error, _) outcome)"
    "\<And>i. get_session (fold remove_session ss (sessions s)) i =
      (case get_session (sessions s) i of None \<Rightarrow> None
       | Some x \<Rightarrow> if session_last_access x + unat ?t * 1000000000 < session_clock i \<and>
              session_last_access x + unat ?t * 1000000000 \<le> system_time_max then None else Some x)"
    using session_store.purge_exact [OF d(2) assms(2), of "overflow_checks E" session_clock] by blast
  show ?thesis
    unfolding purge_expired_def secs_def using ms(1) ss(1)
    by (simp add: Let_def ms(2) ss(2))
qed

theorem reaper_exact_witness:
  "\<exists>s'. purge_expired sample_env (\<lambda>_. 0) (\<lambda>_. 300 * 1000000000) sample_state = (s', Ok ()) \<and>
     get_session (sessions s') sample_uuid = Some sample_session"
proof -
  have "server_inv sample_state"
    by (auto simp: server_inv_def active_ok_def pending_ok_def stores_ok_def sample_state_def
        RelayServer_new_def client_conn_def sample_session_def split: if_splits)
  moreover have "unat (cfg_timeout (cfg_session (srv_config sample_state))) * 1000 < 2 ^ 64"
    by (simp add: sample_state_def RelayServer_new_def open_config_def SessionConfig_default_def)
  ultimately show ?thesis
    using reaper_exact [of sample_state sample_env "\<lambda>_. 0" "\<lambda>_. 300 * 1000000000"]
    by (auto simp: sample_state_def get_session_def RelayServer_new_def open_config_def
        SessionConfig_default_def secs_def sample_session_def system_time_max_def)
qed




subsection \<open>When a request can panic\<close>

lemma conn_send_safe: "env_safe E \<Longrightarrow> snd (conn_send E c buffer s) \<noteq> Panic"
  by (auto simp: conn_send_def outgoing_send_def deflate_def env_safe_def never_panics_def
      split: st_then_splits if_splits)

lemma send_response_safe:
  "env_safe E \<Longrightarrow> ResponseMessage_encode (stream E) r \<noteq> Panic \<Longrightarrow> snd (send_response E c r s) \<noteq> Panic"
  using conn_send_safe by (auto simp: send_response_def encode_def split: st_then_splits)

lemma split_pieces_safe: "transport_safe S \<Longrightarrow> snd (split_pieces S pieces t) \<noteq> Panic"
proof (induction pieces arbitrary: t)
  case (Cons p pieces)
  then show ?case
    by (auto split: st_then_splits dest!: transport_write_safe [OF Cons.prems])
      (metis Cons.IH Cons.prems snd_conv)
qed simp

lemma encrypt_safe: "transport_safe S \<Longrightarrow> snd (encrypt_server_channel S p payload broadcast) \<noteq> Panic"
  using split_pieces_safe [of S "chunks_of CHUNK_SIZE payload"]
  by (cases p) (auto simp: Chunk_split_def split: st_then_splits, metis snd_conv)

lemma send_message_safe:
  assumes "env_safe E" and "m \<noteq> Server_Noop" and "conn_state (conns s c) \<noteq> None"
  shows "snd (send_message E c m broadcast s) \<noteq> Panic"
proof -
  have r: "snd (send_response E c (Response_Opaque (Opaque_ServerMessage e)) u) \<noteq> Panic" for e u
    using assms(1) by (intro send_response_safe response_opaque_no_Panic) (auto simp: env_safe_def)
  have "ServerMessage_encode (stream E) m \<noteq> Panic"
    using assms by (intro server_no_Panic) (auto simp: env_safe_def)
  moreover have "encrypt_server_channel (snow E) p payload broadcast \<noteq> (q, Panic)" for p payload q
    using encrypt_safe [of "snow E" p payload broadcast] assms(1) by (auto simp: env_safe_def)
  ultimately show ?thesis
    using assms(3) r
    by (auto simp: send_message_def encode_def split: st_then_splits option.splits)
qed

lemma handle_error_safe:
  assumes "env_safe E"
  shows "snd (handle_error E c e s) \<noteq> Panic"
proof (cases "in_transport s c")
  case True
  then show ?thesis
    using send_message_safe [OF assms, of "Server_Error INTERNAL_SERVER_ERROR (display E e)" s c False]
    by (auto simp: handle_error_def)
next
  case False
  have "snd (send_response E c (Response_Transparent (Transparent_Error INTERNAL_SERVER_ERROR (display E e))) s) \<noteq> Panic"
    using assms by (intro send_response_safe response_transparent_no_Panic) (auto simp: env_safe_def)
  then show ?thesis
    using False by (auto simp: handle_error_def split: option.splits protocol_state.splits)
qed

lemma server_handshake_safe:
  assumes "env_safe E" and "len \<le> length buf"
  shows "snd (server_handshake E c len buf s) \<noteq> Panic"
proof -
  have h: "handshake_read (snow E) h m n \<noteq> (q, Panic)" "handshake_write (snow E) h m n \<noteq> (q, Panic)"
    "into_transport_mode (snow E) h \<noteq> Panic" for h m n q
    using assms(1) by (auto simp: env_safe_def handshake_safe_def) (metis snd_conv)+
  have r: "send_response E c (Response_Transparent (ServerHandshake (Handshake_Responder l b))) u \<noteq> (v, Panic)" for l b u v
    using send_response_safe [OF assms(1), of "Response_Transparent (ServerHandshake (Handshake_Responder l b))" c u]
      response_transparent_no_Panic [of "stream E" "ServerHandshake (Handshake_Responder l b)"] assms(1)
    by (auto simp: env_safe_def)
  have kind: "\<exists>h'. conn_state (conns v c) = Some (Handshake h')"
    if "send_response E c m (set_state c (Some (Handshake h0)) s) = (v, Ok ())" for m h0 v
  proof -
    let ?u = "set_state c (Some (Handshake h0)) s"
    have "quiet ?u v" using quiet_send_response [of ?u E c m] that by simp
    then have "rel_option same_kind (Some (Handshake h0)) (conn_state (conns v c))"
      by (auto simp: quiet_def quiet_conn_def set_state_def update_conn_def dest: spec [of _ c])
    then show ?thesis by (auto simp: option_rel_Some1 elim: same_kind.elims)
  qed
  show ?thesis
    using assms(2) h r
    by (auto simp: server_handshake_def Let_def split: option.splits protocol_state.splits st_then_splits)
       (use kind in fastforce)+
qed

lemma relay_to_safe:
  "env_safe E \<Longrightarrow> ResponseMessage_encode (stream E) r \<noteq> Panic \<Longrightarrow> snd (relay_to E key r s) \<noteq> Panic"
  using send_response_safe by (auto simp: relay_to_def split: option.splits)

lemma service_conns:
  "conns (fst (service now new_id c key m s)) = conns s"
  "snd (service now new_id c key m s) \<noteq> Panic"
  "snd (service now new_id c key m s) \<noteq> Ok (Some Server_Noop)"
  by (cases m; auto simp: service_def Let_def split: option.splits)+

lemma server_request_safe:
  assumes "env_safe E" and "server_inv s" and "conn_state (conns s c) \<noteq> None"
    and "\<forall>x\<in>set (env_chunks envelope). chunk_length x \<le> length (chunk_contents x)"
  shows "snd (server_request E now new_id c envelope s) \<noteq> Panic"
proof (cases "active s (conn_key (conns s c))")
  case (Some peer)
  then obtain t where t: "conn_state (conns s peer) = Some (Transport t)"
    using assms(2) by (auto simp: server_inv_def active_ok_def)
  obtain p r where d: "decrypt_server_channel (overflow_checks E) (snow E) (Transport t) envelope = (p, r)"
    by fastforce
  have "snd (Chunk_join (overflow_checks E) (snow E) (env_chunks envelope) t) \<noteq> Panic"
    using Chunk_join_safe [OF _ assms(4), of "snow E" "overflow_checks E" t] assms(1) by (auto simp: env_safe_def)
  then have r: "r \<noteq> Panic" using d by (auto split: st_then_splits)
  let ?u = "set_state peer (Some p) s"
  have some: "conn_state (conns ?u c) \<noteq> None"
    using assms(3) by (auto simp: set_state_def update_conn_def)
  have "decode ServerMessage_decode (stream E) x \<noteq> Panic" for x
    using server_codec.decode_safe assms(1) by (auto simp: env_safe_def)
  moreover have "send_message E c m False v \<noteq> (w, Panic)"
    if "service now new_id c k q ?u = (v, Ok (Some m))" for k q m v w
  proof -
    have "m \<noteq> Server_Noop" "conns v = conns ?u"
      using service_conns(1,3) [of now new_id c k q ?u] that by auto
    then show ?thesis
      using send_message_safe [OF assms(1), of m v c False] some by auto
  qed
  moreover have "service now new_id c k q ?u \<noteq> (w, Panic)" for k q w
    using service_conns(2) [of now new_id c k q ?u] by auto
  ultimately show ?thesis
    using Some t d r
    by (auto simp: server_request_def Let_def split: st_then_splits option.splits prod.splits)
       (metis prod.collapse)+
qed (simp add: server_request_def Let_def)

lemma handle_request_safe:
  assumes "env_safe E" and "server_inv s"
    and "request_message_ok (stream E) m"
    and "\<And>len buf. m = Request_Transparent (ServerHandshake (Handshake_Initiator len buf)) \<Longrightarrow> len \<le> length buf"
    and "\<And>e. m = Request_Opaque (Opaque_ServerMessage e) \<Longrightarrow> conn_state (conns s c) \<noteq> None \<and>
      (\<forall>x\<in>set (env_chunks e). chunk_length x \<le> length (chunk_contents x))"
  shows "snd (handle_request E now new_id c m s) \<noteq> Panic"
proof -
  have B: "stream_laws (stream E)" using assms(1) by (simp add: env_safe_def)
  have "snd (check_session E now sid key s) \<noteq> Panic" for sid key
    by (cases sid) (auto simp: check_session_def Let_def split: option.splits prod.splits)
  then have "snd (st_then (check_session E now sid key s)
      (\<lambda>s _. relay_to E key (Response_Opaque (PeerMessage (f s) sid e)) s) id) \<noteq> Panic" for sid key f e
    using relay_to_safe [OF assms(1)] response_opaque_no_Panic [OF B]
    by (auto split: st_then_splits) (metis snd_conv)
  moreover have "snd (relay_to E key (Response_Transparent (PeerHandshake key' h)) s) \<noteq> Panic"
    if "handshake_ok h" for key key' h
    using that by (intro relay_to_safe [OF assms(1)] response_transparent_no_Panic [OF B]) auto
  ultimately show ?thesis
    using assms(3-5) server_handshake_safe [OF assms(1)] server_request_safe [OF assms(1,2)]
    by (auto simp: handle_request_def split: request_message.splits transparent_message.splits
        handshake_message.splits opaque_message.splits)
qed

lemma handle_request_panics:
  assumes "env_safe E" and "server_inv s" and "request_message_ok (stream E) m"
    and "snd (handle_request E now new_id c m s) = Panic"
  shows "(\<exists>len buf h. m = Request_Transparent (ServerHandshake (Handshake_Initiator len buf)) \<and>
      conn_state (conns s c) = Some (Handshake h) \<and> length buf < len) \<or>
    (\<exists>e. m = Request_Opaque (Opaque_ServerMessage e) \<and> active s (conn_key (conns s c)) \<noteq> None \<and>
      ((\<exists>x\<in>set (env_chunks e). length (chunk_contents x) < chunk_length x) \<or> conn_state (conns s c) = None))"
proof -
  consider (handshake) len buf where "m = Request_Transparent (ServerHandshake (Handshake_Initiator len buf))" "length buf < len"
    | (request) e where "m = Request_Opaque (Opaque_ServerMessage e)"
    using handle_request_safe [OF assms(1-3)] assms(4) by (metis not_le)
  then show ?thesis
  proof cases
    case handshake
    then have "\<exists>h. conn_state (conns s c) = Some (Handshake h)"
      using assms(4) by (auto simp: handle_request_def server_handshake_def split: option.splits protocol_state.splits)
    with handshake show ?thesis by blast
  next
    case request
    then have "snd (server_request E now new_id c e s) = Panic" using assms(4) by (simp add: handle_request_def)
    moreover from this have "(\<exists>x\<in>set (env_chunks e). length (chunk_contents x) < chunk_length x) \<or> conn_state (conns s c) = None"
      using server_request_safe [OF assms(1,2), of c e now new_id] by (meson not_le)
    moreover from calculation(1) have "active s (conn_key (conns s c)) \<noteq> None"
      by (cases "active s (conn_key (conns s c))") (simp_all add: server_request_def)
    ultimately show ?thesis using request by blast
  qed
qed

text \<open>
  C20: In a reachable state, a decoded request of a connection panics only in three ways: a
  handshake message that declares more bytes than it carries, on a connection in the handshake,
  where it always does; an encrypted request with a chunk that does; and an encrypted request on a
  connection without a channel state, which is what a handshake that fails at its last step leaves,
  while the key of the connection is active over another one. Every other request, of any kind and
  with any content, ends with success or with an error, and reporting an error never panics.
\<close>

theorem request_panic_condition:
  assumes "env_safe E" and "reachable E config k s" and "request_message_ok (stream E) m"
  shows "(snd (handle_request E now new_id c m s) = Panic \<longrightarrow>
      (\<exists>len buf h. m = Request_Transparent (ServerHandshake (Handshake_Initiator len buf)) \<and>
         conn_state (conns s c) = Some (Handshake h) \<and> length buf < len) \<or>
      (\<exists>e. m = Request_Opaque (Opaque_ServerMessage e) \<and> active s (conn_key (conns s c)) \<noteq> None \<and>
         ((\<exists>x\<in>set (env_chunks e). length (chunk_contents x) < chunk_length x) \<or> conn_state (conns s c) = None))) \<and>
    (\<forall>len buf h. conn_state (conns s c) = Some (Handshake h) \<and> length buf < len \<longrightarrow>
      snd (handle_request E now new_id c (Request_Transparent (ServerHandshake (Handshake_Initiator len buf))) s) = Panic) \<and>
    (\<forall>e. snd (handle_error E c e (fst (handle_request E now new_id c m s))) \<noteq> Panic)"
proof -
  have i: "server_inv s" using assms(1) reachable_inv [OF assms(2)] by (auto simp: env_safe_def)
  show ?thesis
    using handle_request_panics [OF assms(1) i assms(3)] handle_error_safe [OF assms(1)]
    by (auto simp: handle_request_def server_handshake_def)
qed

theorem request_panic_condition_witness:
  "snd (handle_request sample_env 0 [] 0 (Request_Transparent (ServerHandshake (Handshake_Initiator 1 [1, 0]))) connected)
     \<noteq> Panic \<and>
   snd (handle_request sample_env 0 [] 0 (Request_Transparent (ServerHandshake (Handshake_Initiator 3 [1, 0]))) connected)
     = Panic"
proof -
  let ?m = "Request_Transparent (ServerHandshake (Handshake_Initiator 1 [1, 0]))"
  obtain h where "conn_state (conns connected 0) = Some (Handshake h)" by (auto simp: connected_state)
  moreover have "request_message_ok (stream sample_env) ?m" by (simp add: buffer_ok_def MAX_BUFFER_SIZE_def)
  ultimately show ?thesis
    using request_panic_condition [OF sample_env_safe connected_reachable, of ?m 0 "[]" 0] by fastforce
qed

subsection \<open>Access control and session requests\<close>

definition same_keys :: "('h, 't) server_state \<Rightarrow> ('h, 't) server_state \<Rightarrow> bool" where
  "same_keys s s' \<longleftrightarrow> srv_config s' = srv_config s \<and> next_conn s' = next_conn s \<and>
     (\<forall>c. conn_key (conns s' c) = conn_key (conns s c))"

lemma same_keys_refl [simp]: "same_keys s s"
  by (simp add: same_keys_def)

lemma same_keys_trans: "same_keys s t \<Longrightarrow> same_keys t u \<Longrightarrow> same_keys s u"
  by (simp add: same_keys_def)

lemma same_keys_quiet: "quiet s s' \<Longrightarrow> same_keys s s'"
  by (simp add: same_keys_def quiet_fields)

lemma same_keys_update:
  "(\<And>x. conn_key (f x) = conn_key x) \<Longrightarrow> same_keys s (update_conn c f s)"
  by (simp add: same_keys_def update_conn_def)

lemma same_keys_ops [simp]:
  "same_keys s (set_state c p s)" "same_keys s (promote_connection c s)" "same_keys s (disconnect c s)"
  "same_keys s (close_incoming c s)" "same_keys s (close_outgoing c s)"
  "same_keys s (s\<lparr>tasks := ts\<rparr>)" "same_keys s (s\<lparr>meetings := ms\<rparr>)" "same_keys s (s\<lparr>sessions := xs\<rparr>)"
  by (simp_all add: set_state_def promote_connection_def disconnect_def close_incoming_def
      close_outgoing_def same_keys_update) (simp_all add: same_keys_def)

lemma same_keys_then:
  assumes "same_keys s (fst m)" and "\<And>s1 x. m = (s1, Ok x) \<Longrightarrow> same_keys s1 (fst (f s1 x))"
  shows "same_keys s (fst (st_then m f id))"
  using assms by (cases "(m, f, id :: ('a, 'b) server_state \<Rightarrow> _)" rule: st_then.cases)
    (auto intro: same_keys_trans)

lemma same_keys_handshake: "same_keys s (fst (server_handshake E c len buf s))"
proof -
  have "same_keys s (fst (send_response E c r (set_state c p s)))" for r p
    by (rule same_keys_trans [OF same_keys_ops(1) same_keys_quiet [OF quiet_send_response]])
  then have "send_response E c r (set_state c p s) = (u, w) \<Longrightarrow> same_keys s u" for r p u w
    by (metis fst_conv)
  then show ?thesis
    by (auto simp: server_handshake_def Let_def split: st_then_splits option.splits protocol_state.splits
        intro: same_keys_trans)
       (meson same_keys_ops same_keys_trans)+
qed

lemma same_keys_service: "same_keys s (fst (service now new_id c key m s))"
  by (cases m) (auto simp: service_def same_keys_def Let_def split: option.splits)

lemma same_keys_server_request: "same_keys s (fst (server_request E now new_id c envelope s))"
proof -
  have "same_keys s (fst (st_then (set_state peer p s, w)
       (\<lambda>s request. st_then (service now new_id c k request s)
         (\<lambda>s response. case response of Some r \<Rightarrow> send_message E c r False s | None \<Rightarrow> (s, Ok ())) id) id))"
    for peer p w k
    by (rule same_keys_then, simp, rule same_keys_then, rule same_keys_service)
       (auto split: option.splits intro: same_keys_quiet quiet_send_message)
  then show ?thesis
    by (auto simp: server_request_def Let_def split: option.splits st_then_splits prod.splits)
qed

lemma same_keys_handle_request: "same_keys s (fst (handle_request E now new_id c m s))"
proof -
  have "same_keys s (fst (check_session E now sid key s))" for sid key
    by (cases sid) (auto simp: check_session_def Let_def split: option.splits prod.splits)
  then have "same_keys s (fst (st_then (check_session E now sid key s) (\<lambda>s _. relay_to E key (f s) s) id))"
    for sid key f
    by (rule same_keys_then) (rule same_keys_quiet [OF quiet_relay_to])
  then show ?thesis
    using same_keys_handshake same_keys_server_request same_keys_quiet [OF quiet_relay_to]
    by (auto simp: handle_request_def split: request_message.splits transparent_message.splits
        handshake_message.splits opaque_message.splits)
qed

lemma same_keys_listen: "same_keys s (listen E now new_id c s)"
proof -
  have "same_keys u (listen_one E now new_id c b u)" for b and u :: "('a, 'b) server_state"
  proof -
    have C: "same_keys v (close_incoming c v)" for v :: "('a, 'b) server_state" by simp
    have H: "same_keys u v" if "handle_request E now new_id c m u = (v, w)" for m v w
      using same_keys_handle_request [of u E now new_id c m] that by simp
    have X: "same_keys v v'" if "handle_error E c e v = (v', w)" for e w and v v' :: "('a, 'b) server_state"
      using same_keys_quiet [OF quiet_handle_error [of v E c e]] that by simp
    show ?thesis
      by (auto simp: listen_one_def split: outcome.splits prod.splits)
         (blast intro: same_keys_trans [OF H] same_keys_trans [OF _ C] H X)+
  qed
  moreover have "same_keys s (update_conn c (\<lambda>conn. conn\<lparr>incoming := rest\<rparr>) s)" for rest
    by (rule same_keys_update) simp
  ultimately show ?thesis
    by (auto simp: listen_def split: list.splits intro: same_keys_trans)
qed

lemma step_same_keys:
  assumes "relay_step E s l s'" and "\<And>key. l \<noteq> Connect key"
  shows "same_keys s s'"
  using assms
proof cases
  case (receive c msg)
  then show ?thesis
    by (auto simp: read_one_def split: option.splits ws_message.splits outcome.splits
        intro!: same_keys_update intro: same_keys_quiet quiet_outgoing_send)
next
  case (deliver c sent)
  have "same_keys s (close_outgoing c (disconnect c u))" if "same_keys s u" for u
    using that same_keys_ops(3,5) same_keys_trans by blast
  then show ?thesis
    using deliver by (auto simp: write_one_def Let_def same_keys_update split: list.splits)
next
  case (wait i now)
  then show ?thesis
    using same_keys_quiet [OF quiet_tick [of s E now "tasks s ! i"]]
    by (auto simp: run_tick_def same_keys_def split: prod.splits)
next
  case (reap mc sc)
  then show ?thesis
    by (auto simp: purge_expired_def same_keys_def Let_def split: st_then_splits)
qed (use same_keys_listen in auto)

lemma upgrade_keys:
  "srv_config (fst (upgrade E new_id random key s)) = srv_config s"
  "(fst (upgrade E new_id random key s) = s) \<or>
   (is_allowed_access (srv_config s) key \<and> next_conn (fst (upgrade E new_id random key s)) = Suc (next_conn s) \<and>
    (\<forall>c. conn_key (conns (fst (upgrade E new_id random key s)) c) =
      (if c = next_conn s then key else conn_key (conns s c))))"
  by (auto simp: upgrade_def Let_def is_allowed_access_def split: st_then_splits option.splits)

lemma reachable_allowed:
  "reachable E config k s \<Longrightarrow>
   srv_config s = config \<and> (\<forall>c<next_conn s. is_allowed_access config (conn_key (conns s c)))"
proof (induction rule: reachable.induct)
  case start
  show ?case by (simp add: RelayServer_new_def)
next
  case (step s l s')
  show ?case
  proof (cases "\<exists>key. l = Connect key")
    case True
    with step.hyps(2) obtain key new_id random where s': "s' = fst (upgrade E new_id random key s)"
      by (auto elim!: relay_step.cases)
    show ?thesis
      using upgrade_keys(2) [of E new_id random key s]
    proof
      assume "fst (upgrade E new_id random key s) = s"
      then show ?thesis using step.IH s' by simp
    next
      assume new: "is_allowed_access (srv_config s) key \<and>
        next_conn (fst (upgrade E new_id random key s)) = Suc (next_conn s) \<and>
        (\<forall>c. conn_key (conns (fst (upgrade E new_id random key s)) c) =
          (if c = next_conn s then key else conn_key (conns s c)))"
      have "srv_config s' = config" using step.IH s' by (simp add: upgrade_keys(1))
      moreover have "is_allowed_access config (conn_key (conns s' c))" if "c < next_conn s'" for c
        using new step.IH that s' by (auto simp: less_Suc_eq)
      ultimately show ?thesis by blast
    qed
  next
    case False
    then show ?thesis
      using step_same_keys [OF step.hyps(2)] step.IH by (auto simp: same_keys_def)
  qed
qed

text \<open>
  C31: Access lists are enforced: every connection of a reachable server state offered a public key
  that the configuration allows, so only allowed keys are ever pending or active.
\<close>

theorem connections_allowed:
  assumes "stream_laws (stream E)" and "reachable E config k s"
  shows "(\<forall>c<next_conn s. is_allowed_access config (conn_key (conns s c))) \<and>
    (\<forall>key c. active s key = Some c \<longrightarrow> is_allowed_access config key)"
proof -
  have "active_ok s" using reachable_inv [OF assms(2,1)] by (simp add: server_inv_def)
  then show ?thesis
    using reachable_allowed [OF assms(2)] by (auto simp: active_ok_def)
qed

abbreviation restricted_config :: server_config where
  "restricted_config \<equiv> open_config\<lparr>cfg_allow := Some [[9], [3]], cfg_deny := Some [[3]]\<rparr>"

text \<open>Of three keys that ask to connect, one is allowed.\<close>

theorem connections_allowed_witness:
  "\<exists>s :: (bool \<times> nat, nat \<times> nat) server_state. reachable sample_env restricted_config sample_keys s \<and>
     next_conn s = 1 \<and> conn_key (conns s 0) = [9] \<and> is_allowed_access restricted_config [9] \<and>
     \<not> is_allowed_access restricted_config [8] \<and> \<not> is_allowed_access restricted_config [3]"
proof -
  let ?up = "\<lambda>k s. fst (upgrade sample_env sample_uuid 0 k s)"
  let ?s = "?up [3] (?up [9] (?up [8] (RelayServer_new restricted_config sample_keys)))"
  have r: "reachable sample_env restricted_config sample_keys ?s"
    by (intro reachable.step [OF reachable.step [OF reachable.step [OF reachable.start connect] connect] connect])
  have "next_conn ?s = 1" "conn_key (conns ?s 0) = [9]"
    by (simp_all add: upgrade_def RelayServer_new_def open_config_def is_allowed_access_def sample_env_def counter_snow_def Let_def)
  moreover have "stream_laws (stream sample_env)" by (simp add: sample_env_def le_stream_laws)
  from connections_allowed [OF this r] calculation have "is_allowed_access restricted_config [9]" by auto
  moreover have "\<not> is_allowed_access restricted_config [8]" "\<not> is_allowed_access restricted_config [3]"
    by (simp_all add: is_allowed_access_def)
  ultimately show ?thesis using r by blast
qed

text \<open>
  C34: A new session is announced as it is stored: the state sent back lists the requesting key and
  then the requested ones, the stored session is owned by the requester, has the same keys and no
  connections, and a task waits for its participants. If the keys are distinct, then registering
  every connection that this state prescribes to its participants makes the session active.
\<close>

theorem new_session_announced:
  "case service now new_id c key (NewSession request) s of (s', r) \<Rightarrow>
     (\<exists>st x. r = Ok (Some (SessionCreated st)) \<and> session_id st = new_id \<and>
       all_participants st = key # participant_keys request \<and>
       get_session (sessions s') new_id = Some x \<and> owner_key x = key \<and> session_connections x = [] \<and>
       set (public_keys x) = set (all_participants st) \<and>
       (\<exists>interval. WaitSessionReady interval c now st \<in> set (tasks s')) \<and>
       (distinct (all_participants st) \<longrightarrow> is_active (register_all (prescribed st) x)))"
proof -
  let ?x = "\<lparr>owner_key = key, session_participant_keys = hset_of (participant_keys request),
    session_connections = [], session_last_access = now\<rparr>"
  let ?st = "\<lparr>session_id = new_id, all_participants = key # participant_keys request\<rparr>"
  have "set (public_keys ?x) = set (all_participants ?st)" by (simp add: public_keys_def)
  moreover from this have "distinct (all_participants ?st) \<longrightarrow> is_active (register_all (prescribed ?st) ?x)"
    using active_iff_prescribed [of ?st ?x "prescribed ?st"] by simp
  ultimately show ?thesis
    by (auto simp: service_def Let_def new_session_def get_session_def)
qed

theorem new_session_announced_witness:
  "\<exists>x. get_session (sessions (fst (service 7 sample_uuid 0 [1] (NewSession \<lparr>participant_keys = [[2], [3]]\<rparr>) sample_state)))
     sample_uuid = Some x \<and>
     is_active (register_all (prescribed \<lparr>session_id = sample_uuid, all_participants = [[1], [2], [3]]\<rparr>) x)"
proof -
  obtain s' r where v: "service 7 sample_uuid 0 [1] (NewSession \<lparr>participant_keys = [[2], [3]]\<rparr>) sample_state = (s', r)"
    by fastforce
  obtain st x where "session_id st = sample_uuid" "all_participants st = [[1], [2], [3]]"
    "get_session (sessions s') sample_uuid = Some x"
    "distinct (all_participants st) \<longrightarrow> is_active (register_all (prescribed st) x)"
    using new_session_announced [where now = 7 and new_id = sample_uuid and c = 0 and key = "[1]"
        and request = "\<lparr>participant_keys = [[2], [3]]\<rparr>" and s = sample_state] unfolding v by auto
  moreover from this(1,2) have "st = \<lparr>session_id = sample_uuid, all_participants = [[1], [2], [3]]\<rparr>" by simp
  ultimately show ?thesis using v by simp
qed

text \<open>
  C35: A request about meetings or sessions that the server refuses changes nothing, and it is
  refused exactly when it joins a meeting that is unknown or full, reports a connection in an
  unknown session, or closes a session that is unknown or owned by another key.
\<close>

theorem service_refusals:
  "((\<exists>e. snd (service now new_id c key m s) = Err e) \<longleftrightarrow>
     (case m of
        JoinMeeting mid _ \<Rightarrow> \<forall>x. get_meeting (meetings s) mid = Some x \<longrightarrow> is_full x
      | SessionConnection sid _ \<Rightarrow> get_session (sessions s) sid = None
      | CloseSession sid \<Rightarrow> \<forall>x. get_session (sessions s) sid = Some x \<longrightarrow> owner_key x \<noteq> key
      | _ \<Rightarrow> False)) \<and>
   (\<forall>e. snd (service now new_id c key m s) = Err e \<longrightarrow> fst (service now new_id c key m s) = s)"
  by (auto simp: service_def Let_def split: server_message.splits option.splits)

theorem service_refusals_witness:
  "fst (service 7 [] 1 [2] (CloseSession sample_uuid) sample_state) = sample_state"
proof -
  have "\<forall>x. get_session (sessions sample_state) sample_uuid = Some x \<longrightarrow> owner_key x \<noteq> [2]"
    by (simp add: sample_state_def get_session_def sample_session_def)
  then show ?thesis
    using service_refusals [of 7 "[]" 1 "[2]" "CloseSession sample_uuid" sample_state] by auto
qed

text \<open>
  Two connections may offer the same public key. The newer one replaces the older one in the map of
  active connections, and when the older socket is closed \<open>disconnect\<close> removes the entry of the
  key: the newer client stays connected but can no longer be reached or served.
\<close>

lemma stale_disconnect_unregisters:
  assumes "conn_key (conns s old) = conn_key (conns s new)" and "active s (conn_key (conns s new)) = Some new"
  shows "active (disconnect old s) (conn_key (conns s new)) = None"
  using assms by (simp add: disconnect_def)

end
