(* ===== verification/End_To_End.thy ===== *)
theory End_To_End
  imports Client Relay_Machine
begin

text \<open>
  Lemmas that join the two sides of a socket: a frame the client writes is what the listener of
  the server decodes, a response the server queues is what the event loop of the client decodes.
  With them the properties that span client, server and a second client are short.

  \<open>env_laws\<close> collects what the code relies on from its libraries: the laws of the byte stream and
  of the noise protocol, and that compression is undone by decompression.
\<close>

definition zlib_laws :: "('h, 't) env \<Rightarrow> bool" where
  "zlib_laws E \<longleftrightarrow> (\<forall>b. \<exists>d. zlib_encode E b = Ok d \<and> zlib_decode E d = Ok b)"

definition env_laws :: "('h, 't) env \<Rightarrow> ('h \<Rightarrow> 'h \<Rightarrow> bool) \<Rightarrow> ('t \<Rightarrow> 't \<Rightarrow> bool) \<Rightarrow> bool" where
  "env_laws E paired sync \<longleftrightarrow> stream_laws (stream E) \<and> zlib_laws E \<and> transport_laws (snow E) sync \<and>
     handshake_laws (snow E) paired sync"

lemma sample_env_laws: "env_laws sample_env counter_paired counter_sync"
  by (simp add: env_laws_def zlib_laws_def sample_env_def le_stream_laws counter_transport_laws
      counter_handshake_laws)

subsection \<open>From the client to the listener\<close>

lemma request_frame:
  assumes "stream_laws (stream E)" and "zlib_laws E" and "request_message_ok (stream E) m"
  obtains frame buffer where
    "\<And>c. client_send_message E True m c = (c\<lparr>socket := socket c @ [WsBinary frame]\<rparr>, Ok ())"
    "inflate E frame = Ok buffer" "decode RequestMessage_decode (stream E) buffer = Ok m"
proof -
  obtain buffer where b: "encode RequestMessage_encode (stream E) m = Ok buffer"
    "decode RequestMessage_decode (stream E) buffer = Ok m"
    using request_message_codec.decode_encode [OF assms(1,3)] by blast
  obtain frame where f: "zlib_encode E buffer = Ok frame" "zlib_decode E frame = Ok buffer"
    using assms(2) by (auto simp: zlib_laws_def)
  show thesis
    by (rule that [of frame buffer])
       (use b f in \<open>simp_all add: client_send_message_def deflate_def inflate_def\<close>)
qed

lemma listen_request:
  assumes "inflate E frame = Ok buffer" and "decode RequestMessage_decode (stream E) buffer = Ok m"
    and "incoming (conns s r) = []" and "incoming_open (conns s r)"
  shows "listen E now new_id r (fst (read_one E r (Some (WsBinary frame)) s)) =
    (case handle_request E now new_id r m s of
       (s, Ok _) \<Rightarrow> s
     | (s, Err e) \<Rightarrow> (case handle_error E r e s of (s, Panic) \<Rightarrow> close_incoming r s | (s, _) \<Rightarrow> s)
     | (s, Panic) \<Rightarrow> close_incoming r s)"
proof -
  let ?s = "fst (read_one E r (Some (WsBinary frame)) s)"
  have "update_conn r (\<lambda>conn. conn\<lparr>incoming := []\<rparr>) ?s = s" "incoming (conns ?s r) = [buffer]"
    using assms(1,3,4) by (auto simp: read_one_def update_conn_def fun_upd_idem)
  then show ?thesis
    using assms(2) by (simp add: listen_def listen_one_def)
qed

subsection \<open>From the server to the event loop\<close>

lemma response_frame:
  assumes "stream_laws (stream E)" and "zlib_laws E" and "response_message_ok (stream E) m"
  obtains frame where
    "\<And>s r. outgoing_open (conns s r) \<Longrightarrow> send_response E r m s =
       (update_conn r (\<lambda>conn. conn\<lparr>outgoing := outgoing conn @ [WsBinary frame]\<rparr>) s, Ok ())"
    "\<And>c. loop_read E (Some (WsBinary frame)) c = (c\<lparr>inbound := inbound c @ [m]\<rparr>, [])"
proof -
  obtain buffer where b: "encode ResponseMessage_encode (stream E) m = Ok buffer"
    "decode ResponseMessage_decode (stream E) buffer = Ok m"
    using response_message_codec.decode_encode [OF assms(1,3)] by blast
  obtain frame where f: "zlib_encode E buffer = Ok frame" "zlib_decode E frame = Ok buffer"
    using assms(2) by (auto simp: zlib_laws_def)
  show thesis
    by (rule that [of frame])
       (use b f in \<open>simp_all add: send_response_def conn_send_def outgoing_send_def deflate_def inflate_def
          loop_read_def client_read_message_def yields_def\<close>)
qed

lemma handshake_buffer_ok:
  "length m \<le> 1024 \<Longrightarrow> handshake_ok (Handshake_Initiator (length m) (write_into (replicate 1024 0) m))"
  "length m \<le> 1024 \<Longrightarrow> handshake_ok (Handshake_Responder (length m) (write_into (replicate 1024 0) m))"
  by (simp_all add: buffer_ok_def MAX_BUFFER_SIZE_def)

lemma take_handshake [simp]:
  "take (length m) (write_into (replicate 1024 0) m) = m"
  "length m \<le> length (write_into (replicate 1024 0) m)"
  by (simp_all add: write_into_def)

lemma chunks_envelope_ok:
  assumes "length chunks = (length payload + CHUNK_SIZE - 1) div CHUNK_SIZE" and "length payload < 2 ^ 32"
    and "\<forall>c\<in>set chunks. chunk_length c \<le> 65535 \<and> length (chunk_contents c) = chunk_length c"
    and "enc \<noteq> Encoding_Noop"
  shows "envelope_ok \<lparr>env_encoding = enc, env_chunks = chunks, env_broadcast = broadcast\<rparr>"
proof -
  have "length chunks \<le> length payload"
  proof (cases "payload = []")
    case False
    then have "length payload + CHUNK_SIZE - 1 \<le> length payload * CHUNK_SIZE"
      by (cases payload) (simp_all add: CHUNK_SIZE_def TAGLEN_def)
    then have "(length payload + CHUNK_SIZE - 1) div CHUNK_SIZE \<le> (length payload * CHUNK_SIZE) div CHUNK_SIZE"
      by (rule div_le_mono)
    then show ?thesis using assms(1) by (simp add: CHUNK_SIZE_def TAGLEN_def)
  qed (use assms(1) in \<open>simp add: CHUNK_SIZE_def TAGLEN_def\<close>)
  then show ?thesis
    using assms by (auto simp: envelope_ok_def chunk_ok_def buffer_ok_def MAX_BUFFER_SIZE_def)
qed

subsection \<open>One hop of a handshake between peers\<close>

text \<open>
  \<open>hop E now new_id r frame s\<close>: the server after the frame arrived at connection \<open>r\<close> and its
  listener handled it.
\<close>

definition hop ::
  "('h, 't) env \<Rightarrow> nat \<Rightarrow> uuid \<Rightarrow> conn_ref \<Rightarrow> ws_message \<Rightarrow> ('h, 't) server_state \<Rightarrow> ('h, 't) server_state" where
  "hop E now new_id r frame s = listen E now new_id r (fst (read_one E r (Some frame) s))"

abbreviation queue_frame :: "conn_ref \<Rightarrow> bytes \<Rightarrow> ('h, 't) server_state \<Rightarrow> ('h, 't) server_state" where
  "queue_frame r frame s \<equiv> update_conn r (\<lambda>conn. conn\<lparr>outgoing := outgoing conn @ [WsBinary frame]\<rparr>) s"

text \<open>
  The frame of a request and the frame of the response that the server makes of it: what the
  handler does with the request is what the server does with the frame.
\<close>

lemma request_hop:
  assumes L: "stream_laws (stream E)" "zlib_laws E"
    and ok: "request_message_ok (stream E) q" "response_message_ok (stream E) p"
    and c: "outbound c = [Internal_Request q]"
    and s: "incoming (conns s r) = []" "incoming_open (conns s r)"
    and handled: "\<And>reply. (\<And>s r. outgoing_open (conns s r) \<Longrightarrow> send_response E r p s = (queue_frame r reply s, Ok ())) \<Longrightarrow>
      handle_request E now new_id r q s = (after reply, Ok ())"
  obtains frame reply where
    "loop_write E True (Ok ()) c = (c\<lparr>outbound := [], socket := socket c @ [WsBinary frame]\<rparr>, [])"
    "hop E now new_id r (WsBinary frame) s = after reply"
    "\<And>d. loop_read E (Some (WsBinary reply)) d = (d\<lparr>inbound := inbound d @ [p]\<rparr>, [])"
proof -
  obtain frame buffer where f:
    "\<And>c. client_send_message E True q c = (c\<lparr>socket := socket c @ [WsBinary frame]\<rparr>, Ok ())"
    "inflate E frame = Ok buffer" "decode RequestMessage_decode (stream E) buffer = Ok q"
    using request_frame [OF L ok(1)] by blast
  obtain reply where g:
    "\<And>s r. outgoing_open (conns s r) \<Longrightarrow> send_response E r p s = (queue_frame r reply s, Ok ())"
    "\<And>c. loop_read E (Some (WsBinary reply)) c = (c\<lparr>inbound := inbound c @ [p]\<rparr>, [])"
    using response_frame [OF L ok(2)] by blast
  have "hop E now new_id r (WsBinary frame) s = after reply"
    unfolding hop_def using listen_request [OF f(2,3) s] handled [OF g(1)] by simp
  moreover have "loop_write E True (Ok ()) c = (c\<lparr>outbound := [], socket := socket c @ [WsBinary frame]\<rparr>, [])"
    using c f(1) by (simp add: loop_write_def yields_def)
  ultimately show thesis using that g(2) by blast
qed

lemma handshake_hop:
  assumes L: "stream_laws (stream E)" "zlib_laws E"
    and m: "handshake_ok m" "buffer_ok from_key" "buffer_ok to_key"
    and c: "outbound c = [Internal_Request (Request_Transparent (PeerHandshake to_key m))]"
    and s: "conn_key (conns s r) = from_key" "incoming (conns s r) = []" "incoming_open (conns s r)"
      "active s to_key = Some peer" "outgoing_open (conns s peer)"
  obtains frame reply where
    "loop_write E True (Ok ()) c = (c\<lparr>outbound := [], socket := socket c @ [WsBinary frame]\<rparr>, [])"
    "hop E now new_id r (WsBinary frame) s = queue_frame peer reply s"
    "\<And>d. loop_read E (Some (WsBinary reply)) d =
      (d\<lparr>inbound := inbound d @ [Response_Transparent (PeerHandshake from_key m)]\<rparr>, [])"
proof (rule request_hop [OF L _ _ c s(2,3)])
  show "request_message_ok (stream E) (Request_Transparent (PeerHandshake to_key m))"
    "response_message_ok (stream E) (Response_Transparent (PeerHandshake from_key m))"
    using m by auto
  show "handle_request E now new_id r (Request_Transparent (PeerHandshake to_key m)) s = (queue_frame peer reply s, Ok ())"
    if "\<And>s r. outgoing_open (conns s r) \<Longrightarrow>
      send_response E r (Response_Transparent (PeerHandshake from_key m)) s = (queue_frame r reply s, Ok ())" for reply
    using s that [of s peer] by (simp add: handle_request_def relay_to_def)
qed (rule that)

text \<open>The two messages of a handshake between paired ends.\<close>

lemma handshake_messages:
  assumes "handshake_laws S paired sync" and "paired i h"
  obtains i1 m1 h1 h2 m2 i2 ti tr where
    "handshake_write S i [] 1024 = (i1, Ok m1)" "length m1 \<le> 1024"
    "handshake_read S h m1 1024 = (h1, Ok [])" "handshake_write S h1 [] 1024 = (h2, Ok m2)"
    "length m2 \<le> 1024" "handshake_read S i1 m2 1024 = (i2, Ok [])"
    "into_transport_mode S i2 = Ok ti" "into_transport_mode S h2 = Ok tr" "sync ti tr" "sync tr ti"
  using assms unfolding handshake_laws_def by blast

abbreviation handshake_frame :: "bytes \<Rightarrow> bytes" where
  "handshake_frame m \<equiv> write_into (replicate 1024 0) m"

text \<open>The server's side of a handshake with a client.\<close>

lemma server_handshake_hop:
  assumes L: "stream_laws (stream E)" "zlib_laws E"
    and conn: "conn_state (conns s r) = Some (Handshake h)" "incoming (conns s r) = []"
      "incoming_open (conns s r)" "outgoing_open (conns s r)"
    and hs: "length m1 \<le> 1024" "handshake_read (snow E) h m1 1024 = (h1, Ok [])"
      "handshake_write (snow E) h1 [] 1024 = (h2, Ok m2)" "length m2 \<le> 1024" "into_transport_mode (snow E) h2 = Ok tr"
    and c: "outbound c = [Internal_Request (Request_Transparent (ServerHandshake
      (Handshake_Initiator (length m1) (handshake_frame m1))))]"
  obtains frame reply s' where
    "loop_write E True (Ok ()) c = (c\<lparr>outbound := [], socket := socket c @ [WsBinary frame]\<rparr>, [])"
    "hop E now new_id r (WsBinary frame) s = s'"
    "\<And>d. loop_read E (Some (WsBinary reply)) d = (d\<lparr>inbound := inbound d @ [Response_Transparent (ServerHandshake
      (Handshake_Responder (length m2) (handshake_frame m2)))]\<rparr>, [])"
    "outgoing (conns s' r) = outgoing (conns s r) @ [WsBinary reply]" "conn_state (conns s' r) = Some (Transport tr)"
    "active s' (conn_key (conns s r)) = Some r" "pending s' (conn_id (conns s r)) = None"
proof (rule request_hop [OF L _ _ c conn(2,3), where after = "\<lambda>reply. promote_connection r
      (set_state r (Some (Transport tr)) (set_state r None (queue_frame r reply (set_state r (Some (Handshake h2)) s))))"])
  let ?p = "Response_Transparent (ServerHandshake (Handshake_Responder (length m2) (handshake_frame m2)))"
  show "request_message_ok (stream E) (Request_Transparent (ServerHandshake (Handshake_Initiator (length m1) (handshake_frame m1))))"
    "response_message_ok (stream E) ?p"
    using handshake_buffer_ok hs(1,4) by auto
  show "handle_request E now new_id r (Request_Transparent (ServerHandshake (Handshake_Initiator (length m1) (handshake_frame m1)))) s =
      (promote_connection r (set_state r (Some (Transport tr)) (set_state r None
        (queue_frame r reply (set_state r (Some (Handshake h2)) s)))), Ok ())"
    if "\<And>s r. outgoing_open (conns s r) \<Longrightarrow> send_response E r ?p s = (queue_frame r reply s, Ok ())" for reply
    using conn hs that [of "set_state r (Some (Handshake h2)) s" r]
    by (simp add: handle_request_def server_handshake_def Let_def) (simp add: set_state_def update_conn_def)
qed (rule that, assumption, assumption, assumption, simp_all add: promote_connection_def set_state_def update_conn_def)

lemma session_accepts:
  assumes "\<forall>i. sid = Some i \<longrightarrow> length i = 16 \<and> (\<exists>x. get_session (sessions s) i = Some x \<and> key \<in> set (public_keys x))"
  shows "\<exists>s'. check_session E now sid key s = (s', Ok ()) \<and> conns s' = conns s \<and> active s' = active s"
proof -
  have "\<exists>s'. check_session E now sid key s = (s', Ok ())"
    using assms by (cases sid) (auto simp: check_session_def touch_session_def get_session_def Let_def
        public_keys_def list_ex_iff)
  then show ?thesis using check_session_frame [of E now sid key s] by auto
qed

lemma update_queue_frame [simp]:
  "conn_key (conns (update_conn p (\<lambda>conn. conn\<lparr>outgoing := f conn\<rparr>) s) r) = conn_key (conns s r)"
  "incoming (conns (update_conn p (\<lambda>conn. conn\<lparr>outgoing := f conn\<rparr>) s) r) = incoming (conns s r)"
  "incoming_open (conns (update_conn p (\<lambda>conn. conn\<lparr>outgoing := f conn\<rparr>) s) r) = incoming_open (conns s r)"
  "outgoing_open (conns (update_conn p (\<lambda>conn. conn\<lparr>outgoing := f conn\<rparr>) s) r) = outgoing_open (conns s r)"
  "active (update_conn p (\<lambda>conn. conn\<lparr>outgoing := f conn\<rparr>) s) = active s"
  by (simp_all add: update_conn_def)

text \<open>The two halves of a handshake between peers: the first message, and the reply.\<close>

lemma hello_reaches_peer:
  assumes L: "stream_laws (stream E)" "zlib_laws E"
    and A: "peers a keyB = None" "outbound a = []" "outbound_open a" "ClientOptions_params E (options a) = Ok pa"
      "build_initiator (snow E) random pa (kp_private (opt_keypair (options a))) keyB = Ok i"
    and B: "peers b keyA = None" "outbound b = []" "outbound_open b" "inbound b = []"
      "ClientOptions_params E (options b) = Ok pb"
      "build_responder (snow E) random' pb (kp_private (opt_keypair (options b))) keyA = Ok h"
    and hs: "handshake_write (snow E) i [] 1024 = (i1, Ok m1)" "length m1 \<le> 1024"
      "handshake_read (snow E) h m1 1024 = (h1, Ok [])" "handshake_write (snow E) h1 [] 1024 = (h2, Ok m2)"
      "into_transport_mode (snow E) h2 = Ok tb"
    and sizes: "buffer_ok keyA" "buffer_ok keyB"
    and s: "conn_key (conns s ra) = keyA" "incoming (conns s ra) = []" "incoming_open (conns s ra)"
      "active s keyB = Some rb" "outgoing_open (conns s rb)"
  obtains a1 f1 r1 b1 where "connect_peer E random keyB a = (a1, Ok ())"
    "loop_write E True (Ok ()) a1 = (a\<lparr>peers := (peers a)(keyB \<mapsto> Handshake i1), outbound := [],
       socket := socket a @ [WsBinary f1]\<rparr>, [])"
    "hop E now new_id ra (WsBinary f1) s = queue_frame rb r1 s" "loop_read E (Some (WsBinary r1)) b = (b1, [])"
    "loop_event E random' b1 = (b\<lparr>inbound := [], peers := (peers b)(keyA \<mapsto> Transport tb),
       outbound := [Internal_Request (Request_Transparent (PeerHandshake keyA (Handshake_Responder (length m2) (handshake_frame m2))))]\<rparr>,
       [Ok (PeerConnected keyA)])"
proof -
  let ?m1 = "Handshake_Initiator (length m1) (handshake_frame m1)"
  let ?a1 = "a\<lparr>peers := (peers a)(keyB \<mapsto> Handshake i1),
    outbound := [Internal_Request (Request_Transparent (PeerHandshake keyB ?m1))]\<rparr>"
  have 1: "connect_peer E random keyB a = (?a1, Ok ())"
    using A hs(1) by (simp add: connect_peer_def outbound_send_def)
  obtain f1 r1 where 2: "loop_write E True (Ok ()) ?a1 = (?a1\<lparr>outbound := [], socket := socket ?a1 @ [WsBinary f1]\<rparr>, [])"
    "hop E now new_id ra (WsBinary f1) s = queue_frame rb r1 s"
    "\<And>d. loop_read E (Some (WsBinary r1)) d =
      (d\<lparr>inbound := inbound d @ [Response_Transparent (PeerHandshake keyA ?m1)]\<rparr>, [])"
    using handshake_hop [OF L handshake_buffer_ok(1) [OF hs(2)] sizes, of ?a1 s ra rb now new_id] s by auto
  have 3: "loop_event E random' (b\<lparr>inbound := inbound b @ [Response_Transparent (PeerHandshake keyA ?m1)]\<rparr>) =
      (b\<lparr>inbound := [], peers := (peers b)(keyA \<mapsto> Transport tb),
       outbound := [Internal_Request (Request_Transparent (PeerHandshake keyA (Handshake_Responder (length m2) (handshake_frame m2))))]\<rparr>,
       [Ok (PeerConnected keyA)])"
    using B hs by (simp add: loop_event_def handle_incoming_message_def peer_handshake_responder_def
        outbound_send_def yields_def)
  show thesis using 2(1) by (intro that [OF 1 _ 2(2,3) 3]) simp
qed

lemma reply_reaches_peer:
  assumes L: "stream_laws (stream E)" "zlib_laws E"
    and hs: "length m2 \<le> 1024" "handshake_read (snow E) i1 m2 1024 = (i2, Ok [])" "into_transport_mode (snow E) i2 = Ok ta"
    and sizes: "buffer_ok keyA" "buffer_ok keyB"
    and b: "outbound b = [Internal_Request (Request_Transparent (PeerHandshake keyA (Handshake_Responder (length m2) (handshake_frame m2))))]"
    and s: "conn_key (conns s rb) = keyB" "incoming (conns s rb) = []" "incoming_open (conns s rb)"
      "active s keyA = Some ra" "outgoing_open (conns s ra)"
    and a: "peers a keyB = Some (Handshake i1)" "inbound a = []"
  obtains f2 r2 a3 where
    "loop_write E True (Ok ()) b = (b\<lparr>outbound := [], socket := socket b @ [WsBinary f2]\<rparr>, [])"
    "hop E now new_id rb (WsBinary f2) s = queue_frame ra r2 s" "loop_read E (Some (WsBinary r2)) a = (a3, [])"
    "loop_event E random a3 = (a\<lparr>inbound := [], peers := (peers a)(keyB \<mapsto> Transport ta)\<rparr>, [Ok (PeerConnected keyB)])"
proof -
  obtain f2 r2 where 1: "loop_write E True (Ok ()) b = (b\<lparr>outbound := [], socket := socket b @ [WsBinary f2]\<rparr>, [])"
    "hop E now new_id rb (WsBinary f2) s = queue_frame ra r2 s"
    "\<And>d. loop_read E (Some (WsBinary r2)) d = (d\<lparr>inbound := inbound d @
      [Response_Transparent (PeerHandshake keyB (Handshake_Responder (length m2) (handshake_frame m2)))]\<rparr>, [])"
    using handshake_hop [OF L handshake_buffer_ok(2) [OF hs(1)] sizes(2,1) b s, of now new_id] by auto
  have "loop_event E random (a\<lparr>inbound := inbound a @
      [Response_Transparent (PeerHandshake keyB (Handshake_Responder (length m2) (handshake_frame m2)))]\<rparr>) =
      (a\<lparr>inbound := [], peers := (peers a)(keyB \<mapsto> Transport ta)\<rparr>, [Ok (PeerConnected keyB)])"
    using a hs by (simp add: loop_event_def handle_incoming_message_def peer_handshake_ack_def some_event_def
        yields_def Let_def)
  with 1 show thesis by (intro that) auto
qed

end
