(* ===== verification/Client_Machine.thy ===== *)
theory Client_Machine
  imports End_To_End
begin

text \<open>
  The client as a transition system: every operation of its handle and every branch of the event
  loop, in any order and with any frames from the network. The states it can reach are well-formed:
  what the client has queued is a request that the encoder accepts, and what it has written is a
  frame that the server decodes. The transitions are those of \<open>Client\<close>; an operation that fails
  or panics leaves the state it has reached.
\<close>

subsection \<open>Actions\<close>

text \<open>
  The methods of the trait \<open>NetworkTransport\<close> that change the client, and the branches of the
  \<open>select!\<close> of the event loop.
\<close>

datatype client_action =
    Connect_Server
  | Connect_Peer nat bytes
  | Send_Json bytes "(unit, bytes) outcome" "session_id option"
  | Send_Blob bytes bytes "session_id option"
  | Broadcast_Json session_id "bytes list" "(unit, bytes) outcome"
  | Broadcast_Blob session_id "bytes list" bytes
  | Request_Meeting user_id "user_id list"
  | Request_Join meeting_id user_id
  | Request_Session "bytes list"
  | Report_Connection session_id bytes
  | Request_Close session_id
  | Close_Socket
  | Read_Frame "ws_message option"
  | Write_Frame bool "(client_error, unit) outcome"
  | Handle_Message nat

fun perform :: "('h, 't) env \<Rightarrow> client_action \<Rightarrow> ('h, 't) client \<Rightarrow> ('h, 't) client" where
  "perform E Connect_Server c = fst (client_connect E c)"
| "perform E (Connect_Peer random key) c = fst (connect_peer E random key c)"
| "perform E (Send_Json key json sid) c = fst (send_json E key json sid c)"
| "perform E (Send_Blob key payload sid) c = fst (send_blob E key payload sid c)"
| "perform E (Broadcast_Json sid keys json) c = fst (broadcast_json E sid keys json c)"
| "perform E (Broadcast_Blob sid keys payload) c = fst (broadcast_blob E sid keys payload c)"
| "perform E (Request_Meeting owner users) c = fst (request_new_meeting E owner users c)"
| "perform E (Request_Join mid uid) c = fst (request_join_meeting E mid uid c)"
| "perform E (Request_Session keys) c = fst (request_new_session E keys c)"
| "perform E (Report_Connection sid peer) c = fst (request_register_connection E sid peer c)"
| "perform E (Request_Close sid) c = fst (request_close_session E sid c)"
| "perform E Close_Socket c = fst (client_close c)"
| "perform E (Read_Frame frame) c = fst (loop_read E frame c)"
| "perform E (Write_Frame writable closed) c = fst (loop_write E writable closed c)"
| "perform E (Handle_Message random) c = fst (loop_event E random c)"

text \<open>
  The arguments that the types of the source and its limits allow: identifiers of 16 bytes, keys
  within the maximum buffer size, and payloads whose number of chunks fits 32 bits (256 TiB). What
  comes from the network is not restricted.
\<close>

definition payload_ok :: "bytes \<Rightarrow> bool" where
  "payload_ok p \<longleftrightarrow> (length p + CHUNK_SIZE - 1) div CHUNK_SIZE < 2 ^ 32"

definition sid_ok :: "session_id option \<Rightarrow> bool" where
  "sid_ok sid \<longleftrightarrow> (\<forall>i. sid = Some i \<longrightarrow> length i = 16)"

definition message_ok :: "('h, 't) env \<Rightarrow> server_message \<Rightarrow> bool" where
  "message_ok E message \<longleftrightarrow> (\<forall>p. encode ServerMessage_encode (stream E) message = Ok p \<longrightarrow> payload_ok p)"

fun action_ok :: "('h, 't) env \<Rightarrow> client_action \<Rightarrow> bool" where
  "action_ok E (Connect_Peer random key) = buffer_ok key"
| "action_ok E (Send_Json key json sid) = (buffer_ok key \<and> sid_ok sid \<and> (\<forall>p. json = Ok p \<longrightarrow> payload_ok p))"
| "action_ok E (Send_Blob key payload sid) = (buffer_ok key \<and> sid_ok sid \<and> payload_ok payload)"
| "action_ok E (Broadcast_Json sid keys json) =
     ((\<forall>key\<in>set keys. buffer_ok key) \<and> length sid = 16 \<and> (\<forall>p. json = Ok p \<longrightarrow> payload_ok p))"
| "action_ok E (Broadcast_Blob sid keys payload) =
     ((\<forall>key\<in>set keys. buffer_ok key) \<and> length sid = 16 \<and> payload_ok payload)"
| "action_ok E (Request_Meeting owner users) = message_ok E (NewMeeting owner users)"
| "action_ok E (Request_Join mid uid) = message_ok E (JoinMeeting mid uid)"
| "action_ok E (Request_Session keys) = message_ok E (NewSession \<lparr>participant_keys = keys\<rparr>)"
| "action_ok E (Report_Connection sid peer) = message_ok E (SessionConnection sid peer)"
| "action_ok E (Request_Close sid) = message_ok E (CloseSession sid)"
| "action_ok E _ = True"

inductive client_reachable :: "('h, 't) env \<Rightarrow> ('h, 't) client \<Rightarrow> bool" for E :: "('h, 't) env" where
  start: "client_new E random attempt opts = Ok c \<Longrightarrow> client_reachable E c"
| act: "client_reachable E c \<Longrightarrow> action_ok E a \<Longrightarrow> client_reachable E (perform E a c)"

subsection \<open>Well-formed clients\<close>

definition decodes_to :: "('h, 't) env \<Rightarrow> ws_message \<Rightarrow> request_message \<Rightarrow> bool" where
  "decodes_to E frame m \<longleftrightarrow> (\<exists>b bs. frame = WsBinary b \<and> inflate E b = Ok bs \<and>
     decode RequestMessage_decode (stream E) bs = Ok m)"

text \<open>
  A message is sized when no length it declares exceeds what it carries: the slices that the
  receivers take are then within bounds.
\<close>

fun sized_handshake :: "handshake_message \<Rightarrow> bool" where
  "sized_handshake (Handshake_Initiator len buf) = (len \<le> length buf)"
| "sized_handshake (Handshake_Responder len buf) = (len \<le> length buf)"
| "sized_handshake Handshake_Noop = True"

definition sized_envelope :: "sealed_envelope \<Rightarrow> bool" where
  "sized_envelope e \<longleftrightarrow> (\<forall>c\<in>set (env_chunks e). chunk_length c \<le> length (chunk_contents c))"

fun sized_request :: "request_message \<Rightarrow> bool" where
  "sized_request (Request_Transparent (ServerHandshake m)) = sized_handshake m"
| "sized_request (Request_Transparent (PeerHandshake key m)) = sized_handshake m"
| "sized_request (Request_Opaque (PeerMessage key sid e)) = sized_envelope e"
| "sized_request (Request_Opaque (Opaque_ServerMessage e)) = sized_envelope e"
| "sized_request _ = True"

definition good_request :: "('h, 't) env \<Rightarrow> request_message \<Rightarrow> bool" where
  "good_request E m \<longleftrightarrow> request_message_ok (stream E) m \<and> sized_request m"

definition client_ok :: "('h, 't) env \<Rightarrow> ('h, 't) client \<Rightarrow> bool" where
  "client_ok E c \<longleftrightarrow>
     (\<forall>m. Internal_Request m \<in> set (outbound c) \<longrightarrow> good_request E m) \<and>
     (\<forall>m\<in>set (inbound c). response_message_ok (stream E) m) \<and>
     (\<forall>frame\<in>set (socket c). \<exists>m. decodes_to E frame m \<and> good_request E m)"

definition handshake_bounded :: "('h, 't) snow_ops \<Rightarrow> bool" where
  "handshake_bounded S \<longleftrightarrow> (\<forall>h h' m. handshake_write S h [] 1024 = (h', Ok m) \<longrightarrow> length m \<le> 1024)"

definition wire_laws :: "('h, 't) env \<Rightarrow> bool" where
  "wire_laws E \<longleftrightarrow> stream_laws (stream E) \<and> zlib_laws E \<and> transport_safe (snow E) \<and> handshake_bounded (snow E)"

lemma client_ok_update [simp]:
  "client_ok E (c\<lparr>peers := p\<rparr>) = client_ok E c" "client_ok E (c\<lparr>server_channel := s\<rparr>) = client_ok E c"
  by (simp_all add: client_ok_def)

lemma client_ok_then:
  assumes "client_ok E (g (fst m))" and "\<And>s x. m = (s, Ok x) \<Longrightarrow> client_ok E (g s) \<Longrightarrow> client_ok E (fst (f s x))"
  shows "client_ok E (fst (st_then m f g))"
  using assms by (cases m; cases "snd m") auto

lemma outbound_send_ok:
  "client_ok E c \<Longrightarrow> (\<And>r. m = Internal_Request r \<Longrightarrow> good_request E r) \<Longrightarrow>
   client_ok E (fst (outbound_send m c))"
  by (auto simp: outbound_send_def client_ok_def)

text \<open>Each piece becomes a chunk that is longer by the authentication tag.\<close>

lemma split_pieces_sizes:
  assumes "transport_safe S" and "split_pieces S pieces t = (t', Ok chunks)"
  shows "list_all2 (\<lambda>p c. chunk_length c = length p + TAGLEN \<and> length (chunk_contents c) = chunk_length c) pieces chunks"
  using assms(2)
proof (induction pieces arbitrary: t chunks)
  case (Cons p pieces)
  then obtain t1 m cs where m: "transport_write S t p (length p + TAGLEN) = (t1, Ok m)"
    and cs: "split_pieces S pieces t1 = (t', Ok cs)"
    and chunks: "chunks = \<lparr>chunk_length = length m, chunk_contents = write_into (replicate (length p + TAGLEN) 0) m\<rparr> # cs"
    by (auto simp: st_then_Ok)
  have "length m = length p + TAGLEN" using transport_write_safe [OF assms(1) m] by blast
  then show ?case using Cons.IH [OF cs] chunks by simp
qed simp

lemma list_all2_member: "list_all2 P xs ys \<Longrightarrow> y \<in> set ys \<Longrightarrow> \<exists>x\<in>set xs. P x y"
  by (induction rule: list_all2_induct) auto

lemma sum_chunk_lengths:
  "list_all2 (\<lambda>p c. chunk_length c = length p + TAGLEN \<and> length (chunk_contents c) = chunk_length c) pieces chunks \<Longrightarrow>
   sum_list (map chunk_length chunks) = length (concat pieces) + TAGLEN * length chunks"
  by (induction rule: list_all2_induct) simp_all

lemma CHUNK_SIZE_pos: "0 < CHUNK_SIZE" "CHUNK_SIZE + TAGLEN = MAX_BUFFER_SIZE"
  by (simp_all add: CHUNK_SIZE_def TAGLEN_def MAX_BUFFER_SIZE_def)

lemma Chunk_split_sizes:
  assumes "transport_safe S" and "Chunk_split S payload t = (t', Ok chunks)"
  shows "length chunks = (length payload + CHUNK_SIZE - 1) div CHUNK_SIZE"
    and "c \<in> set chunks \<Longrightarrow> TAGLEN < chunk_length c \<and> chunk_length c \<le> MAX_BUFFER_SIZE \<and>
      length (chunk_contents c) = chunk_length c"
    and "sum_list (map chunk_length chunks) = length payload + TAGLEN * length chunks"
proof -
  let ?ps = "chunks_of CHUNK_SIZE payload"
  have s: "list_all2 (\<lambda>p c. chunk_length c = length p + TAGLEN \<and> length (chunk_contents c) = chunk_length c) ?ps chunks"
    using split_pieces_sizes [OF assms(1)] assms(2) by (simp add: Chunk_split_def)
  from list_all2_lengthD [OF s] show "length chunks = (length payload + CHUNK_SIZE - 1) div CHUNK_SIZE"
    by (simp add: length_chunks_of CHUNK_SIZE_pos)
  from sum_chunk_lengths [OF s] show "sum_list (map chunk_length chunks) = length payload + TAGLEN * length chunks"
    by (simp add: concat_chunks_of CHUNK_SIZE_pos)
  show "TAGLEN < chunk_length c \<and> chunk_length c \<le> MAX_BUFFER_SIZE \<and> length (chunk_contents c) = chunk_length c"
    if c: "c \<in> set chunks"
  proof -
    obtain p where p: "p \<in> set ?ps" "chunk_length c = length p + TAGLEN" "length (chunk_contents c) = chunk_length c"
      using list_all2_member [OF s c] by blast
    then show ?thesis using chunks_of_bounds [OF p(1)] CHUNK_SIZE_pos(2) by simp
  qed
qed

lemma chunks_of_full: "c \<in> set (butlast (chunks_of n xs)) \<Longrightarrow> length c = n"
proof (induction n xs rule: chunks_of.induct)
  case (1 n xs)
  show ?case
  proof (cases "n = 0 \<or> xs = []")
    case False
    have "drop n xs \<noteq> []" if "chunks_of n (drop n xs) \<noteq> []" using that by (auto simp: chunks_of.simps)
    then show ?thesis using 1 False by (auto simp: chunks_of.simps [of n xs] split: if_splits)
  qed (use 1 in \<open>auto simp: chunks_of.simps [of n xs]\<close>)
qed

lemma Chunk_split_full:
  assumes "transport_safe S" and "Chunk_split S payload t = (t', Ok chunks)" and "c \<in> set (butlast chunks)"
  shows "chunk_length c = MAX_BUFFER_SIZE"
proof -
  let ?ps = "chunks_of CHUNK_SIZE payload"
  have "list_all2 (\<lambda>p c. chunk_length c = length p + TAGLEN \<and> length (chunk_contents c) = chunk_length c) ?ps chunks"
    using split_pieces_sizes [OF assms(1)] assms(2) by (simp add: Chunk_split_def)
  then have "list_all2 (\<lambda>p c. chunk_length c = length p + TAGLEN \<and> length (chunk_contents c) = chunk_length c)
      (butlast ?ps) (butlast chunks)"
    by (auto simp: butlast_conv_take list_all2_lengthD intro: list_all2_takeI)
  from list_all2_member [OF this assms(3)] show ?thesis using chunks_of_full CHUNK_SIZE_pos(2) by fastforce
qed

lemma Chunk_split_ok:
  assumes "transport_safe S" and "Chunk_split S payload t = (t', Ok chunks)"
  shows "length chunks = (length payload + CHUNK_SIZE - 1) div CHUNK_SIZE \<and>
    (\<forall>c\<in>set chunks. chunk_ok c \<and> chunk_length c \<le> length (chunk_contents c))"
  using Chunk_split_sizes [OF assms] by (simp add: chunk_ok_def buffer_ok_def)

lemma encrypt_server_ok:
  assumes "transport_safe S" and "payload_ok payload" and "encrypt_server_channel S p payload b = (p', Ok e)"
  shows "good_request E (Request_Opaque (Opaque_ServerMessage e))"
  using assms Chunk_split_ok [OF assms(1)]
  by (cases p) (auto simp: st_then_Ok envelope_ok_def payload_ok_def good_request_def sized_envelope_def)

lemma encrypt_peer_ok:
  assumes "transport_safe S" and "payload_ok payload" and "enc \<noteq> Encoding_Noop" and "buffer_ok key" and "sid_ok sid"
    and "encrypt_peer_channel S key p payload enc b sid = (p', Ok m)"
  shows "good_request E m"
  using assms Chunk_split_ok [OF assms(1)]
  by (cases p) (auto simp: st_then_Ok envelope_ok_def payload_ok_def sid_ok_def good_request_def sized_envelope_def)

subsection \<open>Every action preserves well-formedness\<close>

lemma handshake_frame_ok:
  assumes "handshake_bounded S" and "handshake_write S h [] 1024 = (h', Ok m)"
  shows "good_request E (Request_Transparent (ServerHandshake (Handshake_Initiator (length m) (write_into (replicate 1024 0) m))))"
    and "buffer_ok key \<Longrightarrow> good_request E (Request_Transparent (PeerHandshake key
      (Handshake_Initiator (length m) (write_into (replicate 1024 0) m))))"
    and "buffer_ok key \<Longrightarrow> good_request E (Request_Transparent (PeerHandshake key
      (Handshake_Responder (length m) (write_into (replicate 1024 0) m))))"
proof -
  have "length m \<le> 1024" using assms by (auto simp: handshake_bounded_def)
  then have "length m \<le> MAX_BUFFER_SIZE" "buffer_ok (write_into (replicate 1024 0) m)"
    "length m \<le> length (write_into (replicate 1024 0) m)"
    by (simp_all add: buffer_ok_def MAX_BUFFER_SIZE_def)
  then show "good_request E (Request_Transparent (ServerHandshake (Handshake_Initiator (length m) (write_into (replicate 1024 0) m))))"
    "buffer_ok key \<Longrightarrow> good_request E (Request_Transparent (PeerHandshake key
      (Handshake_Initiator (length m) (write_into (replicate 1024 0) m))))"
    "buffer_ok key \<Longrightarrow> good_request E (Request_Transparent (PeerHandshake key
      (Handshake_Responder (length m) (write_into (replicate 1024 0) m))))"
    by (simp_all add: good_request_def)
qed

lemma relay_ok:
  assumes "wire_laws E" and "client_ok E c" and "payload_ok payload" and "enc \<noteq> Encoding_Noop"
    and "buffer_ok key" and "sid_ok sid"
  shows "client_ok E (fst (relay E key payload enc broadcast sid c))"
  using assms unfolding relay_def wire_laws_def
  by (auto split: option.splits intro!: client_ok_then outbound_send_ok dest: encrypt_peer_ok)

lemma relay_broadcast_ok:
  assumes "wire_laws E" and "client_ok E c" and "payload_ok payload" and "enc \<noteq> Encoding_Noop"
    and "\<forall>key\<in>set keys. buffer_ok key" and "length sid = 16"
  shows "client_ok E (fst (relay_broadcast E sid keys payload enc c))"
  using assms(2,5)
proof (induction keys arbitrary: c)
  case (Cons key keys)
  have "client_ok E (fst (relay E key payload enc True (Some sid) c))"
    using relay_ok [OF assms(1) Cons.prems(1) assms(3,4)] Cons.prems(2) assms(6) by (simp add: sid_ok_def)
  then show ?case unfolding relay_broadcast.simps using Cons.IH Cons.prems(2)
    by (intro client_ok_then) simp_all
qed simp

lemma request_ok_client:
  assumes "wire_laws E" and "client_ok E c" and "message_ok E message"
  shows "client_ok E (fst (request E message c))"
  using assms unfolding request_def wire_laws_def message_ok_def
  by (auto split: option.splits intro!: client_ok_then outbound_send_ok dest: encrypt_server_ok)

lemma client_connect_ok:
  assumes "wire_laws E" and "client_ok E c"
  shows "client_ok E (fst (client_connect E c))"
  using assms unfolding client_connect_def wire_laws_def
  by (auto split: option.splits protocol_state.splits intro!: client_ok_then outbound_send_ok
      intro: handshake_frame_ok)

lemma connect_peer_ok:
  assumes "wire_laws E" and "client_ok E c" and "buffer_ok key"
  shows "client_ok E (fst (connect_peer E random key c))"
  using assms unfolding connect_peer_def wire_laws_def
  by (auto intro!: client_ok_then outbound_send_ok intro: handshake_frame_ok)


lemma peer_handshake_responder_ok:
  assumes "wire_laws E" and "client_ok E c" and "buffer_ok key"
  shows "client_ok E (fst (peer_handshake_responder E random key len buf c))"
  using assms unfolding peer_handshake_responder_def wire_laws_def
  by (auto intro!: client_ok_then outbound_send_ok) (blast intro: handshake_frame_ok)+

lemma client_server_handshake_ok: "client_ok E c \<Longrightarrow> client_ok E (fst (client_server_handshake E len buf c))"
  by (auto simp: client_server_handshake_def Let_def split: option.splits protocol_state.splits intro!: client_ok_then)

lemma peer_handshake_ack_ok: "client_ok E c \<Longrightarrow> client_ok E (fst (peer_handshake_ack E key len buf c))"
  by (auto simp: peer_handshake_ack_def Let_def split: option.splits protocol_state.splits intro!: client_ok_then)

lemma handle_relayed_message_ok: "client_ok E c \<Longrightarrow> client_ok E (fst (handle_relayed_message E key envelope sid c))"
  by (auto simp: handle_relayed_message_def split: option.splits intro!: client_ok_then)

lemma some_event_ok: "client_ok E (fst r) \<Longrightarrow> client_ok E (fst (some_event r))"
  unfolding some_event_def by (rule client_ok_then) auto

lemma handle_incoming_ok:
  assumes "wire_laws E" and "client_ok E c" and "response_message_ok (stream E) m"
  shows "client_ok E (fst (handle_incoming_message E random m c))"
  using assms
  by (auto simp: handle_incoming_message_def Let_def
      split: response_message.splits transparent_message.splits handshake_message.splits opaque_message.splits option.splits
      intro!: client_ok_then some_event_ok peer_handshake_responder_ok client_server_handshake_ok
        peer_handshake_ack_ok handle_relayed_message_ok)

lemma fst_yields [simp]: "fst (yields r) = fst r"
  by (auto simp: yields_def split: prod.splits outcome.splits option.splits)

lemma loop_read_ok:
  assumes "wire_laws E" and "client_ok E c"
  shows "client_ok E (fst (loop_read E frame c))"
proof -
  have "client_ok E (c\<lparr>inbound := inbound c @ [m]\<rparr>)" if "decode ResponseMessage_decode (stream E) bs = Ok m" for bs m
    using assms response_message_codec.decode_sound [OF _ that] by (auto simp: client_ok_def wire_laws_def)
  then show ?thesis
    using assms(2)
    by (auto simp: loop_read_def client_read_message_def split: option.splits ws_message.splits intro!: client_ok_then)
qed

lemma wire_frame:
  assumes "wire_laws E" and "request_message_ok (stream E) m"
  shows "\<exists>bs b. encode RequestMessage_encode (stream E) m = Ok bs \<and> deflate E bs = Ok b \<and> decodes_to E (WsBinary b) m"
proof -
  obtain bs where bs: "encode RequestMessage_encode (stream E) m = Ok bs" "decode RequestMessage_decode (stream E) bs = Ok m"
    using request_message_codec.decode_encode assms by (auto simp: wire_laws_def)
  obtain b where "zlib_encode E bs = Ok b" "zlib_decode E b = Ok bs"
    using assms(1) by (auto simp: wire_laws_def zlib_laws_def)
  with bs show ?thesis by (auto simp: decodes_to_def deflate_def inflate_def)
qed

lemma loop_write_request:
  assumes "wire_laws E" and "client_ok E c" and "outbound c = Internal_Request m # rest"
  shows "\<exists>frame. decodes_to E frame m \<and>
    loop_write E writable closed c =
      (if writable then (c\<lparr>outbound := rest, socket := socket c @ [frame]\<rparr>, [])
       else (c\<lparr>outbound := rest\<rparr>, [Err WebSocketSend]))"
proof -
  have "request_message_ok (stream E) m" using assms(2,3) by (auto simp: client_ok_def good_request_def)
  from wire_frame [OF assms(1) this] show ?thesis
    using assms(3) by (auto simp: loop_write_def client_send_message_def yields_def)
qed

lemma loop_write_ok:
  assumes "wire_laws E" and "client_ok E c"
  shows "client_ok E (fst (loop_write E writable closed c))"
proof (cases "outbound c")
  case Nil
  then show ?thesis using assms by (simp add: loop_write_def)
next
  case (Cons m rest)
  then show ?thesis
  proof (cases m)
    case (Internal_Request r)
    with loop_write_request [OF assms, of r rest writable closed] Cons obtain frame where
      f: "decodes_to E frame r" "loop_write E writable closed c =
        (if writable then (c\<lparr>outbound := rest, socket := socket c @ [frame]\<rparr>, [])
         else (c\<lparr>outbound := rest\<rparr>, [Err WebSocketSend]))" by auto
    show ?thesis unfolding f(2) using f(1) assms(2) Cons Internal_Request by (auto simp: client_ok_def)
  next
    case Internal_Close
    then show ?thesis using assms(2) Cons by (simp add: loop_write_def client_ok_def)
  qed
qed

lemma loop_event_ok:
  assumes "wire_laws E" and "client_ok E c"
  shows "client_ok E (fst (loop_event E random c))"
proof (cases "inbound c")
  case (Cons m rest)
  then have "client_ok E (c\<lparr>inbound := rest\<rparr>)" "response_message_ok (stream E) m"
    using assms(2) by (auto simp: client_ok_def)
  then show ?thesis using handle_incoming_ok [OF assms(1)] Cons by (simp add: loop_event_def)
qed (use assms in \<open>simp add: loop_event_def\<close>)

lemma perform_ok:
  assumes "wire_laws E" and "client_ok E c" and "action_ok E a"
  shows "client_ok E (perform E a c)"
  using assms
  by (cases a) (auto simp: send_json_def send_blob_def broadcast_json_def broadcast_blob_def client_close_def
      request_new_meeting_def request_join_meeting_def request_new_session_def request_register_connection_def
      request_close_session_def
      intro!: client_connect_ok connect_peer_ok client_ok_then relay_ok relay_broadcast_ok request_ok_client
        loop_read_ok loop_write_ok loop_event_ok outbound_send_ok)

lemma client_new_ok: "client_new E random attempt opts = Ok c \<Longrightarrow> client_ok E c"
  by (auto simp: client_new_def outcome_simps client_ok_def split: if_splits)

lemma reachable_client_ok: "client_reachable E c \<Longrightarrow> wire_laws E \<Longrightarrow> client_ok E c"
  by (induction rule: client_reachable.induct) (auto intro: client_new_ok perform_ok)

text \<open>
  C14: The client keeps to the format of the protocol. Whatever calls a program makes and whatever
  arrives from the network, every frame a client has written to its socket inflates and decodes to
  a well-formed request that declares no more bytes than it carries; and the next queued request
  is always written to a working socket without an error or a panic, as a frame from which exactly
  this request is decoded.
\<close>

theorem client_speaks_protocol:
  assumes "wire_laws E" and "client_reachable E c"
  shows "(\<forall>frame\<in>set (socket c). \<exists>m. decodes_to E frame m \<and> request_message_ok (stream E) m \<and> sized_request m) \<and>
    (\<forall>m rest closed. outbound c = Internal_Request m # rest \<longrightarrow>
      (\<exists>frame. decodes_to E frame m \<and>
        loop_write E True closed c = (c\<lparr>outbound := rest, socket := socket c @ [frame]\<rparr>, [])))"
proof -
  have ok: "client_ok E c" using reachable_client_ok assms by blast
  then have "\<forall>frame\<in>set (socket c). \<exists>m. decodes_to E frame m \<and> request_message_ok (stream E) m \<and> sized_request m"
    by (simp add: client_ok_def good_request_def)
  with loop_write_request [OF assms(1) ok, where writable = True] show ?thesis by auto
qed

lemma sample_wire_laws: "wire_laws sample_env"
proof -
  have "handshake_bounded counter_snow"
    by (auto simp: handshake_bounded_def counter_snow_def split: if_splits)
  then show ?thesis
    by (simp add: wire_laws_def sample_env_def le_stream_laws counter_transport_safe zlib_laws_def)
qed

theorem client_speaks_protocol_witness:
  "\<exists>c frame. client_new sample_env 0 (Ok (SWITCHING_PROTOCOLS, ''ok'')) (options (sample_client [5])) = Ok c \<and>
     loop_write sample_env True (Ok ()) (perform sample_env Connect_Server c) =
       (c\<lparr>server_channel := Some (Handshake (True, 1)), outbound := [], socket := [frame]\<rparr>, []) \<and>
     decodes_to sample_env frame (Request_Transparent (ServerHandshake (Handshake_Initiator 1 (handshake_frame [1]))))"
proof -
  let ?c = "sample_client [5]"
  have new: "client_new sample_env 0 (Ok (SWITCHING_PROTOCOLS, ''ok'')) (options ?c) = Ok ?c"
    by (simp add: client_new_def ClientOptions_params_def sample_client_def sample_env_def counter_snow_def)
  have "client_reachable sample_env (perform sample_env Connect_Server ?c)"
    by (intro client_reachable.intros, rule new) simp
  moreover have p: "perform sample_env Connect_Server ?c = ?c\<lparr>server_channel := Some (Handshake (True, 1)),
      outbound := [Internal_Request (Request_Transparent (ServerHandshake (Handshake_Initiator 1 (handshake_frame [1]))))]\<rparr>"
    by (simp add: client_connect_def outbound_send_def sample_client_def sample_env_def counter_snow_def)
  ultimately obtain frame where "decodes_to sample_env frame
      (Request_Transparent (ServerHandshake (Handshake_Initiator 1 (handshake_frame [1]))))"
    "loop_write sample_env True (Ok ()) (perform sample_env Connect_Server ?c) =
       ((perform sample_env Connect_Server ?c)\<lparr>outbound := [], socket := socket (perform sample_env Connect_Server ?c) @ [frame]\<rparr>, [])"
    using client_speaks_protocol [OF sample_wire_laws, of "perform sample_env Connect_Server ?c"] by (auto simp: p)
  moreover have "socket ?c = []" by (simp add: sample_client_def)
  ultimately show ?thesis using new by (intro exI [of _ ?c] exI [of _ frame]) (simp add: p del: perform.simps)
qed


subsection \<open>Sizes of sealed payloads\<close>

lemma ceil_le: "0 < n \<Longrightarrow> (m + n - 1) div n < (k :: nat) \<longleftrightarrow> m \<le> n * (k - 1) \<and> 0 < k"
proof -
  assume n: "0 < n"
  have "(m + n - 1) div n < k \<longleftrightarrow> m + n - 1 < k * n" using n by (simp add: less_mult_imp_div_less div_less_iff_less_mult)
  also have "\<dots> \<longleftrightarrow> m \<le> n * (k - 1) \<and> 0 < k" using n by (cases k) (auto simp: algebra_simps)
  finally show ?thesis .
qed

text \<open>
  C24: The sizes of what the client and the server encrypt. A payload that is sealed becomes the
  least number of chunks of at most 65535 bytes, which is what a noise message allows. Every chunk
  but the last is full, no chunk is empty, every length it declares is the length it has, and
  together they are longer than the payload by 16 bytes each. The number of chunks fits the field
  of four bytes that an envelope has for it exactly up to a payload of 65519 times (2 to the 32,
  minus 1) bytes.
\<close>

theorem sealed_payload_bounds:
  assumes "transport_safe S" and "Chunk_split S payload t = (t', Ok chunks)"
  shows "length chunks = (length payload + 65518) div 65519 \<and>
    (\<forall>c\<in>set chunks. 16 < chunk_length c \<and> chunk_length c \<le> 65535 \<and> length (chunk_contents c) = chunk_length c) \<and>
    (\<forall>c\<in>set (butlast chunks). chunk_length c = 65535) \<and>
    sum_list (map chunk_length chunks) = length payload + 16 * length chunks \<and>
    (length chunks < 2 ^ 32 \<longleftrightarrow> length payload \<le> 65519 * (2 ^ 32 - 1))"
proof -
  have C: "CHUNK_SIZE = 65519" "TAGLEN = 16" "MAX_BUFFER_SIZE = 65535"
    by (simp_all add: CHUNK_SIZE_def TAGLEN_def MAX_BUFFER_SIZE_def)
  note z = Chunk_split_sizes [OF assms, unfolded C]
  have "length chunks < 2 ^ 32 \<longleftrightarrow> length payload \<le> 65519 * (2 ^ 32 - 1)"
    using ceil_le [of 65519 "length payload" "2 ^ 32"] z(1) by simp
  moreover have "\<forall>c\<in>set (butlast chunks). chunk_length c = 65535"
    using Chunk_split_full [OF assms] C(3) by simp
  ultimately show ?thesis using z by simp
qed

text \<open>
  Such an envelope is read back from its encoding exactly if the number of its chunks fits: the
  limit of the code on a chunk is \<open>MAX_BUFFER_SIZE\<close>, twice what the documentation of the crate says.
\<close>

lemma sealed_envelope_read_back:
  assumes "stream_laws B" and "transport_safe S" and "Chunk_split S payload t = (t', Ok chunks)"
    and e: "e = \<lparr>env_encoding = Json, env_chunks = chunks, env_broadcast = b\<rparr>"
  shows "(\<exists>bs. encode SealedEnvelope_encode B e = Ok bs \<and> decode SealedEnvelope_decode B bs = Ok e) \<longleftrightarrow>
    length chunks < 2 ^ 32"
proof -
  have "(\<exists>bs. encode SealedEnvelope_encode B e = Ok bs \<and> decode SealedEnvelope_decode B bs = Ok e) \<longleftrightarrow> envelope_ok e"
    using envelope_codec.decode_encode [OF assms(1), of e] envelope_codec.decode_sound [OF assms(1), of _ e] by blast
  also have "\<dots> \<longleftrightarrow> length chunks < 2 ^ 32"
    using Chunk_split_ok [OF assms(2,3)] by (auto simp: e envelope_ok_def)
  finally show ?thesis .
qed

theorem sealed_payload_bounds_witness:
  "\<exists>t' chunks. Chunk_split counter_snow (replicate 70000 1) (0, 0) = (t', Ok chunks) \<and> length chunks = 2 \<and>
     chunk_length (hd chunks) = 65535 \<and> sum_list (map chunk_length chunks) = 70032"
proof -
  obtain t' chunks where c: "Chunk_split counter_snow (replicate 70000 1) (0, 0) = (t', Ok chunks)"
    using chunk_split_join [OF counter_transport_laws, of "(0, 0)" "(0, 0)" "replicate 70000 1" True]
    by (auto simp: counter_sync_def)
  note b = sealed_payload_bounds [OF counter_transport_safe c]
  then have "length chunks = 2" by simp
  moreover from this obtain x y where "chunks = [x, y]" by (auto simp: numeral_2_eq_2 length_Suc_conv)
  ultimately show ?thesis using b c by auto
qed

end
