(* ===== verification/Network.thy ===== *)
theory Network
  imports Client_Machine
begin

text \<open>
  The whole system: a relay server and the clients that are connected to it, with the sockets
  between them. Every client runs the code of this repository; what the programs on top of the
  clients do, how the tasks interleave and when a socket fails is arbitrary.
\<close>

subsection \<open>What the server sends\<close>

text \<open>The responses that the event loop of a client can handle without reaching \<open>unreachable!()\<close>.\<close>

fun expected_response :: "response_message \<Rightarrow> bool" where
  "expected_response (Response_Transparent (Transparent_Error code msg)) = True"
| "expected_response (Response_Transparent (ServerHandshake (Handshake_Responder len buf))) = (len \<le> length buf)"
| "expected_response (Response_Transparent (PeerHandshake key m)) = (m \<noteq> Handshake_Noop \<and> sized_handshake m)"
| "expected_response (Response_Opaque (PeerMessage key sid e)) = (env_encoding e \<noteq> Encoding_Noop \<and> sized_envelope e)"
| "expected_response (Response_Opaque (Opaque_ServerMessage e)) = (env_encoding e = Blob \<and> sized_envelope e)"
| "expected_response _ = False"

text \<open>The responses that the server builds: a sealed message may have any number of chunks, and an
  error text any length.\<close>

fun built_response :: "codec_ops \<Rightarrow> response_message \<Rightarrow> bool" where
  "built_response B (Response_Transparent (Transparent_Error code msg)) = True"
| "built_response B (Response_Opaque (Opaque_ServerMessage e)) =
     (env_encoding e = Blob \<and> (\<forall>c\<in>set (env_chunks e). chunk_ok c) \<and> sized_envelope e)"
| "built_response B (Response_Transparent (PeerHandshake key m)) = (handshake_ok m \<and> sized_handshake m)"
| "built_response B (Response_Opaque (PeerMessage key sid e)) =
     (opaque_ok (PeerMessage [] sid e) \<and> sized_envelope e)"
| "built_response B m = (response_message_ok B m \<and> expected_response m)"

lemma envelope_encode_prefix:
  assumes "SealedEnvelope_encode B e = Ok bs"
    and "e' = e\<lparr>env_chunks := take (length (env_chunks e) mod 2 ^ 32) (env_chunks e)\<rparr>"
  shows "\<exists>bs' x. SealedEnvelope_encode B e' = Ok bs' \<and> bs = bs' @ x"
proof -
  let ?n = "length (env_chunks e) mod 2 ^ 32"
  have n: "(of_nat (length (env_chunks e')) :: u32) = of_nat (length (env_chunks e))"
    by (simp add: assms(2) min_absorb2 word_of_nat_eq_iff take_bit_eq_mod)
  have "env_chunks e = env_chunks e' @ drop ?n (env_chunks e)" by (simp add: assms(2))
  then have "write_seq (map (Chunk_encode B) (env_chunks e)) =
      and_then (write_seq (map (Chunk_encode B) (env_chunks e')))
        (\<lambda>a. and_then (write_seq (map (Chunk_encode B) (drop ?n (env_chunks e)))) (\<lambda>b. Ok (a @ b)))"
    by (metis map_append write_seq_append)
  with assms(1) n show ?thesis
    unfolding SealedEnvelope_encode_def write_seq_Ok_Cons by (auto simp: assms(2) outcome_simps)
qed

lemma response_decodes:
  assumes "stream_laws B" and "response_message_ok B r" and "ResponseMessage_encode B r = Ok bs"
    and "decode ResponseMessage_decode B (bs @ x) = Ok m"
  shows "m = r"
  using reads_back_Ok [OF response_message_codec.roundtrip [OF assms(1,2)] assms(3), of x] assms(4)
  by (simp add: decode_def)

lemma sealed_decodes:
  assumes "stream_laws B" and "built_response B (Response_Opaque (Opaque_ServerMessage e))"
    and "ResponseMessage_encode B (Response_Opaque (Opaque_ServerMessage e)) = Ok bs"
    and "decode ResponseMessage_decode B bs = Ok m"
  shows "expected_response m"
proof -
  let ?e = "e\<lparr>env_chunks := take (length (env_chunks e) mod 2 ^ 32) (env_chunks e)\<rparr>"
  let ?r = "Response_Opaque (Opaque_ServerMessage ?e)"
  obtain a b c d where w: "encode_preamble B = Ok a" "write_u8 B OPAQUE = Ok b" "write_u8 B OPAQUE_SERVER = Ok c"
    "SealedEnvelope_encode B e = Ok d" "bs = a @ b @ c @ d"
    using assms(3) by (auto simp: ResponseMessage_encode_def OpaqueMessage_encode_def outcome_simps)
  obtain d' x where d: "SealedEnvelope_encode B ?e = Ok d'" "d = d' @ x"
    using envelope_encode_prefix [OF w(4) refl] by blast
  have enc: "ResponseMessage_encode B ?r = Ok (a @ b @ c @ d')"
    using w(1-3) d by (simp add: ResponseMessage_encode_def OpaqueMessage_encode_def)
  have "response_message_ok B ?r"
    using assms(2) by (auto simp: envelope_ok_def dest: in_set_takeD)
  from response_decodes [OF assms(1) this enc, of x m] have "m = ?r" using assms(4) w(5) d(2) by simp
  then show ?thesis using assms(2) by (auto simp: sized_envelope_def dest: in_set_takeD)
qed

lemma error_decodes:
  assumes "stream_laws B" and "ResponseMessage_encode B (Response_Transparent (Transparent_Error code msg)) = Ok bs"
    and "decode ResponseMessage_decode B bs = Ok m"
  shows "expected_response m"
proof -
  obtain a b c d where w: "encode_preamble B = Ok a" "write_u8 B TRANSPARENT = Ok b" "write_u8 B ERROR_KIND = Ok c"
    "bs = a @ b @ c @ d"
    using assms(2) by (auto simp: ResponseMessage_encode_def TransparentMessage_encode_def outcome_simps)
  have "decode_preamble B (a @ r) = Ok ((), r)" "read_u8 B (b @ r) = Ok (TRANSPARENT, r)" "read_u8 B (c @ r) = Ok (ERROR_KIND, r)" for r
    using w preamble_codec.roundtrip [OF assms(1)] stream_reads_back(1) [OF assms(1)] by (auto dest: reads_back_Ok)
  then show ?thesis
    using assms(3) w(4)
    by (auto simp: decode_def ResponseMessage_decode_def TransparentMessage_decode_def outcome_simps)
qed

lemma built_decodes:
  assumes "stream_laws B" and "built_response B r" and "ResponseMessage_encode B r = Ok bs"
    and "decode ResponseMessage_decode B bs = Ok m"
  shows "expected_response m"
proof (cases "response_message_ok B r \<and> expected_response r")
  case True
  then show ?thesis using response_decodes [OF assms(1) _ assms(3), of "[]" m] assms(4) by simp
next
  case False
  then consider (error) code msg where "r = Response_Transparent (Transparent_Error code msg)"
    | (sealed) e where "r = Response_Opaque (Opaque_ServerMessage e)"
    using assms(2,3)
    by (cases r rule: expected_response.cases)
       (auto simp: ResponseMessage_encode_def TransparentMessage_encode_def OpaqueMessage_encode_def encode_buffer_def
          buffer_ok_def envelope_ok_def outcome_simps split: if_splits)
  then show ?thesis
  proof cases
    case error
    then show ?thesis using error_decodes [OF assms(1) _ assms(4)] assms(3) by blast
  next
    case sealed
    then show ?thesis using sealed_decodes [OF assms(1) _ _ assms(4)] assms(2,3) by blast
  qed
qed

subsection \<open>Queues of the server\<close>

definition harmless :: "('h, 't) env \<Rightarrow> ws_message \<Rightarrow> bool" where
  "harmless E frame \<longleftrightarrow> (\<forall>b bs m. frame = WsBinary b \<longrightarrow> inflate E b = Ok bs \<longrightarrow>
     decode ResponseMessage_decode (stream E) bs = Ok m \<longrightarrow> expected_response m)"

definition good_buffer :: "('h, 't) env \<Rightarrow> bytes \<Rightarrow> bool" where
  "good_buffer E buffer \<longleftrightarrow> (\<exists>m. decode RequestMessage_decode (stream E) buffer = Ok m \<and> good_request E m)"

definition queues_ok :: "('h, 't) env \<Rightarrow> ('h, 't) connection \<Rightarrow> bool" where
  "queues_ok E conn \<longleftrightarrow> (\<forall>frame\<in>set (outgoing conn). harmless E frame) \<and> (\<forall>b\<in>set (incoming conn). good_buffer E b)"

definition frames_ok :: "('h, 't) env \<Rightarrow> ('h, 't) server_state \<Rightarrow> bool" where
  "frames_ok E s \<longleftrightarrow> (\<forall>c. queues_ok E (conns s c))"

lemma queued_buffer: "frames_ok E s \<Longrightarrow> buffer \<in> set (incoming (conns s c)) \<Longrightarrow> good_buffer E buffer"
  by (simp add: frames_ok_def queues_ok_def)

lemma queued_frame: "frames_ok E s \<Longrightarrow> frame \<in> set (outgoing (conns s c)) \<Longrightarrow> harmless E frame"
  by (simp add: frames_ok_def queues_ok_def)

lemma frames_update:
  "frames_ok E s \<Longrightarrow> (queues_ok E (conns s c) \<Longrightarrow> queues_ok E (f (conns s c))) \<Longrightarrow> frames_ok E (update_conn c f s)"
  by (simp add: frames_ok_def update_conn_def)

lemma frames_other [simp]:
  "frames_ok E (s\<lparr>sessions := xs\<rparr>) = frames_ok E s" "frames_ok E (s\<lparr>meetings := ms\<rparr>) = frames_ok E s"
  "frames_ok E (s\<lparr>tasks := ts\<rparr>) = frames_ok E s" "frames_ok E (promote_connection c s) = frames_ok E s"
  "frames_ok E (disconnect c s) = frames_ok E s"
  by (simp_all add: frames_ok_def promote_connection_def disconnect_def)

lemma frames_set_state [simp]: "frames_ok E (set_state c p s) = frames_ok E s"
  by (auto simp: frames_ok_def set_state_def update_conn_def queues_ok_def)

lemma frames_conns: "conns s' = conns s \<Longrightarrow> frames_ok E s' = frames_ok E s"
  by (simp add: frames_ok_def)

lemma frames_then:
  assumes "frames_ok E (g (fst m))" and "\<And>s x. m = (s, Ok x) \<Longrightarrow> frames_ok E (g s) \<Longrightarrow> frames_ok E (fst (f s x))"
  shows "frames_ok E (fst (st_then m f g))"
  using assms by (cases m; cases "snd m") auto

lemma frames_outgoing_send: "frames_ok E s \<Longrightarrow> harmless E m \<Longrightarrow> frames_ok E (fst (outgoing_send c m s))"
  by (auto simp: outgoing_send_def queues_ok_def intro!: frames_update)

lemma frames_send_response:
  assumes "wire_laws E" and "frames_ok E s" and "built_response (stream E) r"
  shows "frames_ok E (fst (send_response E c r s))"
proof -
  have "harmless E (WsBinary b)" if "ResponseMessage_encode (stream E) r = Ok bs" "deflate E bs = Ok b" for bs b
  proof -
    have "inflate E b = Ok bs"
      using assms(1) that(2) by (auto simp: wire_laws_def zlib_laws_def deflate_def inflate_def) (metis outcome.inject(1))
    then show ?thesis
      using built_decodes [OF _ assms(3) that(1)] assms(1) by (auto simp: harmless_def wire_laws_def)
  qed
  then show ?thesis
    using assms(2) unfolding send_response_def conn_send_def encode_def
    by (auto intro!: frames_then frames_outgoing_send)
qed

lemma encrypt_built:
  assumes "wire_laws E" and "encrypt_server_channel (snow E) p payload b = (p', Ok e)"
  shows "built_response (stream E) (Response_Opaque (Opaque_ServerMessage e))"
  using assms Chunk_split_ok [of "snow E" payload]
  by (cases p) (auto simp: st_then_Ok wire_laws_def sized_envelope_def)

lemma frames_send_message:
  assumes "wire_laws E" and "frames_ok E s"
  shows "frames_ok E (fst (send_message E c m broadcast s))"
  using assms unfolding send_message_def
  by (auto intro!: frames_then frames_send_response encrypt_built split: option.splits)

lemma frames_notify_each:
  assumes "wire_laws E"
  shows "frames_ok E s \<Longrightarrow> frames_ok E (fst (notify_each E keys m s))"
proof (induction keys arbitrary: s)
  case (Cons key keys)
  have "frames_ok E (fst (st_then (send_message E c m True s) (\<lambda>s _. notify_each E keys m s) id))" for c
    using frames_send_message [OF assms Cons.prems] Cons.IH by (intro frames_then) simp_all
  then show ?case using Cons by (simp split: option.split)
qed simp

lemma frames_handle_error:
  "wire_laws E \<Longrightarrow> frames_ok E s \<Longrightarrow> frames_ok E (fst (handle_error E c e s))"
  by (auto simp: handle_error_def intro: frames_send_message frames_send_response
      split: option.splits protocol_state.splits)

lemma frames_relay_to:
  "wire_laws E \<Longrightarrow> frames_ok E s \<Longrightarrow> built_response (stream E) r \<Longrightarrow> frames_ok E (fst (relay_to E key r s))"
  by (auto simp: relay_to_def intro: frames_send_response split: option.splits)

lemma frames_server_handshake:
  assumes "wire_laws E" and "frames_ok E s"
  shows "frames_ok E (fst (server_handshake E c len buf s))"
proof -
  have "built_response (stream E) (Response_Transparent (ServerHandshake
      (Handshake_Responder (length m) (write_into (replicate 1024 0) m))))"
    if "handshake_write (snow E) h [] 1024 = (h', Ok m)" for h h' m
  proof -
    have "length m \<le> 1024" using assms(1) that by (auto simp: wire_laws_def handshake_bounded_def)
    then show ?thesis by (simp add: buffer_ok_def MAX_BUFFER_SIZE_def)
  qed
  then show ?thesis
    using assms unfolding server_handshake_def Let_def
    by (auto intro!: frames_then frames_send_response split: option.splits protocol_state.splits)
qed

lemma frames_check_session: "frames_ok E s \<Longrightarrow> frames_ok E (fst (check_session E now sid key s))"
  by (auto simp: check_session_def Let_def split: option.splits prod.splits)

lemma frames_service [simp]: "frames_ok E (fst (service now new_id c key m s)) = frames_ok E s"
  by (rule frames_conns) (rule service_conns)

lemma frames_server_request:
  assumes "wire_laws E" and "frames_ok E s"
  shows "frames_ok E (fst (server_request E now new_id c envelope s))"
  using assms unfolding server_request_def Let_def
  by (auto intro!: frames_then frames_send_message split: option.splits)

lemma frames_handle_request:
  assumes "wire_laws E" and "frames_ok E s" and "good_request E m"
  shows "frames_ok E (fst (handle_request E now new_id c m s))"
  using assms(3) unfolding handle_request_def good_request_def
  by (auto intro!: frames_then frames_check_session frames_relay_to frames_server_handshake
      frames_server_request assms(1,2) simp: buffer_ok_def
      split: request_message.splits transparent_message.splits handshake_message.splits opaque_message.splits)

lemma frames_listen:
  assumes "wire_laws E" and "frames_ok E s"
  shows "frames_ok E (listen E now new_id c s)"
proof (cases "incoming (conns s c)")
  case (Cons buffer rest)
  let ?u = "update_conn c (\<lambda>conn. conn\<lparr>incoming := rest\<rparr>) s"
  have u: "frames_ok E ?u" using assms(2) Cons by (auto intro!: frames_update simp: queues_ok_def)
  have close: "frames_ok E (close_incoming c v)" if "frames_ok E v" for v
    using that by (auto simp: close_incoming_def queues_ok_def intro!: frames_update)
  obtain m where m: "decode RequestMessage_decode (stream E) buffer = Ok m" "good_request E m"
    using queued_buffer [OF assms(2), of buffer c] Cons by (auto simp: good_buffer_def)
  obtain v x where v: "handle_request E now new_id c m ?u = (v, x)" by fastforce
  then have ok: "frames_ok E v" using frames_handle_request [OF assms(1) u m(2), of now new_id c] by simp
  have "frames_ok E w" if "handle_error E c e v = (w, y)" for e w y
    using frames_handle_error [OF assms(1) ok, of c e] that by simp
  then show ?thesis
    using Cons m(1) v ok close
    by (auto simp: listen_def listen_one_def split: outcome.split prod.split)
qed (simp add: listen_def assms(2))

lemma frames_read_one:
  assumes "frames_ok E s" and "\<And>frame. msg = Some frame \<Longrightarrow> \<exists>m. decodes_to E frame m \<and> good_request E m"
  shows "frames_ok E (fst (read_one E c msg s))"
  using assms
  by (auto simp: read_one_def queues_ok_def decodes_to_def good_buffer_def
      split: option.splits ws_message.splits outcome.splits intro!: frames_update)

lemma frames_write_one: "frames_ok E s \<Longrightarrow> frames_ok E (fst (write_one c sent s))"
proof (cases "outgoing (conns s c)")
  case (Cons m rest)
  assume "frames_ok E s"
  then have "frames_ok E (update_conn c (\<lambda>conn. conn\<lparr>outgoing := rest\<rparr>) s)"
    using Cons by (auto intro!: frames_update simp: queues_ok_def)
  then show ?thesis
    using Cons by (auto simp: write_one_def Let_def close_outgoing_def queues_ok_def intro!: frames_update)
qed (simp add: write_one_def)

lemma frames_upgrade: "frames_ok E s \<Longrightarrow> frames_ok E (fst (upgrade E new_id random key s))"
  unfolding upgrade_def Let_def
  by (auto split: st_then_splits) (auto simp: frames_ok_def queues_ok_def)

lemma frames_tick: "wire_laws E \<Longrightarrow> frames_ok E s \<Longrightarrow> frames_ok E (fst (tick E now task s))"
proof -
  assume "wire_laws E" and "frames_ok E s"
  then have "frames_ok E (fst (ignore_error (notify_each E keys m s) ts))" for keys m ts
    using frames_notify_each [of E s keys m]
    by (auto simp: ignore_error_def split: prod.splits outcome.splits)
  then show ?thesis
    using \<open>frames_ok E s\<close>
    by (cases "(E, now, task, s)" rule: tick.cases)
       (simp_all add: tick_defs notify_defs split: option.split outcome.split)
qed

lemma frames_run_tick: "wire_laws E \<Longrightarrow> frames_ok E s \<Longrightarrow> frames_ok E (run_tick E now i s)"
  using frames_tick [of E s now "tasks s ! i"] by (auto simp: run_tick_def split: prod.splits)

lemma frames_purge: "frames_ok E s \<Longrightarrow> frames_ok E (fst (purge_expired E mc sc s))"
  unfolding purge_expired_def Let_def by (auto intro!: frames_then)

subsection \<open>The listener goes on\<close>

definition same_open :: "('h, 't) server_state \<Rightarrow> ('h, 't) server_state \<Rightarrow> bool" where
  "same_open s s' \<longleftrightarrow> (\<forall>c. incoming_open (conns s' c) = incoming_open (conns s c))"

lemma open_quiet: "quiet s s' \<Longrightarrow> same_open s s'"
  by (auto simp: quiet_def quiet_conn_def same_open_def)

lemma open_conns: "conns s' = conns s \<Longrightarrow> same_open s s'"
  by (simp add: same_open_def)

lemma open_state [simp]:
  "same_open s (set_state c p s)" "same_open s (promote_connection c s)"
  by (simp_all add: same_open_def set_state_def update_conn_def promote_connection_def)

lemma open_trans: "same_open s t \<Longrightarrow> same_open t u \<Longrightarrow> same_open s u"
  by (simp add: same_open_def)

lemma open_then:
  assumes "same_open s (g (fst m))" and "\<And>t x. m = (t, Ok x) \<Longrightarrow> same_open (g t) (fst (f t x))"
  shows "same_open s (fst (st_then m f g))"
  using assms by (cases m; cases "snd m") (auto intro: open_trans)

lemma open_server_handshake: "same_open s (fst (server_handshake E c len buf s))"
proof -
  have "same_open s (fst (st_then (send_response E c r (set_state c p s)) (\<lambda>s _.
      case conn_state (conns s c) of
        Some (Handshake h) \<Rightarrow> st_then (set_state c None s, map_err Server_Snow (into_transport_mode (snow E) h))
          (\<lambda>s transport. (promote_connection c (set_state c (Some (Transport transport)) s), Ok ())) id
      | _ \<Rightarrow> (set_state c None s, Panic)) id))" for r p
    by (rule open_then)
       (auto intro: open_trans [OF open_state(1) open_quiet [OF quiet_send_response]] open_trans [OF open_state(1)]
          split: option.split protocol_state.split st_then_splits,
        (meson open_state open_trans)+)
  then show ?thesis
    by (auto simp: server_handshake_def Let_def same_open_def [of s s] split: option.split protocol_state.split st_then_splits)
qed

lemma open_service: "same_open s (fst (service now new_id c key m s))"
  by (rule open_conns) (rule service_conns)

lemma open_refl [simp]: "same_open s s"
  by (simp add: same_open_def)

lemma open_send_message: "same_open s (fst (send_message E c m broadcast s))"
  by (rule open_quiet) (rule quiet_send_message)

lemma open_server_request: "same_open s (fst (server_request E now new_id c envelope s))"
  unfolding server_request_def Let_def
  by (auto intro!: open_then open_send_message open_service split: option.split)

lemma open_handle_request: "same_open s (fst (handle_request E now new_id c m s))"
proof -
  have "conns (fst (check_session E now sid key s)) = conns s" for sid key
    by (auto simp: check_session_def Let_def split: option.splits prod.splits)
  then have "same_open s (fst (st_then (check_session E now sid key s) (\<lambda>s _. relay_to E key (f s) s) id))" for sid key f
    by (intro open_then) (auto intro: open_conns open_quiet quiet_relay_to)
  then show ?thesis
    unfolding handle_request_def
    by (auto intro: open_server_handshake open_server_request open_quiet quiet_relay_to
        split: request_message.split transparent_message.split handshake_message.split opaque_message.split)
qed

lemma listen_stays_open:
  assumes "env_safe E" and "server_inv s" and "frames_ok E s" and "conn_state (conns s c) \<noteq> None"
  shows "same_open s (listen E now new_id c s)"
proof (cases "incoming (conns s c)")
  case (Cons buffer rest)
  let ?u = "update_conn c (\<lambda>conn. conn\<lparr>incoming := rest\<rparr>) s"
  obtain m where m: "decode RequestMessage_decode (stream E) buffer = Ok m" "good_request E m"
    using queued_buffer [OF assms(3), of buffer c] Cons by (auto simp: good_buffer_def)
  have "server_inv ?u" using assms(2) by (rule inv_update_conn) auto
  moreover have "conn_state (conns ?u c) \<noteq> None" using assms(4) by (simp add: update_conn_def)
  ultimately have "snd (handle_request E now new_id c m ?u) \<noteq> Panic"
    using m(2) by (intro handle_request_safe [OF assms(1)]) (auto simp: good_request_def sized_envelope_def)
  moreover have o: "same_open s (fst (handle_request E now new_id c m ?u))"
    by (rule open_trans [OF _ open_handle_request]) (simp add: same_open_def update_conn_def)
  moreover have "same_open s w" "y \<noteq> Panic"
    if "handle_request E now new_id c m ?u = (v, Err e)" "handle_error E c e v = (w, y)" for v e w y
    using that o open_trans [OF _ open_quiet [OF quiet_handle_error [of v E c e]], of s] handle_error_safe [OF assms(1), of c e v]
    by auto
  ultimately show ?thesis
    using Cons m(1) by (auto simp: listen_def listen_one_def split: outcome.split prod.split)
qed (simp add: listen_def same_open_def)

subsection \<open>The event loop of a client goes on\<close>

text \<open>The builder of \<open>snow\<close> and the parser of its patterns return a \<open>Result\<close>.\<close>

definition builder_safe :: "('h, 't) snow_ops \<Rightarrow> bool" where
  "builder_safe S \<longleftrightarrow> (\<forall>p. parse_params S p \<noteq> Panic) \<and>
     (\<forall>random params private key. build_responder S random params private key \<noteq> Panic)"

lemma handshake_safe_ops:
  assumes "handshake_safe S"
  shows "handshake_read S h m n \<noteq> (h', Panic)" "handshake_write S h m n \<noteq> (h', Panic)" "into_transport_mode S h \<noteq> Panic"
  using assms by (auto simp: handshake_safe_def) (metis snd_conv)+

lemma decrypt_safe:
  assumes "transport_safe S" and "sized_envelope e"
  shows "decrypt_server_channel checks S p e \<noteq> (q, Panic)" and "decrypt_peer_channel checks S p e \<noteq> (q, Panic)"
proof -
  have "Chunk_join checks S (env_chunks e) t \<noteq> (t', Panic)" for t t'
    using Chunk_join_safe [OF assms(1) assms(2) [unfolded sized_envelope_def], of checks t] by auto
  then show "decrypt_server_channel checks S p e \<noteq> (q, Panic)" "decrypt_peer_channel checks S p e \<noteq> (q, Panic)"
    by (cases p; auto split: st_then_splits)+
qed

lemma decrypt_encoding:
  "decrypt_peer_channel checks S p e = (q, Ok (enc, contents)) \<Longrightarrow> enc = env_encoding e"
  "decrypt_server_channel checks S p e = (q, Ok (enc, contents)) \<Longrightarrow> enc = env_encoding e"
  by (cases p; auto simp: st_then_Ok)+

lemma handle_incoming_safe:
  assumes "env_safe E" and "builder_safe (snow E)" and "expected_response m" and "server_channel c \<noteq> None"
  shows "snd (handle_incoming_message E random m c) \<noteq> Panic"
proof -
  note hs = handshake_safe_ops [of "snow E"]
  have H: "handshake_safe (snow E)" "transport_safe (snow E)" "stream_laws (stream E)"
    using assms(1) by (simp_all add: env_safe_def)
  have p: "ClientOptions_params E opts \<noteq> Panic" for opts
    using assms(2) by (auto simp: ClientOptions_params_def builder_safe_def)
  have o: "outbound_send x d \<noteq> (d', Panic)" for x and d d' :: "('a, 'b) client"
    by (simp add: outbound_send_def)
  show ?thesis
  proof (cases m rule: expected_response.cases)
    case (2 len buf)
    then show ?thesis using assms(3) hs [OF H(1)]
      by (auto simp: handle_incoming_message_def some_event_def client_server_handshake_def Let_def
          split: st_then_splits option.splits protocol_state.splits)
  next
    case (3 key h)
    then show ?thesis using assms(2,3) hs [OF H(1)] p o
      by (cases h) (auto simp: handle_incoming_message_def some_event_def peer_handshake_responder_def
          peer_handshake_ack_def builder_safe_def Let_def
          split: st_then_splits option.splits protocol_state.splits)
  next
    case (4 key sid e)
    then show ?thesis using assms(3) decrypt_safe(2) [OF H(2)] 
      by (auto simp: handle_incoming_message_def some_event_def handle_relayed_message_def
          dest: decrypt_encoding split: st_then_splits option.splits encoding.splits)
  next
    case (5 e)
    have "handle_server_channel_message x \<noteq> Panic" for x by (cases x) auto
    then show ?thesis using 5 assms(3,4) decrypt_safe(1) [OF H(2)] server_codec.decode_safe [OF H(3)]
      by (auto simp: handle_incoming_message_def Let_def outcome_simps dest!: decrypt_encoding(2)
          split: st_then_splits if_splits)
  qed (use assms(3) in \<open>auto simp: handle_incoming_message_def\<close>)
qed

lemma loop_read_safe:
  assumes "env_safe E"
  shows "Panic \<notin> set (snd (loop_read E frame c))"
  using assms response_message_codec.decode_safe [of "stream E"]
  by (auto simp: loop_read_def client_read_message_def yields_def env_safe_def never_panics_def inflate_def
      split: option.splits ws_message.splits st_then_splits prod.splits outcome.splits)

lemma loop_write_safe:
  assumes "wire_laws E" and "client_ok E c"
  shows "Panic \<notin> set (snd (loop_write E writable closed c))"
proof (cases "outbound c")
  case (Cons m rest)
  then show ?thesis
    using loop_write_request [OF assms, of _ rest writable closed]
    by (cases m) (auto simp: loop_write_def split: outcome.splits if_splits)
qed (simp add: loop_write_def)

subsection \<open>Steps of the network\<close>

record ('h, 't) network =
  net_server :: "('h, 't) server_state"
  net_clients :: "conn_ref \<Rightarrow> ('h, 't) client option"

text \<open>
  The steps of the server that involve no client: its listeners, waiting tasks and reaper, and a
  socket that breaks.
\<close>

fun internal :: "relay_label \<Rightarrow> bool" where
  "internal (Connect key) = False"
| "internal (Receive c msg) = (msg = None)"
| "internal (Deliver c sent) = (\<not> sent)"
| "internal _ = True"

text \<open>
  A client joins with a new connection under its public key. Its socket is a queue in either
  direction: \<open>uplink\<close> takes the oldest frame the client has written to the reader of its
  connection, \<open>downlink\<close> the oldest frame of the writer to the event loop of the client. Calls and
  steps of a client and steps of the server happen in any order.
\<close>

inductive network_step :: "('h, 't) env \<Rightarrow> ('h, 't) network \<Rightarrow> ('h, 't) network \<Rightarrow> bool" for E :: "('h, 't) env" where
  join: "client_new E r (Ok (SWITCHING_PROTOCOLS, reason)) opts = Ok c \<Longrightarrow>
    upgrade E new_id r' (kp_public (opt_keypair opts)) (net_server n) = (s', Ok i) \<Longrightarrow>
    network_step E n (n\<lparr>net_server := s', net_clients := (net_clients n)(i \<mapsto> c)\<rparr>)"
| act: "net_clients n i = Some c \<Longrightarrow> action_ok E a \<Longrightarrow> (\<And>frame. a \<noteq> Read_Frame (Some frame)) \<Longrightarrow>
    network_step E n (n\<lparr>net_clients := (net_clients n)(i \<mapsto> perform E a c)\<rparr>)"
| uplink: "net_clients n i = Some c \<Longrightarrow> i < next_conn (net_server n) \<Longrightarrow> socket c = frame # rest \<Longrightarrow>
    network_step E n (n\<lparr>net_server := fst (read_one E i (Some frame) (net_server n)),
      net_clients := (net_clients n)(i \<mapsto> c\<lparr>socket := rest\<rparr>)\<rparr>)"
| downlink: "net_clients n i = Some c \<Longrightarrow> i < next_conn (net_server n) \<Longrightarrow>
    write_one i True (net_server n) = (s', Some frame) \<Longrightarrow>
    network_step E n (n\<lparr>net_server := s',
      net_clients := (net_clients n)(i \<mapsto> perform E (Read_Frame (Some frame)) c)\<rparr>)"
| server: "relay_step E (net_server n) l s' \<Longrightarrow> internal l \<Longrightarrow> network_step E n (n\<lparr>net_server := s'\<rparr>)"

inductive network_reachable :: "('h, 't) env \<Rightarrow> server_config \<Rightarrow> keypair \<Rightarrow> ('h, 't) network \<Rightarrow> bool"
  for E :: "('h, 't) env" and config k where
  start: "network_reachable E config k \<lparr>net_server = RelayServer_new config k, net_clients = Map.empty\<rparr>"
| step: "network_reachable E config k n \<Longrightarrow> network_step E n n' \<Longrightarrow> network_reachable E config k n'"

text \<open>The server of a network is a server of \<open>Relay_Machine\<close>.\<close>

lemma network_server: "network_step E n n' \<Longrightarrow> net_server n' = net_server n \<or> (\<exists>l. relay_step E (net_server n) l (net_server n'))"
proof (induction rule: network_step.induct)
  case (join r reason opts c new_id r' n s' i)
  then show ?case using connect [of E "net_server n" "kp_public (opt_keypair opts)" new_id r'] by auto
next
  case (downlink n i c s' frame)
  then show ?case using deliver [of i "net_server n" E True] by auto
qed (auto intro: relay_step.receive)

lemma network_server_reachable: "network_reachable E config k n \<Longrightarrow> reachable E config k (net_server n)"
proof (induction rule: network_reachable.induct)
  case (step n n')
  then show ?case using network_server [OF step.hyps(2)] by (auto intro: reachable.step)
qed (auto intro: reachable.start)

subsection \<open>What clients receive\<close>

lemma inbound_then:
  assumes "inbound (g (fst m)) = xs" and "\<And>s x. m = (s, Ok x) \<Longrightarrow> inbound (g s) = xs \<Longrightarrow> inbound (fst (f s x)) = xs"
  shows "inbound (fst (st_then m f g)) = xs"
  using assms by (cases m; cases "snd m") auto

lemma inbound_outbound_send [simp]: "inbound (fst (outbound_send m c)) = inbound c"
  by (simp add: outbound_send_def)

lemma inbound_calls [simp]:
  "inbound (fst (relay E key payload enc broadcast sid c)) = inbound c"
  "inbound (fst (request E message c)) = inbound c"
  "inbound (fst (client_connect E c)) = inbound c"
  "inbound (fst (connect_peer E random key c)) = inbound c"
  "inbound (fst (client_server_handshake E len buf c)) = inbound c"
  "inbound (fst (peer_handshake_responder E random key len buf c)) = inbound c"
  "inbound (fst (peer_handshake_ack E key len buf c)) = inbound c"
  "inbound (fst (handle_relayed_message E key envelope sid c)) = inbound c"
  unfolding relay_def request_def client_connect_def connect_peer_def client_server_handshake_def
    peer_handshake_responder_def peer_handshake_ack_def handle_relayed_message_def Let_def
  by (auto intro!: inbound_then split: option.splits protocol_state.splits)

lemma inbound_broadcast [simp]: "inbound (fst (relay_broadcast E sid keys payload enc c)) = inbound c"
  by (induction keys arbitrary: c) (auto intro!: inbound_then)

lemma inbound_json [simp]:
  "inbound (fst (send_json E key json sid c)) = inbound c"
  "inbound (fst (broadcast_json E i keys json c)) = inbound c"
  unfolding send_json_def broadcast_json_def by (auto intro!: inbound_then)

lemma inbound_handle [simp]: "inbound (fst (handle_incoming_message E random m c)) = inbound c"
  unfolding handle_incoming_message_def some_event_def Let_def
  by (auto intro!: inbound_then
      split: response_message.split transparent_message.split handshake_message.split opaque_message.split option.split)

lemma inbound_loop:
  "set (inbound (fst (loop_event E random c))) \<subseteq> set (inbound c)"
  "inbound (fst (loop_write E writable closed c)) = inbound c"
  by (auto simp: loop_event_def loop_write_def client_send_message_def intro!: inbound_then
      split: list.splits internal_message.splits)

lemma inbound_perform:
  assumes "\<And>frame. a \<noteq> Read_Frame (Some frame)"
  shows "set (inbound (perform E a c)) \<subseteq> set (inbound c)"
  using assms inbound_loop(1)
  by (cases a) (auto simp: send_blob_def broadcast_blob_def client_close_def
      request_new_meeting_def request_join_meeting_def request_new_session_def request_register_connection_def
      request_close_session_def loop_read_def inbound_loop(2) split: option.splits)

lemma inbound_read:
  assumes "harmless E frame" and "m \<in> set (inbound (perform E (Read_Frame (Some frame)) c))"
  shows "m \<in> set (inbound c) \<or> expected_response m"
  using assms
  by (auto simp: loop_read_def client_read_message_def harmless_def
      split: ws_message.splits st_then_splits)

subsection \<open>The invariant of the network\<close>

definition honest :: "('h, 't) env \<Rightarrow> ('h, 't) client \<Rightarrow> bool" where
  "honest E c \<longleftrightarrow> client_ok E c \<and> (\<forall>m\<in>set (inbound c). expected_response m)"

definition network_ok :: "('h, 't) env \<Rightarrow> ('h, 't) network \<Rightarrow> bool" where
  "network_ok E n \<longleftrightarrow> frames_ok E (net_server n) \<and> (\<forall>i c. net_clients n i = Some c \<longrightarrow> honest E c)"

lemma honest_new: "client_new E random attempt opts = Ok c \<Longrightarrow> honest E c"
  using client_new_ok [of E random attempt opts c]
  by (auto simp: honest_def client_new_def outcome_simps split: if_splits)

lemma honest_perform:
  assumes "wire_laws E" and "honest E c" and "action_ok E a"
    and "\<And>frame. a = Read_Frame (Some frame) \<Longrightarrow> harmless E frame"
  shows "honest E (perform E a c)"
proof -
  have "expected_response m" if m: "m \<in> set (inbound (perform E a c))" for m
  proof (cases "\<exists>frame. a = Read_Frame (Some frame)")
    case True
    then show ?thesis using assms(2,4) inbound_read m unfolding honest_def by blast
  next
    case False
    then show ?thesis using assms(2) inbound_perform [of a E c] m unfolding honest_def by blast
  qed
  then show ?thesis using assms perform_ok unfolding honest_def by blast
qed

lemma frames_internal:
  "relay_step E s l s' \<Longrightarrow> internal l \<Longrightarrow> wire_laws E \<Longrightarrow> frames_ok E s \<Longrightarrow> frames_ok E s'"
  by (induction rule: relay_step.induct)
     (auto intro: frames_listen frames_write_one frames_run_tick frames_purge frames_read_one)

lemma network_step_ok:
  assumes "wire_laws E" and "network_step E n n'" and "network_ok E n"
  shows "network_ok E n'"
  using assms(2,3)
proof (induction rule: network_step.induct)
  case (join r reason opts c new_id r' n s' i)
  have "frames_ok E s'" using frames_upgrade [of E "net_server n"] join by (metis fst_conv network_ok_def)
  then show ?case using join honest_new by (auto simp: network_ok_def)
next
  case (act n i c a)
  then have "honest E (perform E a c)" using assms(1) by (intro honest_perform) (auto simp: network_ok_def)
  then show ?case using act by (auto simp: network_ok_def)
next
  case (uplink n i c frame rest)
  then have h: "honest E c" "frames_ok E (net_server n)" by (auto simp: network_ok_def)
  then have "\<exists>m. decodes_to E frame m \<and> good_request E m" "honest E (c\<lparr>socket := rest\<rparr>)"
    using uplink by (auto simp: honest_def client_ok_def)
  moreover from this(1) have "frames_ok E (fst (read_one E i (Some frame) (net_server n)))"
    by (intro frames_read_one [OF h(2)]) simp
  ultimately show ?case using uplink by (auto simp: network_ok_def)
next
  case (downlink n i c s' frame)
  then have h: "honest E c" "frames_ok E (net_server n)" by (auto simp: network_ok_def)
  have "harmless E frame"
    using downlink(3) queued_frame [OF h(2), of frame i]
    by (auto simp: write_one_def Let_def split: list.splits)
  then have "honest E (perform E (Read_Frame (Some frame)) c)"
    by (intro honest_perform [OF assms(1) h(1)]) auto
  moreover have "frames_ok E s'" using frames_write_one [OF h(2), of i True] downlink(3) by simp
  ultimately show ?case using downlink by (auto simp: network_ok_def)
next
  case (server n l s')
  then show ?case using frames_internal assms(1) by (auto simp: network_ok_def)
qed

lemma network_reachable_ok: "network_reachable E config k n \<Longrightarrow> wire_laws E \<Longrightarrow> network_ok E n"
proof (induction rule: network_reachable.induct)
  case start
  show ?case by (simp add: network_ok_def frames_ok_def queues_ok_def RelayServer_new_def no_connection_def)
qed (auto intro: network_step_ok)

text \<open>
  C3: The clients and the server of this repository do not crash each other. In every state of a
  network whose clients all run this code, whatever the programs on top of them do and however the
  tasks interleave: the listener of a connection handles the next request without ending, unless
  its handshake has failed; the event loop of a client handles the next message without a panic,
  unless the client has lost its server channel; and neither writing the next request nor reading
  a frame makes a client panic.
\<close>

theorem honest_network_never_panics:
  assumes "wire_laws E" and "env_safe E" and "builder_safe (snow E)"
    and "network_reachable E config k n" and "net_clients n i = Some c"
  shows "(conn_state (conns (net_server n) i) \<noteq> None \<longrightarrow>
      incoming_open (conns (listen E now new_id i (net_server n)) i) = incoming_open (conns (net_server n) i)) \<and>
    (server_channel c \<noteq> None \<longrightarrow> Panic \<notin> set (snd (loop_event E random c))) \<and>
    Panic \<notin> set (snd (loop_write E writable closed c)) \<and>
    Panic \<notin> set (snd (loop_read E frame c))"
proof -
  have ok: "network_ok E n" using network_reachable_ok assms(1,4) by blast
  have inv: "server_inv (net_server n)"
    using reachable_inv [OF network_server_reachable [OF assms(4)]] assms(2) by (simp add: env_safe_def)
  have h: "honest E c" using ok assms(5) by (simp add: network_ok_def)
  have "incoming_open (conns (listen E now new_id i (net_server n)) i) = incoming_open (conns (net_server n) i)"
    if "conn_state (conns (net_server n) i) \<noteq> None"
    using listen_stays_open [OF assms(2) inv _ that, of now new_id] ok by (simp add: network_ok_def same_open_def)
  moreover have "Panic \<notin> set (snd (loop_event E random c))" if s: "server_channel c \<noteq> None"
  proof (cases "inbound c")
    case (Cons m rest)
    then have "snd (handle_incoming_message E random m (c\<lparr>inbound := rest\<rparr>)) \<noteq> Panic"
      using h s by (intro handle_incoming_safe [OF assms(2,3)]) (auto simp: honest_def)
    then show ?thesis using Cons by (auto simp: loop_event_def yields_def split: prod.splits outcome.splits option.splits)
  qed (simp add: loop_event_def)
  ultimately show ?thesis
    using loop_write_safe [OF assms(1)] loop_read_safe [OF assms(2)] h by (simp add: honest_def)
qed

text \<open>A client that has joined and whose handshake message has reached the server.\<close>

definition greeting :: "bytes \<Rightarrow> (bool \<times> nat, nat \<times> nat) network" where
  "greeting frame = \<lparr>net_server = fst (read_one sample_env 0 (Some (WsBinary frame)) connected),
     net_clients = [0 \<mapsto> sample_client [9]\<lparr>server_channel := Some (Handshake (True, 1))\<rparr>]\<rparr>"

lemma greeting_reachable: "\<exists>frame. network_reachable sample_env open_config sample_keys (greeting frame)"
proof -
  let ?c = "sample_client [9]" and ?m = "Request_Transparent (ServerHandshake (Handshake_Initiator 1 (handshake_frame [1])))"
  let ?n0 = "\<lparr>net_server = RelayServer_new open_config sample_keys, net_clients = Map.empty\<rparr> :: (bool \<times> nat, nat \<times> nat) network"
  let ?n1 = "\<lparr>net_server = connected, net_clients = [0 \<mapsto> ?c]\<rparr>"
  let ?c2 = "?c\<lparr>server_channel := Some (Handshake (True, 1)), outbound := [Internal_Request ?m]\<rparr>"
  let ?n2 = "\<lparr>net_server = connected, net_clients = [0 \<mapsto> ?c2]\<rparr>"
  note step = network_reachable.step [where E = sample_env and config = open_config and k = sample_keys]
  have "client_new sample_env 0 (Ok (SWITCHING_PROTOCOLS, ''ok'')) (options ?c) = Ok ?c"
    by (simp add: client_new_def ClientOptions_params_def sample_client_def sample_env_def counter_snow_def)
  moreover have "upgrade sample_env sample_uuid 0 [9] (RelayServer_new open_config sample_keys) = (connected, Ok 0)"
    by (simp add: connected_def upgrade_def RelayServer_new_def open_config_def sample_env_def counter_snow_def Let_def)
  ultimately have "network_step sample_env ?n0 (?n0\<lparr>net_server := connected, net_clients := (net_clients ?n0)(0 \<mapsto> ?c)\<rparr>)"
    by (intro join [where opts = "options ?c" and r' = 0]) (simp_all add: sample_client_def)
  then have 1: "network_reachable sample_env open_config sample_keys ?n1"
    using step [OF network_reachable.start] by simp
  have p: "perform sample_env Connect_Server ?c = ?c2"
    by (simp add: client_connect_def outbound_send_def sample_client_def sample_env_def counter_snow_def)
  have 2: "network_reachable sample_env open_config sample_keys ?n2"
    using step [OF 1 act [of ?n1 0 ?c sample_env Connect_Server]] by (simp add: p del: perform.simps)
  have ok: "client_ok sample_env ?c2"
    using network_reachable_ok [OF 2 sample_wire_laws] by (auto simp: network_ok_def honest_def)
  obtain frame where f: "loop_write sample_env True (Ok ()) ?c2 = (?c2\<lparr>outbound := [], socket := socket ?c2 @ [frame]\<rparr>, [])"
    "decodes_to sample_env frame ?m"
    using loop_write_request [OF sample_wire_laws ok, where m = ?m and rest = "[]" and writable = True] by auto
  then obtain b where b: "frame = WsBinary b" by (auto simp: decodes_to_def)
  let ?c3 = "?c2\<lparr>outbound := [], socket := [frame]\<rparr>"
  have "socket ?c2 = []" by (simp add: sample_client_def)
  then have 3: "network_reachable sample_env open_config sample_keys \<lparr>net_server = connected, net_clients = [0 \<mapsto> ?c3]\<rparr>"
    using step [OF 2 act [of ?n2 0 ?c2 sample_env "Write_Frame True (Ok ())"]] f(1) by simp
  have "?c3\<lparr>socket := []\<rparr> = ?c\<lparr>server_channel := Some (Handshake (True, 1))\<rparr>" by (simp add: sample_client_def)
  then show ?thesis
    using step [OF 3 uplink [of _ 0 ?c3 frame "[]"]] b by (auto simp: greeting_def connected_state)
qed

lemma sample_builder_safe: "builder_safe (snow sample_env)"
  by (simp add: builder_safe_def sample_env_def counter_snow_def)

theorem honest_network_never_panics_witness:
  "\<exists>frame. incoming (conns (net_server (greeting frame)) 0) = [frame] \<and>
     incoming_open (conns (listen sample_env 0 [] 0 (net_server (greeting frame))) 0)"
proof -
  obtain frame where r: "network_reachable sample_env open_config sample_keys (greeting frame)"
    using greeting_reachable by blast
  have s: "net_server (greeting frame) = update_conn 0 (\<lambda>conn. conn\<lparr>incoming := [frame]\<rparr>) connected"
    by (simp add: greeting_def read_one_def inflate_def sample_env_def connected_state update_conn_def)
  then have "conn_state (conns (net_server (greeting frame)) 0) \<noteq> None"
    "incoming_open (conns (net_server (greeting frame)) 0)" "incoming (conns (net_server (greeting frame)) 0) = [frame]"
    by (simp_all add: update_conn_def connected_state)
  moreover have "net_clients (greeting frame) 0 = Some (sample_client [9]\<lparr>server_channel := Some (Handshake (True, 1))\<rparr>)"
    by (simp add: greeting_def)
  ultimately show ?thesis
    using honest_network_never_panics [OF sample_wire_laws sample_env_safe sample_builder_safe r, of 0 _ 0 "[]"]
    by (intro exI [of _ frame]) simp
qed

end
