(* ===== verification/Network_Transport.thy ===== *)
theory Network_Transport
  imports Client
begin

text \<open>
  The transport that protocol drivers use (\<open>client/src/transport.rs\<close>): a variant type over the
  available clients, of which the relay client is the only one, with one operation per method of
  the trait \<open>NetworkTransport\<close>. \<open>on_relay\<close> is the \<open>match\<close> that every method starts with.
\<close>

datatype ('h, 't) transport = Relay "('h, 't) client"

type_synonym ('h, 't, 'a) transported = "('h, 't) transport \<times> (client_error, 'a) outcome"

primrec on_relay :: "(('h, 't) client \<Rightarrow> ('h, 't, 'a) client_result) \<Rightarrow> ('h, 't) transport \<Rightarrow> ('h, 't, 'a) transported" where
  "on_relay f (Relay c) = (case f c of (c, x) \<Rightarrow> (Relay c, x))"

definition client_public_key :: "('h, 't) client \<Rightarrow> bytes" where
  "client_public_key c = kp_public (opt_keypair (options c))"

primrec transport_public_key :: "('h, 't) transport \<Rightarrow> bytes" where
  "transport_public_key (Relay c) = client_public_key c"

definition transport_connect :: "('h, 't) env \<Rightarrow> ('h, 't) transport \<Rightarrow> ('h, 't, unit) transported" where
  "transport_connect E = on_relay (client_connect E)"

primrec transport_is_connected :: "('h, 't) transport \<Rightarrow> bool" where
  "transport_is_connected (Relay c) = is_connected c"

definition transport_connect_peer ::
  "('h, 't) env \<Rightarrow> nat \<Rightarrow> bytes \<Rightarrow> ('h, 't) transport \<Rightarrow> ('h, 't, unit) transported" where
  "transport_connect_peer E random key = on_relay (connect_peer E random key)"

definition transport_send_json ::
  "('h, 't) env \<Rightarrow> bytes \<Rightarrow> (unit, bytes) outcome \<Rightarrow> session_id option \<Rightarrow> ('h, 't) transport \<Rightarrow> ('h, 't, unit) transported" where
  "transport_send_json E key json sid = on_relay (send_json E key json sid)"

definition transport_send_blob ::
  "('h, 't) env \<Rightarrow> bytes \<Rightarrow> bytes \<Rightarrow> session_id option \<Rightarrow> ('h, 't) transport \<Rightarrow> ('h, 't, unit) transported" where
  "transport_send_blob E key payload sid = on_relay (send_blob E key payload sid)"

definition transport_new_meeting ::
  "('h, 't) env \<Rightarrow> user_id \<Rightarrow> user_id list \<Rightarrow> ('h, 't) transport \<Rightarrow> ('h, 't, unit) transported" where
  "transport_new_meeting E owner users = on_relay (request_new_meeting E owner users)"

definition transport_join_meeting ::
  "('h, 't) env \<Rightarrow> meeting_id \<Rightarrow> user_id \<Rightarrow> ('h, 't) transport \<Rightarrow> ('h, 't, unit) transported" where
  "transport_join_meeting E mid uid = on_relay (request_join_meeting E mid uid)"

definition transport_new_session ::
  "('h, 't) env \<Rightarrow> bytes list \<Rightarrow> ('h, 't) transport \<Rightarrow> ('h, 't, unit) transported" where
  "transport_new_session E keys = on_relay (request_new_session E keys)"

definition transport_register_connection ::
  "('h, 't) env \<Rightarrow> session_id \<Rightarrow> bytes \<Rightarrow> ('h, 't) transport \<Rightarrow> ('h, 't, unit) transported" where
  "transport_register_connection E sid peer = on_relay (request_register_connection E sid peer)"

definition transport_close_session ::
  "('h, 't) env \<Rightarrow> session_id \<Rightarrow> ('h, 't) transport \<Rightarrow> ('h, 't, unit) transported" where
  "transport_close_session E sid = on_relay (request_close_session E sid)"

definition transport_broadcast_json ::
  "('h, 't) env \<Rightarrow> session_id \<Rightarrow> bytes list \<Rightarrow> (unit, bytes) outcome \<Rightarrow> ('h, 't) transport \<Rightarrow> ('h, 't, unit) transported" where
  "transport_broadcast_json E sid keys json = on_relay (broadcast_json E sid keys json)"

definition transport_broadcast_blob ::
  "('h, 't) env \<Rightarrow> session_id \<Rightarrow> bytes list \<Rightarrow> bytes \<Rightarrow> ('h, 't) transport \<Rightarrow> ('h, 't, unit) transported" where
  "transport_broadcast_blob E sid keys payload = on_relay (broadcast_blob E sid keys payload)"

definition transport_close :: "('h, 't) transport \<Rightarrow> ('h, 't, unit) transported" where
  "transport_close = on_relay client_close"

text \<open>\<open>Transport::new_relay\<close>, over the outcome of the connection attempt as \<open>client_new\<close>.\<close>

definition new_relay ::
  "('h, 't) env \<Rightarrow> nat \<Rightarrow> (client_error, status_code \<times> string) outcome \<Rightarrow> client_options \<Rightarrow>
   (client_error, ('h, 't) transport) outcome" where
  "new_relay E random connected opts = and_then (client_new E random connected opts) (\<lambda>c. Ok (Relay c))"

lemmas transport_ops = transport_connect_def transport_connect_peer_def transport_send_json_def
  transport_send_blob_def transport_new_meeting_def transport_join_meeting_def transport_new_session_def
  transport_register_connection_def transport_close_session_def transport_broadcast_json_def
  transport_broadcast_blob_def transport_close_def

text \<open>
  A step of the event loop, which shares its state with the transport: it yields the events of the
  stream.
\<close>

type_synonym ('h, 't) loop_step = "('h, 't) client \<Rightarrow> ('h, 't) client \<times> (client_error, client_event) outcome list"

primrec step_transport ::
  "('h, 't) loop_step \<Rightarrow> ('h, 't) transport \<Rightarrow> ('h, 't) transport \<times> (client_error, client_event) outcome list" where
  "step_transport step (Relay c) = (case step c of (c, events) \<Rightarrow> (Relay c, events))"

end
