(* ===== verification/Rounds.thy ===== *)
theory Rounds
  imports Messages
begin

text \<open>
  Round messages and the buffer that groups them (\<open>driver/src/round.rs\<close>). \<open>Msg\<close> is the message
  type of the \<open>round-based\<close> crate: sender, receiver and body. Round and party numbers are non-zero
  16-bit numbers; building one from zero panics.

  The buffer is what makes out-of-order arrival safe. The main lemma here is about any interleaving
  of the messages of several senders: if each sender's messages arrive in the order of its rounds
  (which the encrypted channel guarantees), then the rounds become complete in their order, each
  with exactly one message of every sender.
\<close>

record 'b msg =
  msg_sender :: u16
  msg_receiver :: "u16 option"
  msg_body :: 'b

record 'b round_msg =
  rm_round :: u16
  rm_sender :: u16
  rm_receiver :: "u16 option"
  rm_body :: 'b

definition is_broadcast :: "'b round_msg \<Rightarrow> bool" where
  "is_broadcast m = (rm_receiver m = None)"

definition msg_of_round :: "'b round_msg \<Rightarrow> 'b msg" where
  "msg_of_round m = \<lparr>msg_sender = rm_sender m, msg_receiver = rm_receiver m, msg_body = rm_body m\<rparr>"

definition non_zero :: "u16 \<Rightarrow> ('e, u16) outcome" where
  "non_zero n = unwrap (PartyNumber_new n)"

definition to_round_msg :: "u16 \<Rightarrow> 'b msg \<Rightarrow> ('e, 'b round_msg) outcome" where
  "to_round_msg round m =
     and_then (non_zero round) (\<lambda>r.
     and_then (non_zero (msg_sender m)) (\<lambda>s.
     and_then (case msg_receiver m of None \<Rightarrow> Ok None | Some v \<Rightarrow> and_then (non_zero v) (\<lambda>v. Ok (Some v))) (\<lambda>rc.
       Ok \<lparr>rm_round = r, rm_sender = s, rm_receiver = rc, rm_body = msg_body m\<rparr>)))"

fun from_round :: "u16 \<Rightarrow> 'b msg list \<Rightarrow> ('e, 'b round_msg list) outcome" where
  "from_round round [] = Ok []"
| "from_round round (m # ms) =
     and_then (to_round_msg round m) (\<lambda>x. and_then (from_round round ms) (\<lambda>xs. Ok (x # xs)))"

record 'i round_buffer =
  expected :: "(u16 \<times> u16) list"
  buffered :: "u16 \<rightharpoonup> 'i list"

definition new_fixed :: "u16 \<Rightarrow> u16 \<Rightarrow> 'i round_buffer" where
  "new_fixed rounds messages_per_round =
     \<lparr>expected = fold (\<lambda>i. AList.update (of_nat (i + 1)) messages_per_round) [0..<unat rounds] [],
      buffered = Map.empty\<rparr>"

definition buffer_len :: "'i round_buffer \<Rightarrow> nat" where
  "buffer_len b = length (expected b)"

definition add_message :: "u16 \<Rightarrow> 'i \<Rightarrow> 'i round_buffer \<Rightarrow> 'i round_buffer" where
  "add_message round m b =
     b\<lparr>buffered := (buffered b)(round \<mapsto> (case buffered b round of Some ms \<Rightarrow> ms | None \<Rightarrow> []) @ [m])\<rparr>"

definition is_ready :: "u16 \<Rightarrow> 'i round_buffer \<Rightarrow> bool" where
  "is_ready round b =
     (case (map_of (expected b) round, buffered b round) of
        (Some amount, Some ms) \<Rightarrow> length ms = unat amount
      | _ \<Rightarrow> False)"

definition take_round :: "u16 \<Rightarrow> 'i round_buffer \<Rightarrow> 'i round_buffer \<times> 'i list" where
  "take_round round b =
     (case buffered b round of
        Some ms \<Rightarrow> (b\<lparr>buffered := (buffered b)(round := None)\<rparr>, ms)
      | None \<Rightarrow> (b, []))"

text \<open>What the bridge does with one message: add it, and take the round if it is ready.\<close>

definition feed :: "u16 \<Rightarrow> 'i \<Rightarrow> 'i round_buffer \<Rightarrow> 'i round_buffer \<times> (u16 \<times> 'i list) option" where
  "feed round m b =
     (let b = add_message round m b in
      if is_ready round b then (let (b, ms) = take_round round b in (b, Some (round, ms))) else (b, None))"

fun feed_all :: "(u16 \<times> 'i) list \<Rightarrow> 'i round_buffer \<Rightarrow> 'i round_buffer \<times> (u16 \<times> 'i list) list" where
  "feed_all [] b = (b, [])"
| "feed_all ((r, m) # ms) b =
     (let (b, x) = feed r m b; (b, xs) = feed_all ms b in (b, (case x of Some y \<Rightarrow> y # xs | None \<Rightarrow> xs)))"

subsection \<open>The buffer\<close>

definition fixed_rounds :: "u16 \<Rightarrow> nat \<Rightarrow> (u16 \<times> u16) list" where
  "fixed_rounds n k = fold (\<lambda>i. AList.update (of_nat (i + 1)) n) [0..<k] []"

lemma fixed_rounds_Suc: "fixed_rounds n (Suc k) = AList.update (of_nat (k + 1)) n (fixed_rounds n k)"
  by (simp add: fixed_rounds_def)

lemma expected_fixed: "expected (new_fixed rounds n) = fixed_rounds n (unat rounds)"
  by (simp add: new_fixed_def fixed_rounds_def)

lemma round_eq: "k + 1 \<le> 65535 \<Longrightarrow> (r :: u16) = of_nat (k + 1) \<longleftrightarrow> unat r = k + 1"
  using unat_of_nat_u16 [of "k + 1"] by (metis word_unat_eq_iff)

lemma map_of_fixed_rounds:
  "k \<le> 65535 \<Longrightarrow> map_of (fixed_rounds n k) r = (if 0 < unat r \<and> unat r \<le> k then Some n else None)"
proof (induction k)
  case (Suc k)
  then show ?case
    using round_eq [of k r] by (auto simp: fixed_rounds_Suc simp del: of_nat_add of_nat_Suc)
qed (auto simp: fixed_rounds_def)

lemma distinct_fixed_rounds: "distinct (map fst (fixed_rounds n k))"
  by (induction k) (simp_all add: fixed_rounds_Suc distinct_update, simp add: fixed_rounds_def)

lemma length_update_new: "k \<notin> fst ` set al \<Longrightarrow> length (AList.update k v al) = Suc (length al)"
  by (induction al) auto

lemma length_fixed_rounds: "k \<le> 65535 \<Longrightarrow> length (fixed_rounds n k) = k"
proof (induction k)
  case (Suc k)
  have "of_nat (k + 1) \<notin> fst ` set (fixed_rounds n k)"
    using map_of_fixed_rounds [of k n "of_nat (k + 1)"] Suc.prems unat_of_nat_u16 [of "k + 1"]
    by (auto simp: map_of_eq_None_iff [symmetric] simp del: of_nat_add of_nat_Suc)
  then show ?case
    using Suc by (simp add: fixed_rounds_Suc length_update_new)
qed (simp add: fixed_rounds_def)

lemma expected_new_fixed:
  "map_of (expected (new_fixed rounds n)) r = (if 0 < unat r \<and> unat r \<le> unat rounds then Some n else None)"
  by (simp add: expected_fixed map_of_fixed_rounds)

lemma buffer_len_new_fixed: "buffer_len (new_fixed rounds n) = unat rounds"
  by (simp add: buffer_len_def expected_fixed length_fixed_rounds)

subsection \<open>Interleavings\<close>

text \<open>
  \<open>of_round r p\<close> are the messages of round \<open>r\<close> in a trace \<open>p\<close>, \<open>progress snd p s\<close> is how many
  messages of sender \<open>s\<close> it has. A trace is in order when each sender's messages are those of the
  rounds one, two, and so on up to its progress.
\<close>

definition of_round :: "u16 \<Rightarrow> (u16 \<times> 'i) list \<Rightarrow> 'i list" where
  "of_round r p = map snd (filter (\<lambda>x. fst x = r) p)"

definition progress :: "('i \<Rightarrow> 's) \<Rightarrow> (u16 \<times> 'i) list \<Rightarrow> 's \<Rightarrow> nat" where
  "progress sender p s = length (filter (\<lambda>x. sender (snd x) = s) p)"

definition in_order :: "('i \<Rightarrow> 's) \<Rightarrow> 's set \<Rightarrow> nat \<Rightarrow> (u16 \<times> 'i) list \<Rightarrow> bool" where
  "in_order sender S R p \<longleftrightarrow> (\<forall>x\<in>set p. sender (snd x) \<in> S) \<and>
     (\<forall>s\<in>S. progress sender p s \<le> R \<and>
       map fst (filter (\<lambda>x. sender (snd x) = s) p) = map of_nat [1..<Suc (progress sender p s)])"

lemma feed_all_snoc:
  "feed_all (p @ [(r, m)]) b =
     (let (b1, d) = feed_all p b; (b2, x) = feed r m b1 in (b2, d @ (case x of Some y \<Rightarrow> [y] | None \<Rightarrow> [])))"
proof (induction p arbitrary: b)
  case (Cons x p)
  obtain r' m' where "x = (r', m')" by fastforce
  then show ?case
    using Cons.IH by (auto simp: Let_def split: prod.splits option.splits)
qed (simp add: Let_def split: prod.splits option.splits)

lemma of_round_snoc: "of_round r (p @ [(r', m)]) = of_round r p @ (if r' = r then [m] else [])"
  by (simp add: of_round_def)

lemma progress_snoc: "progress sender (p @ [(r, m)]) s = progress sender p s + (if sender m = s then 1 else 0)"
  by (simp add: progress_def)

lemma in_order_snoc:
  assumes "in_order sender S R (p @ [(r, m)])"
  shows "in_order sender S R p" and "sender m \<in> S" and "r = of_nat (Suc (progress sender p (sender m)))"
    and "Suc (progress sender p (sender m)) \<le> R"
proof -
  let ?k = "progress sender p"
  have S: "sender m \<in> S" "\<forall>x\<in>set p. sender (snd x) \<in> S"
    using assms by (auto simp: in_order_def)
  have eq: "map fst (filter (\<lambda>x. sender (snd x) = s) p) @ (if sender m = s then [r] else []) =
      map of_nat [1..<Suc (progress sender (p @ [(r, m)]) s)]" "progress sender (p @ [(r, m)]) s \<le> R" if "s \<in> S" for s
    using assms that by (auto simp: in_order_def simp del: upt_Suc)
  show "sender m \<in> S" by (rule S)
  show "Suc (?k (sender m)) \<le> R" using eq(2) [OF S(1)] by (simp add: progress_snoc)
  show "r = of_nat (Suc (?k (sender m)))" using eq(1) [OF S(1)] by (simp add: progress_snoc)
  have "map fst (filter (\<lambda>x. sender (snd x) = s) p) = map of_nat [1..<Suc (?k s)]" if "s \<in> S" for s
    using eq(1) [OF that] by (cases "sender m = s") (simp_all add: progress_snoc)
  moreover have "?k s \<le> R" if "s \<in> S" for s
    using eq(2) [OF that] by (simp add: progress_snoc split: if_splits)
  ultimately show "in_order sender S R p" using S by (simp add: in_order_def)
qed

text \<open>In an ordered trace a round has one message of each sender that got that far.\<close>

lemma senders_of_round:
  assumes "in_order sender S R p" and "R \<le> 65535" and "1 \<le> j" and "j \<le> R"
  shows "distinct (map sender (of_round (of_nat j) p)) \<and>
    set (map sender (of_round (of_nat j) p)) = {s \<in> S. j \<le> progress sender p s}"
  using assms(1)
proof (induction p rule: rev_induct)
  case Nil
  then show ?case using assms(3) by (auto simp: of_round_def progress_def)
next
  case (snoc x p)
  obtain r m where x: "x = (r, m)" by fastforce
  note o = in_order_snoc [OF snoc.prems [unfolded x]]
  let ?s = "sender m" and ?k = "progress sender p"
  have r: "r = of_nat j \<longleftrightarrow> Suc (?k ?s) = j"
  proof -
    have "unat r = Suc (?k ?s)" unfolding o(3) using o(4) assms(2) by (intro unat_of_nat_u16) simp
    moreover have "unat (of_nat j :: u16) = j" using assms(2,4) by (intro unat_of_nat_u16) simp
    ultimately show ?thesis by (auto simp: word_unat_eq_iff)
  qed
  show ?case
    using snoc.IH [OF o(1)] r o(2) by (auto simp: x of_round_snoc progress_snoc)
qed

lemma round_full_iff:
  assumes "in_order sender S R p" and "finite S" and "R \<le> 65535" and "1 \<le> j" and "j \<le> R"
  shows "length (of_round (of_nat j) p) = card S \<longleftrightarrow> (\<forall>s\<in>S. j \<le> progress sender p s)"
    and "length (of_round (of_nat j) p) \<le> card S"
proof -
  have l: "length (of_round (of_nat j) p) = card {s \<in> S. j \<le> progress sender p s}"
    using senders_of_round [OF assms(1,3,4,5)] by (metis distinct_card length_map)
  have "card {s \<in> S. j \<le> progress sender p s} = card S \<longleftrightarrow> {s \<in> S. j \<le> progress sender p s} = S"
    using assms(2) by (metis (no_types, lifting) card_subset_eq mem_Collect_eq subsetI)
  then show "length (of_round (of_nat j) p) = card S \<longleftrightarrow> (\<forall>s\<in>S. j \<le> progress sender p s)"
    unfolding l by auto
  show "length (of_round (of_nat j) p) \<le> card S"
    unfolding l using assms(2) by (intro card_mono) auto
qed

text \<open>
  The state of the buffer after an ordered trace: round \<open>j\<close> is still buffered when some but not
  all of its messages arrived, and \<open>K\<close> is the last round that every sender has reached.
\<close>

definition tracks :: "('i \<Rightarrow> 's) \<Rightarrow> 's set \<Rightarrow> nat \<Rightarrow> (u16 \<times> 'i) list \<Rightarrow> 'i round_buffer \<Rightarrow> nat \<Rightarrow> bool" where
  "tracks sender S R p b K \<longleftrightarrow>
     expected b = expected (new_fixed (of_nat R) (of_nat (card S)) :: 'i round_buffer) \<and>
     (\<forall>j. 1 \<le> j \<longrightarrow> j \<le> R \<longrightarrow> buffered b (of_nat j) =
        (if of_round (of_nat j) p = [] \<or> j \<le> K then None else Some (of_round (of_nat j) p))) \<and>
     (\<forall>s\<in>S. K \<le> progress sender p s) \<and> (\<exists>s\<in>S. progress sender p s = K)"

lemma tracks_new: "S \<noteq> {} \<Longrightarrow> tracks sender S R [] (new_fixed (of_nat R) (of_nat (card S))) 0"
  by (auto simp: tracks_def of_round_def progress_def new_fixed_def)

lemma tracks_add:
  assumes S: "finite S" "card S \<le> 65535" and R: "R \<le> 65535"
    and ord: "in_order sender S R (p @ [(r, m)])" and t: "tracks sender S R p b K"
  shows "buffered (add_message r m b) r = Some (of_round r (p @ [(r, m)]))"
    and "is_ready r (add_message r m b) \<longleftrightarrow>
      (\<forall>s\<in>S. Suc (progress sender p (sender m)) \<le> progress sender (p @ [(r, m)]) s)"
proof -
  note o = in_order_snoc [OF ord]
  let ?j = "Suc (progress sender p (sender m))" and ?p = "p @ [(r, m)]"
  have K: "K \<le> progress sender p (sender m)" using t o(2) by (simp add: tracks_def)
  have u: "unat r = ?j" "unat (of_nat R :: u16) = R" "unat (of_nat (card S) :: u16) = card S"
    using o(3,4) R S(2) by (simp_all del: of_nat_Suc)
  have "buffered b r = (if of_round r p = [] then None else Some (of_round r p))"
    using t o(3,4) K by (simp add: tracks_def del: of_nat_Suc)
  then show add: "buffered (add_message r m b) r = Some (of_round r ?p)"
    by (simp add: add_message_def of_round_snoc)
  have "map_of (expected (add_message r m b)) r = Some (of_nat (card S))"
    using t u o(4) by (simp add: tracks_def add_message_def expected_new_fixed)
  then have "is_ready r (add_message r m b) \<longleftrightarrow> length (of_round r ?p) = card S"
    using add u by (simp add: is_ready_def)
  then show "is_ready r (add_message r m b) \<longleftrightarrow> (\<forall>s\<in>S. ?j \<le> progress sender ?p s)"
    using round_full_iff(1) [OF ord S(1) R, of ?j] o(3,4) by simp
qed

lemma of_round_other:
  assumes "R \<le> 65535" and ord: "in_order sender S R (p @ [(r, m)])" and "j \<le> R"
    and "j \<noteq> Suc (progress sender p (sender m))"
  shows "of_nat j \<noteq> r" and "of_round (of_nat j) (p @ [(r, m)]) = of_round (of_nat j) p"
proof -
  show "of_nat j \<noteq> r"
    using assms(1,3,4) in_order_snoc(3,4) [OF ord] by (simp add: word_unat_eq_iff del: of_nat_Suc)
  then show "of_round (of_nat j) (p @ [(r, m)]) = of_round (of_nat j) p"
    by (auto simp: of_round_snoc)
qed

lemma tracks_take:
  assumes S: "finite S" "card S \<le> 65535" and R: "R \<le> 65535"
    and ord: "in_order sender S R (p @ [(r, m)])" and t: "tracks sender S R p b K"
    and ready: "is_ready r (add_message r m b)"
  shows "K = progress sender p (sender m)"
    and "tracks sender S R (p @ [(r, m)]) (b\<lparr>buffered := (buffered b)(r := None)\<rparr>) (Suc K)"
    and "feed r m b = (b\<lparr>buffered := (buffered b)(r := None)\<rparr>, Some (r, of_round r (p @ [(r, m)])))"
proof -
  note o = in_order_snoc [OF ord] and a = tracks_add [OF S R ord t] and keep = of_round_other [OF R ord]
  have all: "\<forall>s\<in>S. Suc (progress sender p (sender m)) \<le> progress sender (p @ [(r, m)]) s"
    using a(2) ready by simp
  show K: "K = progress sender p (sender m)"
    using t all o(2) by (force simp: tracks_def progress_snoc split: if_splits)
  show "feed r m b = (b\<lparr>buffered := (buffered b)(r := None)\<rparr>, Some (r, of_round r (p @ [(r, m)])))"
    using ready a(1) by (simp add: feed_def Let_def take_round_def) (simp add: add_message_def)
  have "buffered (b\<lparr>buffered := (buffered b)(r := None)\<rparr>) (of_nat j) =
      (if of_round (of_nat j) (p @ [(r, m)]) = [] \<or> j \<le> Suc K then None
       else Some (of_round (of_nat j) (p @ [(r, m)])))" if "1 \<le> j" "j \<le> R" for j
    using t that keep [of j] o(3) K by (cases "j = Suc K") (auto simp: tracks_def)
  moreover have "progress sender (p @ [(r, m)]) (sender m) = Suc K" using K by (simp add: progress_snoc)
  ultimately show "tracks sender S R (p @ [(r, m)]) (b\<lparr>buffered := (buffered b)(r := None)\<rparr>) (Suc K)"
    using t all o(2) K by (auto simp: tracks_def)
qed

lemma tracks_wait:
  assumes S: "finite S" "card S \<le> 65535" and R: "R \<le> 65535"
    and ord: "in_order sender S R (p @ [(r, m)])" and t: "tracks sender S R p b K"
    and wait: "\<not> is_ready r (add_message r m b)"
  shows "tracks sender S R (p @ [(r, m)]) (add_message r m b) K"
    and "feed r m b = (add_message r m b, None)"
proof -
  note o = in_order_snoc [OF ord] and a = tracks_add [OF S R ord t] and keep = of_round_other [OF R ord]
  let ?p = "p @ [(r, m)]" and ?j = "Suc (progress sender p (sender m))"
  show "feed r m b = (add_message r m b, None)" using wait by (simp add: feed_def Let_def)
  have K: "K \<le> progress sender p (sender m)" using t o(2) by (simp add: tracks_def)
  have "buffered (add_message r m b) (of_nat j) =
      (if of_round (of_nat j) ?p = [] \<or> j \<le> K then None else Some (of_round (of_nat j) ?p))"
    if "1 \<le> j" "j \<le> R" for j
  proof (cases "j = ?j")
    case True
    then have "of_nat j = r" "\<not> j \<le> K" using o(3) K by simp_all
    then show ?thesis using a(1) by (simp add: of_round_snoc)
  next
    case False
    then show ?thesis using t that keep [of j] by (auto simp: tracks_def add_message_def)
  qed
  moreover have "\<exists>s\<in>S. progress sender ?p s = K"
  proof -
    obtain s where s: "s \<in> S" "progress sender ?p s < ?j" using a(2) wait by (auto simp: not_le)
    obtain s' where s': "s' \<in> S" "progress sender p s' = K" using t by (auto simp: tracks_def)
    have "s \<noteq> sender m" "K \<le> progress sender p s"
      using t s by (auto simp: tracks_def progress_snoc)
    with s s' have "progress sender ?p (if s' = sender m then s else s') = K"
      by (auto simp: progress_snoc)
    then show ?thesis using s(1) s'(1) by (auto split: if_splits)
  qed
  ultimately show "tracks sender S R ?p (add_message r m b) K"
    using t by (auto simp: tracks_def progress_snoc add_message_def)
qed

lemma feed_in_order:
  fixes p :: "(u16 \<times> 'i) list"
  assumes S: "finite S" "S \<noteq> {}" "card S \<le> 65535" and R: "R \<le> 65535"
    and "in_order sender S R p"
  shows "\<exists>b K. feed_all p (new_fixed (of_nat R) (of_nat (card S))) =
      (b, map (\<lambda>j. (of_nat j, of_round (of_nat j) p)) [1..<Suc K]) \<and> tracks sender S R p b K"
  using assms(5)
proof (induction p rule: rev_induct)
  case Nil
  then show ?case using tracks_new [OF S(2)] by fastforce
next
  case (snoc x p)
  obtain r m where x: "x = (r, m)" by fastforce
  let ?p = "p @ [(r, m)]" and ?new = "new_fixed (of_nat R) (of_nat (card S)) :: 'i round_buffer"
  note ord = snoc.prems [unfolded x]
  note o = in_order_snoc [OF ord]
  obtain b K where f: "feed_all p ?new = (b, map (\<lambda>j. (of_nat j, of_round (of_nat j) p)) [1..<Suc K])"
    and t: "tracks sender S R p b K" using snoc.IH [OF o(1)] by blast
  have "K \<le> progress sender p (sender m)" using t o(2) by (simp add: tracks_def)
  then have "map (\<lambda>j. (of_nat j, of_round (of_nat j) p)) [1..<Suc K] =
      map (\<lambda>j. (of_nat j, of_round (of_nat j) ?p)) [1..<Suc K]"
    using o(4) of_round_other(2) [OF R ord] by (intro map_cong) auto
  with f have f': "feed_all p ?new = (b, map (\<lambda>j. (of_nat j, of_round (of_nat j) ?p)) [1..<Suc K])" by simp
  show ?case
  proof (cases "is_ready r (add_message r m b)")
    case True
    note T = tracks_take [OF S(1,3) R ord t True]
    have "r = of_nat (Suc K)" using o(3) T(1) by simp
    then have "feed_all ?p ?new = (b\<lparr>buffered := (buffered b)(r := None)\<rparr>,
        map (\<lambda>j. (of_nat j, of_round (of_nat j) ?p)) [1..<Suc (Suc K)])"
      using f' T(3) by (simp add: feed_all_snoc)
    with T(2) show ?thesis unfolding x by blast
  next
    case False
    note W = tracks_wait [OF S(1,3) R ord t False]
    have "feed_all ?p ?new = (add_message r m b, map (\<lambda>j. (of_nat j, of_round (of_nat j) ?p)) [1..<Suc K])"
      using f' W(2) by (simp add: feed_all_snoc)
    with W(1) show ?thesis unfolding x by blast
  qed
qed

lemma tracks_complete:
  assumes "tracks sender S R p b K" and "\<forall>s\<in>S. progress sender p s = R"
  shows "K = R"
  using assms by (auto simp: tracks_def)

lemma feed_all_complete:
  assumes "finite S" and "S \<noteq> {}" and "card S \<le> 65535" and "R \<le> 65535"
    and "in_order sender S R p" and "\<forall>s\<in>S. progress sender p s = R"
  shows "snd (feed_all p (new_fixed (of_nat R) (of_nat (card S)))) =
    map (\<lambda>j. (of_nat j, of_round (of_nat j) p)) [1..<Suc R]"
proof -
  obtain b K where bK: "feed_all p (new_fixed (of_nat R) (of_nat (card S))) =
      (b, map (\<lambda>j. (of_nat j, of_round (of_nat j) p)) [1..<Suc K])" and t: "tracks sender S R p b K"
    using feed_in_order [OF assms(1-5)] by blast
  show ?thesis unfolding bK tracks_complete [OF t assms(6)] by (rule snd_conv)
qed

lemma complete_round:
  assumes "in_order sender S R p" and "R \<le> 65535" and "\<forall>s\<in>S. progress sender p s = R" and "1 \<le> j" and "j \<le> R"
  shows "distinct (map sender (of_round (of_nat j) p)) \<and> set (map sender (of_round (of_nat j) p)) = S"
  using senders_of_round [OF assms(1,2,4,5)] assms(3,5) by auto

lemma of_round_in: "m \<in> set (of_round r p) \<longleftrightarrow> (r, m) \<in> set p"
  by (force simp: of_round_def)

text \<open>
  C21: However the messages of the parties interleave, as long as each party's own messages arrive in
  the order of its rounds, the buffer hands over the rounds 1 to R exactly once each and in this
  order, and each with exactly one message of every party. This is what lets a party that is ahead
  of the others send early: its messages are kept until their round is complete.
\<close>

theorem rounds_complete_in_order:
  assumes "finite S" and "S \<noteq> {}" and "card S \<le> 65535" and "R \<le> 65535"
    and "in_order sender S R p" and "\<forall>s\<in>S. progress sender p s = R"
  shows "map fst (snd (feed_all p (new_fixed (of_nat R) (of_nat (card S))))) = map of_nat [1..<Suc R] \<and>
    (\<forall>(r, ms)\<in>set (snd (feed_all p (new_fixed (of_nat R) (of_nat (card S))))).
       distinct (map sender ms) \<and> set (map sender ms) = S \<and> (\<forall>m\<in>set ms. (r, m) \<in> set p))"
proof -
  note f = feed_all_complete [OF assms]
  show ?thesis unfolding f
    using complete_round [OF assms(5,4,6)] by (auto simp: of_round_in simp del: upt_Suc)
qed

text \<open>Two senders, ten and twenty being the sender's mark; the first is a round ahead.\<close>

definition sample_trace :: "(u16 \<times> nat) list" where
  "sample_trace = [(1, 10), (2, 11), (1, 20), (2, 21)]"

theorem rounds_complete_in_order_witness:
  "map fst (snd (feed_all sample_trace (new_fixed 2 2))) = [1, 2] \<and>
   snd (feed_all sample_trace (new_fixed 2 2)) = [(1, [10, 20]), (2, [11, 21])]"
proof -
  have o: "in_order (\<lambda>m. m div 10) {1, 2 :: nat} 2 sample_trace"
    by (simp add: in_order_def progress_def sample_trace_def)
  have q: "\<forall>s\<in>{1, 2}. progress (\<lambda>m. m div 10) sample_trace s = 2"
    by (simp add: progress_def sample_trace_def)
  have c: "card {1, 2 :: nat} = 2" "[1..<Suc 2] = [1, 2]" by (simp_all add: upt_rec)
  have e: "snd (feed_all sample_trace (new_fixed 2 2)) = [(1, [10, 20]), (2, [11, 21])]"
    by code_simp
  show ?thesis
    using rounds_complete_in_order [of "{1, 2 :: nat}" 2 "\<lambda>m. m div 10" sample_trace, OF _ _ _ _ o q] e
    unfolding c by simp
qed

end
