(* ===== verification/Bridge.thy ===== *)
theory Bridge
  imports Network_Transport Rounds
begin

text \<open>
  The bridge between the network transport and a protocol (\<open>driver/src/bridge.rs\<close>, and the traits
  of \<open>driver/src/lib.rs\<close>): it buffers the messages of a round, hands a complete round to the
  protocol driver, and sends what the protocol answers to the other parties of the session.

  A protocol driver is a record of its operations. JSON is the \<open>serde_json\<close> crate, a parameter.
  The waiting loops read the event stream of the client: it is the list of the steps that the
  event loop still makes, each a function on the client that yields events. A loop whose stream
  has no further step keeps waiting, which is the value \<open>None\<close>.
\<close>

subsection \<open>Errors and drivers\<close>

datatype 'g driver_error =
    SessionIdMismatch
  | SessionIdRequired
  | Driver_GG20 'g
  | Driver_Client client_error

text \<open>Errors of a protocol may in turn be (boxed) errors of the driver library.\<close>

datatype gg20_error =
    NotSessionParticipant string
  | LocalKeyNotParticipant
  | VerifySignature
  | GG20_Keygen
  | SignOffline
  | SignManual
  | GG20_Client client_error
  | GG20_Driver "gg20_error driver_error"

record ('d, 'b, 'o) protocol_driver =
  handle_incoming :: "'b msg \<Rightarrow> 'd \<Rightarrow> 'd \<times> (gg20_error, unit) outcome"
  proceed :: "'d \<Rightarrow> 'd \<times> (gg20_error, 'b round_msg list) outcome"
  finish :: "'d \<Rightarrow> (gg20_error, 'o) outcome"

record 'b json_ops =
  to_json :: "'b round_msg \<Rightarrow> (unit, bytes) outcome"
  from_json :: "bytes \<Rightarrow> (unit, 'b round_msg) outcome"

record ('h, 't, 'd, 'b) bridge =
  transport :: "('h, 't) transport"
  buffer :: "'b msg round_buffer"
  driver :: "'d option"
  bridge_session :: session_state

type_synonym ('h, 't, 'd, 'b, 'a) bridged = "('h, 't, 'd, 'b) bridge \<times> (gg20_error, 'a) outcome"

subsection \<open>Operations\<close>

definition deserialize :: "'b json_ops \<Rightarrow> bytes \<Rightarrow> (client_error, 'b round_msg) outcome" where
  "deserialize J contents = map_err (\<lambda>_. Client_Json) (from_json J contents)"

text \<open>A call on the transport that is part of the bridge.\<close>

definition on_transport ::
  "(('h, 't) transport \<Rightarrow> ('h, 't, 'a) transported) \<Rightarrow> ('h, 't, 'd, 'b) bridge \<Rightarrow> ('h, 't, 'd, 'b, 'a) bridged" where
  "on_transport f b = (case f (transport b) of (c, x) \<Rightarrow> (b\<lparr>transport := c\<rparr>, map_err GG20_Client x))"

fun send_round_messages ::
  "('h, 't) env \<Rightarrow> 'b json_ops \<Rightarrow> 'b round_msg list \<Rightarrow> ('h, 't, 'd, 'b) bridge \<Rightarrow> ('h, 't, 'd, 'b, unit) bridged" where
  "send_round_messages E J [] b = (b, Ok ())"
| "send_round_messages E J (m # ms) b =
     st_then (b, unwrap (rm_receiver m)) (\<lambda>b party.
     st_then (b, unwrap (peer_key (bridge_session b) party)) (\<lambda>b key.
     st_then (on_transport (transport_send_json E key (to_json J m) (Some (session_id (bridge_session b)))) b)
       (\<lambda>b _. send_round_messages E J ms b) id) id) id"

definition dispatch_round_messages ::
  "('h, 't) env \<Rightarrow> 'b json_ops \<Rightarrow> 'b round_msg list \<Rightarrow> ('h, 't, 'd, 'b) bridge \<Rightarrow> ('h, 't, 'd, 'b, unit) bridged" where
  "dispatch_round_messages E J ms b =
     (if length ms = 1 \<and> is_broadcast (hd ms)
      then on_transport (transport_broadcast_json E (session_id (bridge_session b))
        (recipients (bridge_session b) (transport_public_key (transport b))) (to_json J (hd ms))) b
      else send_round_messages E J ms b)"

text \<open>\<open>self.driver.as_mut().unwrap()\<close> followed by a call that may change the driver.\<close>

definition with_driver ::
  "('d \<Rightarrow> 'd \<times> (gg20_error, 'a) outcome) \<Rightarrow> ('h, 't, 'd, 'b) bridge \<Rightarrow> ('h, 't, 'd, 'b, 'a) bridged" where
  "with_driver f b =
     (case driver b of None \<Rightarrow> (b, Panic) | Some d \<Rightarrow> (case f d of (d, x) \<Rightarrow> (b\<lparr>driver := Some d\<rparr>, x)))"

fun handle_all ::
  "('d, 'b, 'o) protocol_driver \<Rightarrow> 'b msg list \<Rightarrow> ('h, 't, 'd, 'b) bridge \<Rightarrow> ('h, 't, 'd, 'b, unit) bridged" where
  "handle_all D [] b = (b, Ok ())"
| "handle_all D (m # ms) b = st_then (with_driver (handle_incoming D m) b) (\<lambda>b _. handle_all D ms b) id"

definition take_and_finish ::
  "('d, 'b, 'o) protocol_driver \<Rightarrow> ('h, 't, 'd, 'b) bridge \<Rightarrow> ('h, 't, 'd, 'b, 'o option) bridged" where
  "take_and_finish D b =
     (b\<lparr>driver := None\<rparr>, and_then (unwrap (driver b)) (\<lambda>d. and_then (finish D d) (\<lambda>x. Ok (Some x))))"

definition execute ::
  "('h, 't) env \<Rightarrow> 'b json_ops \<Rightarrow> ('d, 'b, 'o) protocol_driver \<Rightarrow> ('h, 't, 'd, 'b) bridge \<Rightarrow>
   ('h, 't, 'd, 'b, unit) bridged" where
  "execute E J D b = st_then (with_driver (proceed D) b) (\<lambda>b ms. dispatch_round_messages E J ms b) id"

fun handle_event ::
  "('h, 't) env \<Rightarrow> 'b json_ops \<Rightarrow> ('d, 'b, 'o) protocol_driver \<Rightarrow> client_event \<Rightarrow> ('h, 't, 'd, 'b) bridge \<Rightarrow>
   ('h, 't, 'd, 'b, 'o option) bridged" where
  "handle_event E J D (JsonMessage peer contents sid) b =
     (case sid of
        None \<Rightarrow> (b, Err (GG20_Driver SessionIdRequired))
      | Some s \<Rightarrow>
          if s \<noteq> session_id (bridge_session b) then (b, Err (GG20_Driver SessionIdMismatch))
          else
            st_then (b, map_err GG20_Client (deserialize J contents)) (\<lambda>b message.
              let round = rm_round message;
                  b = b\<lparr>buffer := add_message round (msg_of_round message) (buffer b)\<rparr>
              in if is_ready round (buffer b)
                 then
                   let (buf, ms) = take_round round (buffer b) in
                   st_then (handle_all D ms (b\<lparr>buffer := buf\<rparr>)) (\<lambda>b _.
                     if buffer_len (buffer b) = 1 then take_and_finish D b
                     else
                       st_then (with_driver (proceed D) b) (\<lambda>b ms.
                       st_then (dispatch_round_messages E J ms b) (\<lambda>b _.
                         if unat round = buffer_len (buffer b) then take_and_finish D b else (b, Ok None)) id) id) id
                 else (b, Ok None)) id)"
| "handle_event E J D _ b = (b, Ok None)"

subsection \<open>Waiting loops\<close>

text \<open>
  The loop around \<open>stream.next()\<close> that \<open>wait_for_driver\<close>, \<open>wait_for_session\<close>, \<open>wait_for_close\<close> and
  \<open>wait_for_session_finish\<close> share: \<open>handle\<close> is called with every event until it returns a value.
  The result is what remains of the stream, the handler's state and the outcome.
\<close>

fun wait_loop ::
  "(client_error \<Rightarrow> 'e) \<Rightarrow> (client_event \<Rightarrow> 's \<Rightarrow> 's \<times> ('e, 'o option) outcome) \<Rightarrow>
   (('h, 't) loop_step \<Rightarrow> 's \<Rightarrow> 's \<times> (client_error, client_event) outcome list) \<Rightarrow>
   ('h, 't) loop_step list \<Rightarrow> (client_error, client_event) outcome list \<Rightarrow> 's \<Rightarrow>
   (('h, 't) loop_step list \<times> (client_error, client_event) outcome list \<times> 's \<times> ('e, 'o) outcome) option" where
  "wait_loop conv handle advance [] [] s = None"
| "wait_loop conv handle advance (step # steps) [] s =
     (let (s, events) = advance step s in wait_loop conv handle advance steps events s)"
| "wait_loop conv handle advance steps (Err e # events) s = Some (steps, events, s, Err (conv e))"
| "wait_loop conv handle advance steps (Panic # events) s = Some (steps, events, s, Panic)"
| "wait_loop conv handle advance steps (Ok event # events) s =
     (case handle event s of
        (s, Ok None) \<Rightarrow> wait_loop conv handle advance steps events s
      | (s, Ok (Some x)) \<Rightarrow> Some (steps, events, s, Ok x)
      | (s, Err e) \<Rightarrow> Some (steps, events, s, Err e)
      | (s, Panic) \<Rightarrow> Some (steps, events, s, Panic))"

definition step_bridge ::
  "('h, 't) loop_step \<Rightarrow> ('h, 't, 'd, 'b) bridge \<Rightarrow> ('h, 't, 'd, 'b) bridge \<times> (client_error, client_event) outcome list" where
  "step_bridge step b = (case step_transport step (transport b) of (c, events) \<Rightarrow> (b\<lparr>transport := c\<rparr>, events))"

definition wait_for_driver ::
  "('h, 't) env \<Rightarrow> 'b json_ops \<Rightarrow> ('d, 'b, 'o) protocol_driver \<Rightarrow> ('h, 't) loop_step list \<Rightarrow>
   (client_error, client_event) outcome list \<Rightarrow> ('h, 't, 'd, 'b) bridge \<Rightarrow>
   (('h, 't) loop_step list \<times> (client_error, client_event) outcome list \<times> ('h, 't) transport \<times> (gg20_error, 'o) outcome) option" where
  "wait_for_driver E J D steps events b =
     (case execute E J D b of
        (b, Ok _) \<Rightarrow>
          map_option (\<lambda>(steps, events, b, x). (steps, events, transport b, x))
            (wait_loop GG20_Client (handle_event E J D) step_bridge steps events b)
      | (b, Err e) \<Rightarrow> Some (steps, events, transport b, Err e)
      | (b, Panic) \<Rightarrow> Some (steps, events, transport b, Panic))"

definition wait_for_close ::
  "('h, 't) loop_step list \<Rightarrow> (client_error, client_event) outcome list \<Rightarrow> ('h, 't) transport \<Rightarrow>
   (('h, 't) loop_step list \<times> (client_error, client_event) outcome list \<times> ('h, 't) transport \<times> (gg20_error driver_error, unit) outcome) option" where
  "wait_for_close steps events c =
     wait_loop Driver_Client (\<lambda>event c. (c, Ok (if event = Ev_Close then Some () else None))) step_transport steps events c"

definition wait_for_session_finish ::
  "session_id \<Rightarrow> ('h, 't) loop_step list \<Rightarrow> (client_error, client_event) outcome list \<Rightarrow> ('h, 't) transport \<Rightarrow>
   (('h, 't) loop_step list \<times> (client_error, client_event) outcome list \<times> ('h, 't) transport \<times> (gg20_error driver_error, unit) outcome) option" where
  "wait_for_session_finish sid steps events c =
     wait_loop Driver_Client (\<lambda>event c. (c, Ok (if event = Ev_SessionFinished sid then Some () else None)))
       step_transport steps events c"

subsection \<open>Rounds\<close>

text \<open>
  What the bridge does with a complete round, and with a sequence of complete rounds until one of
  them ends the protocol: the specification that the event handling implements.
\<close>

definition process_round ::
  "('h, 't) env \<Rightarrow> 'b json_ops \<Rightarrow> ('d, 'b, 'o) protocol_driver \<Rightarrow> u16 \<Rightarrow> 'b msg list \<Rightarrow> ('h, 't, 'd, 'b) bridge \<Rightarrow>
   ('h, 't, 'd, 'b, 'o option) bridged" where
  "process_round E J D round ms b =
     st_then (handle_all D ms b) (\<lambda>b _.
       if buffer_len (buffer b) = 1 then take_and_finish D b
       else
         st_then (with_driver (proceed D) b) (\<lambda>b ms.
         st_then (dispatch_round_messages E J ms b) (\<lambda>b _.
           if unat round = buffer_len (buffer b) then take_and_finish D b else (b, Ok None)) id) id) id"

fun process_rounds ::
  "('h, 't) env \<Rightarrow> 'b json_ops \<Rightarrow> ('d, 'b, 'o) protocol_driver \<Rightarrow> (u16 \<times> 'b msg list) list \<Rightarrow> ('h, 't, 'd, 'b) bridge \<Rightarrow>
   ('h, 't, 'd, 'b, 'o option) bridged" where
  "process_rounds E J D [] b = (b, Ok None)"
| "process_rounds E J D ((r, ms) # rounds) b =
     st_then (process_round E J D r ms b) (\<lambda>b x.
       case x of None \<Rightarrow> process_rounds E J D rounds b | Some y \<Rightarrow> (b, Ok (Some y))) id"

lemma handle_event_feed:
  assumes "from_json J contents = Ok m" and "sid = session_id (bridge_session b)"
  shows "handle_event E J D (JsonMessage peer contents (Some sid)) b =
    (case feed (rm_round m) (msg_of_round m) (buffer b) of
       (buf, None) \<Rightarrow> (b\<lparr>buffer := buf\<rparr>, Ok None)
     | (buf, Some (r, ms)) \<Rightarrow> process_round E J D r ms (b\<lparr>buffer := buf\<rparr>))"
  using assms by (simp add: deserialize_def feed_def Let_def process_round_def split: prod.splits)

text \<open>The buffer is only read through its number of rounds.\<close>

definition rebuffer :: "'b msg round_buffer \<Rightarrow> ('h, 't, 'd, 'b) bridge \<Rightarrow> ('h, 't, 'd, 'b) bridge" where
  "rebuffer buf b = b\<lparr>buffer := buf\<rparr>"

lemma rebuffer_sel [simp]:
  "transport (rebuffer buf b) = transport b" "driver (rebuffer buf b) = driver b"
  "bridge_session (rebuffer buf b) = bridge_session b" "buffer (rebuffer buf b) = buf"
  "rebuffer buf (rebuffer buf' b) = rebuffer buf b"
  by (simp_all add: rebuffer_def)

lemma st_then_apfst: "st_then (apfst h m) f g = st_then m (\<lambda>s x. f (h s) x) (\<lambda>s. g (h s))"
  by (cases m; cases "snd m") auto

lemma apfst_st_then: "apfst h (st_then m f g) = st_then m (\<lambda>s x. apfst h (f s x)) (\<lambda>s. h (g s))"
  by (cases m; cases "snd m") auto

lemma on_transport_rebuffer: "on_transport f (rebuffer buf b) = apfst (rebuffer buf) (on_transport f b)"
  by (simp add: on_transport_def rebuffer_def split: prod.splits)

lemma with_driver_rebuffer: "with_driver f (rebuffer buf b) = apfst (rebuffer buf) (with_driver f b)"
  by (simp add: with_driver_def rebuffer_def split: prod.splits option.splits)

lemma handle_all_rebuffer: "handle_all D ms (rebuffer buf b) = apfst (rebuffer buf) (handle_all D ms b)"
  by (induction ms arbitrary: b) (simp_all add: with_driver_rebuffer st_then_apfst apfst_st_then)

lemma dispatch_rebuffer:
  "dispatch_round_messages E J ms (rebuffer buf b) = apfst (rebuffer buf) (dispatch_round_messages E J ms b)"
proof -
  have "send_round_messages E J ms (rebuffer buf b) = apfst (rebuffer buf) (send_round_messages E J ms b)" for ms
    by (induction ms arbitrary: b)
       (simp_all add: on_transport_rebuffer st_then_apfst apfst_st_then split: st_then_splits)
  then show ?thesis by (simp add: dispatch_round_messages_def on_transport_rebuffer)
qed

lemma take_and_finish_rebuffer: "take_and_finish D (rebuffer buf b) = apfst (rebuffer buf) (take_and_finish D b)"
  by (simp add: take_and_finish_def rebuffer_def)

definition framed :: "('h, 't, 'd, 'b) bridge \<Rightarrow> ('h, 't, 'd, 'b) bridge \<Rightarrow> bool" where
  "framed b b' \<longleftrightarrow> buffer b' = buffer b \<and> bridge_session b' = bridge_session b"

lemma framed_then:
  assumes "framed b (fst m)" and "\<And>s x. framed b s \<Longrightarrow> framed b (fst (f s x))"
  shows "framed b (fst (st_then m f id))"
  using assms by (cases m; cases "snd m") auto

lemma framed_ops:
  "framed a b \<Longrightarrow> framed a (fst (on_transport f b))" "framed a b \<Longrightarrow> framed a (fst (with_driver g b))"
  "framed a b \<Longrightarrow> framed a (fst (take_and_finish D b))"
  by (simp_all add: framed_def on_transport_def with_driver_def take_and_finish_def split: prod.splits option.splits)

lemma framed_handle_all: "framed a b \<Longrightarrow> framed a (fst (handle_all D ms b))"
proof (induction ms arbitrary: b)
  case (Cons m ms)
  show ?case unfolding handle_all.simps
    by (rule framed_then, rule framed_ops(2), rule Cons.prems, rule Cons.IH)
qed simp

lemma framed_pure: "framed a b \<Longrightarrow> framed a (fst (b, x))"
  by simp

lemma framed_send: "framed a b \<Longrightarrow> framed a (fst (send_round_messages E J ms b))"
proof (induction ms arbitrary: b)
  case (Cons m ms)
  show ?case unfolding send_round_messages.simps
    by (rule framed_then, rule framed_pure, rule Cons.prems, rule framed_then, erule framed_pure,
        rule framed_then, erule framed_ops(1), rule Cons.IH)
qed simp

lemma framed_dispatch: "framed a b \<Longrightarrow> framed a (fst (dispatch_round_messages E J ms b))"
  by (simp add: dispatch_round_messages_def framed_ops framed_send)

text \<open>Sending leaves the protocol driver as it is.\<close>

lemma driver_then:
  assumes "driver (fst m) = d" and "\<And>s x. driver s = d \<Longrightarrow> driver (fst (f s x)) = d"
  shows "driver (fst (st_then m f id)) = d"
  using assms by (cases m; cases "snd m") auto

lemma driver_on_transport: "driver (fst (on_transport f b)) = driver b"
  by (simp add: on_transport_def split: prod.splits)

lemma driver_send: "driver b = d \<Longrightarrow> driver (fst (send_round_messages E J ms b)) = d"
proof (induction ms arbitrary: b)
  case (Cons m ms)
  then show ?case unfolding send_round_messages.simps
    by (intro driver_then) (simp_all add: driver_on_transport)
qed simp

lemma driver_dispatch: "driver (fst (dispatch_round_messages E J ms b)) = driver b"
  by (simp add: dispatch_round_messages_def driver_on_transport driver_send)

lemma framed_if: "(c \<Longrightarrow> framed a (fst x)) \<Longrightarrow> (\<not> c \<Longrightarrow> framed a (fst y)) \<Longrightarrow> framed a (fst (if c then x else y))"
  by simp

lemma framed_process_round: "framed a b \<Longrightarrow> framed a (fst (process_round E J D r ms b))"
  unfolding process_round_def
  by (rule framed_then, erule framed_handle_all, rule framed_if, erule framed_ops(3),
      rule framed_then, erule framed_ops(2), rule framed_then, erule framed_dispatch, rule framed_if,
      erule framed_ops(3), erule framed_pure)

lemma process_round_rebuffer:
  assumes "buffer_len buf = buffer_len (buffer b)"
  shows "process_round E J D r ms (rebuffer buf b) = apfst (rebuffer buf) (process_round E J D r ms b)"
proof -
  have len: "buffer_len (buffer b') = buffer_len buf" if "framed b b'" for b'
    using that assms by (simp add: framed_def)
  have "framed b b1" "framed b b2" "framed b b3"
    if "handle_all D ms b = (b1, Ok x)" "with_driver (proceed D) b1 = (b2, Ok y)"
      "dispatch_round_messages E J y b2 = (b3, Ok z)" for b1 b2 b3 x y z
    using framed_handle_all [of b b D ms] framed_ops(2) [of b b1 "proceed D"] framed_dispatch [of b b2 E J y] that
    by (simp_all add: framed_def)
  moreover have "framed b b1" if "handle_all D ms b = (b1, Ok x)" for b1 x
    using framed_handle_all [of b b D ms] that by (simp add: framed_def)
  ultimately show ?thesis
    unfolding process_round_def handle_all_rebuffer st_then_apfst
    by (auto simp: with_driver_rebuffer dispatch_rebuffer take_and_finish_rebuffer st_then_apfst apfst_st_then len
        split: st_then_splits)
qed

lemma feed_expected:
  "feed r m b = (b', x) \<Longrightarrow> expected b' = expected b"
  by (auto simp: feed_def Let_def add_message_def take_round_def split: if_splits option.splits prod.splits)

lemma feed_all_expected: "feed_all p b = (b', xs) \<Longrightarrow> expected b' = expected b"
proof (induction p arbitrary: b b' xs)
  case (Cons x p)
  then show ?case
    by (cases x) (auto simp: Let_def dest: feed_expected split: prod.splits)
qed simp

text \<open>
  The outcome of a waiting loop and the outcome of processing complete rounds, compared without
  the buffer: a loop that still waits corresponds to rounds that have not ended the protocol.
\<close>

fun settled :: "('h, 't, 'd, 'b, 'o option) bridged \<Rightarrow> (('h, 't) transport \<times> 'd option \<times> (gg20_error, 'o) outcome) option" where
  "settled (b, Ok None) = None"
| "settled (b, Ok (Some x)) = Some (transport b, driver b, Ok x)"
| "settled (b, Err e) = Some (transport b, driver b, Err e)"
| "settled (b, Panic) = Some (transport b, driver b, Panic)"

lemma settled_rebuffer: "settled (apfst (rebuffer buf) r) = settled r"
  by (cases r rule: settled.cases) simp_all

lemma process_rounds_rebuffer:
  assumes "buffer_len buf = buffer_len (buffer b)"
  shows "process_rounds E J D rounds (rebuffer buf b) = apfst (rebuffer buf) (process_rounds E J D rounds b)"
  using assms
proof (induction rounds arbitrary: b)
  case (Cons x rounds)
  obtain r ms where x: "x = (r, ms)" by fastforce
  have "buffer_len buf = buffer_len (buffer b')" if "process_round E J D r ms b = (b', y)" for b' y
    using framed_process_round [of b b E J D r ms] that Cons.prems by (simp add: framed_def)
  then show ?case
    using Cons.IH process_round_rebuffer [OF Cons.prems, of E J D r ms]
    by (auto simp: x st_then_apfst apfst_st_then split: st_then_splits option.splits)
qed simp

definition loop_result ::
  "(('h, 't) loop_step list \<times> (client_error, client_event) outcome list \<times> ('h, 't, 'd, 'b) bridge \<times> (gg20_error, 'o) outcome) option \<Rightarrow>
   (('h, 't) transport \<times> 'd option \<times> (gg20_error, 'o) outcome) option" where
  "loop_result = map_option (\<lambda>(steps, events, b, x). (transport b, driver b, x))"

definition json_events :: "session_id \<Rightarrow> (bytes \<times> bytes) list \<Rightarrow> (client_error, client_event) outcome list" where
  "json_events sid received = map (\<lambda>(peer, contents). Ok (JsonMessage peer contents (Some sid))) received"

definition rounds_of :: "'b round_msg list \<Rightarrow> (u16 \<times> 'b msg) list" where
  "rounds_of ms = map (\<lambda>m. (rm_round m, msg_of_round m)) ms"

lemma wait_loop_rounds:
  assumes "list_all2 (\<lambda>(peer, contents) m. from_json J contents = Ok m) received ms"
    and "sid = session_id (bridge_session b)"
  shows "loop_result (wait_loop GG20_Client (handle_event E J D) step_bridge [] (json_events sid received) b) =
    settled (process_rounds E J D (snd (feed_all (rounds_of ms) (buffer b))) b)"
  using assms
proof (induction received ms arbitrary: b rule: list_all2_induct)
  case Nil
  then show ?case by (simp add: loop_result_def json_events_def rounds_of_def)
next
  case (Cons x received m ms)
  obtain peer contents where x: "x = (peer, contents)" "from_json J contents = Ok m" using Cons.hyps(1) by force
  obtain buf y where f: "feed (rm_round m) (msg_of_round m) (buffer b) = (buf, y)" by fastforce
  have len: "buffer_len buf = buffer_len (buffer b)" using feed_expected [OF f] by (simp add: buffer_len_def)
  have all: "snd (feed_all (rounds_of (m # ms)) (buffer b)) =
      (case y of Some z \<Rightarrow> [z] | None \<Rightarrow> []) @ snd (feed_all (rounds_of ms) buf)"
    using f by (simp add: rounds_of_def split: prod.splits option.splits)
  note H = handle_event_feed [OF x(2) Cons.prems, of E D peer, unfolded f, folded rebuffer_def]
  note IH = Cons.IH [folded json_events_def]
  show ?case
  proof (cases y)
    case None
    then show ?thesis
      using IH [of "rebuffer buf b"] H Cons.prems all
      by (simp add: x(1) json_events_def settled_rebuffer process_rounds_rebuffer [OF len] del: handle_event.simps)
  next
    case (Some z)
    obtain r zs where z: "z = (r, zs)" by fastforce
    have P: "handle_event E J D (JsonMessage peer contents (Some sid)) b = apfst (rebuffer buf) (process_round E J D r zs b)"
      using H Some z by (simp add: process_round_rebuffer [OF len] del: handle_event.simps)
    obtain b1 w where b1: "process_round E J D r zs b = (b1, w)" by fastforce
    have fr: "buffer_len buf = buffer_len (buffer b1)" "sid = session_id (bridge_session (rebuffer buf b1))"
      using framed_process_round [of b b E J D r zs] b1 len Cons.prems by (simp_all add: framed_def)
    show ?thesis
      using IH [OF fr(2)] P b1 all Some z
      by (cases w) (simp_all add: x(1) json_events_def settled_rebuffer loop_result_def
          process_rounds_rebuffer [OF fr(1)] del: handle_event.simps split: option.splits)
  qed
qed

lemma take_and_finish_settled: "settled (take_and_finish D b) \<noteq> None"
proof (cases "driver b")
  case (Some d)
  then show ?thesis by (cases "finish D d") (simp_all add: take_and_finish_def)
qed (simp add: take_and_finish_def)

lemma settled_then:
  assumes "\<And>s x. m = (s, Ok x) \<Longrightarrow> settled (f s x) \<noteq> None"
  shows "settled (st_then m f id) \<noteq> None"
  using assms by (cases m; cases "snd m") auto

lemma last_round_settles:
  assumes "unat r = buffer_len (buffer b)"
  shows "settled (process_round E J D r ms b) \<noteq> None"
  unfolding process_round_def
proof (intro settled_then)
  fix b1 x assume "handle_all D ms b = (b1, Ok x)"
  then have b1: "framed b b1" using framed_handle_all [of b b D ms] by (simp add: framed_def)
  have "settled (st_then (with_driver (proceed D) b1) (\<lambda>b ms. st_then (dispatch_round_messages E J ms b) (\<lambda>b _.
      if unat r = buffer_len (buffer b) then take_and_finish D b else (b, Ok None)) id) id) \<noteq> None"
  proof (intro settled_then)
    fix b2 y b3 z
    assume "with_driver (proceed D) b1 = (b2, Ok y)" and "dispatch_round_messages E J y b2 = (b3, Ok z)"
    then have "framed b b3"
      using framed_ops(2) [OF b1, of "proceed D"] framed_dispatch [of b b2 E J y] by simp
    then show "settled (if unat r = buffer_len (buffer b3) then take_and_finish D b3 else (b3, Ok None)) \<noteq> None"
      using assms take_and_finish_settled [of D b3] by (simp add: framed_def)
  qed
  then show "settled (if buffer_len (buffer b1) = 1 then take_and_finish D b1
      else st_then (with_driver (proceed D) b1) (\<lambda>b ms. st_then (dispatch_round_messages E J ms b) (\<lambda>b _.
        if unat r = buffer_len (buffer b) then take_and_finish D b else (b, Ok None)) id) id) \<noteq> None"
    using take_and_finish_settled [of D b1] by simp
qed

lemma process_rounds_settled:
  assumes "rounds \<noteq> []" and "unat (fst (last rounds)) = buffer_len (buffer b)"
  shows "settled (process_rounds E J D rounds b) \<noteq> None"
  using assms
proof (induction rounds arbitrary: b)
  case (Cons x rounds)
  obtain r ms where x: "x = (r, ms)" by fastforce
  obtain b1 w where b1: "process_round E J D r ms b = (b1, w)" by fastforce
  have "buffer b1 = buffer b" using framed_process_round [of b b E J D r ms] b1 by (simp add: framed_def)
  then have "rounds \<noteq> [] \<Longrightarrow> settled (process_rounds E J D rounds b1) \<noteq> None"
    using Cons.IH [of b1] Cons.prems(2) by simp
  moreover have "rounds = [] \<Longrightarrow> settled (process_round E J D r ms b) \<noteq> None"
    using last_round_settles [of r b E J D ms] Cons.prems(2) x by simp
  ultimately show ?case
    using b1 by (cases "(b1, w)" rule: settled.cases; cases "rounds = []") (auto simp: x)
qed simp

subsection \<open>Properties\<close>

text \<open>
  C4: A protocol of R rounds runs to its end. However the messages of the other parties interleave
  on the event stream, as long as each party's messages arrive in the order of its rounds, the
  bridge hands the protocol driver the rounds 1 to R in this order, each with exactly one message
  of every other party, and calls the driver and the transport exactly as processing these complete
  rounds one after the other does. It then has a result (the output, or the error of the first call
  that failed): it does not keep waiting.
\<close>

theorem bridge_completes_rounds:
  assumes "finite S" and "S \<noteq> {}" and "card S \<le> 65535" and "1 \<le> R" and "R \<le> 65535"
    and "in_order msg_sender S R (rounds_of ms)" and "\<forall>s\<in>S. progress msg_sender (rounds_of ms) s = R"
    and "list_all2 (\<lambda>(peer, contents) m. from_json J contents = Ok m) received ms"
    and "buffer b = new_fixed (of_nat R) (of_nat (card S))" and "sid = session_id (bridge_session b)"
  shows "\<exists>rounds. map fst rounds = map of_nat [1..<Suc R] \<and>
    (\<forall>(r, xs)\<in>set rounds. distinct (map msg_sender xs) \<and> set (map msg_sender xs) = S \<and>
       (\<forall>x\<in>set xs. \<exists>m\<in>set ms. rm_round m = r \<and> msg_of_round m = x)) \<and>
    loop_result (wait_loop GG20_Client (handle_event E J D) step_bridge [] (json_events sid received) b) =
      settled (process_rounds E J D rounds b) \<and> settled (process_rounds E J D rounds b) \<noteq> None"
proof -
  let ?p = "rounds_of ms" and ?rounds = "map (\<lambda>j. (of_nat j :: u16, of_round (of_nat j) (rounds_of ms))) [1..<Suc R]"
  note f = feed_all_complete [OF assms(1,2,3,5,6,7)]
  have "unat (fst (last ?rounds)) = buffer_len (buffer b)"
    using assms(4,5,9) by (simp add: buffer_len_new_fixed)
  then have "settled (process_rounds E J D ?rounds b) \<noteq> None"
    using assms(4) by (intro process_rounds_settled) simp_all
  moreover have "loop_result (wait_loop GG20_Client (handle_event E J D) step_bridge [] (json_events sid received) b) =
      settled (process_rounds E J D ?rounds b)"
    using wait_loop_rounds [OF assms(8,10), of E D] unfolding assms(9) f .
  moreover have "\<exists>m\<in>set ms. rm_round m = r \<and> msg_of_round m = x" if "x \<in> set (of_round r ?p)" for r x
    using that unfolding of_round_in by (auto simp: rounds_of_def)
  ultimately show ?thesis
    using complete_round [OF assms(6,5,7)] by (intro exI [of _ ?rounds]) (auto simp del: upt_Suc)
qed

text \<open>A driver that collects the bodies of the messages, and a JSON encoding of three bytes.\<close>

definition collector :: "(nat list, nat, nat list) protocol_driver" where
  "collector = \<lparr>handle_incoming = (\<lambda>m d. (d @ [msg_body m], Ok ())), proceed = (\<lambda>d. (d, Ok [])), finish = Ok\<rparr>"

fun bytes_to_msg :: "bytes \<Rightarrow> (unit, nat round_msg) outcome" where
  "bytes_to_msg [r, s, v] = Ok \<lparr>rm_round = ucast r, rm_sender = ucast s, rm_receiver = None, rm_body = unat v\<rparr>"
| "bytes_to_msg _ = Err ()"

definition sample_json :: "nat json_ops" where
  "sample_json = \<lparr>to_json = (\<lambda>m. Ok [ucast (rm_round m), ucast (rm_sender m), of_nat (rm_body m)]),
     from_json = bytes_to_msg\<rparr>"

definition sample_bridge :: "u16 \<Rightarrow> u16 \<Rightarrow> (bool \<times> nat, nat \<times> nat, nat list, nat) bridge" where
  "sample_bridge rounds n = \<lparr>transport = Relay (sample_client [5]), buffer = new_fixed rounds n, driver = Some [],
     bridge_session = \<lparr>session_id = sample_uuid, all_participants = [[5], [6], [7]]\<rparr>\<rparr>"

definition sample_messages :: "nat round_msg list" where
  "sample_messages = [\<lparr>rm_round = 1, rm_sender = 2, rm_receiver = None, rm_body = 20\<rparr>,
     \<lparr>rm_round = 2, rm_sender = 2, rm_receiver = None, rm_body = 21\<rparr>,
     \<lparr>rm_round = 1, rm_sender = 3, rm_receiver = None, rm_body = 30\<rparr>,
     \<lparr>rm_round = 2, rm_sender = 3, rm_receiver = None, rm_body = 31\<rparr>]"

theorem bridge_completes_rounds_witness:
  "\<exists>rounds. map fst rounds = [1, 2] \<and>
    loop_result (wait_loop GG20_Client (handle_event sample_env sample_json collector) step_bridge []
      (json_events sample_uuid [([6], [1, 2, 20]), ([6], [2, 2, 21]), ([7], [1, 3, 30]), ([7], [2, 3, 31])])
      (sample_bridge 2 2)) = settled (process_rounds sample_env sample_json collector rounds (sample_bridge 2 2))"
proof -
  have o: "in_order msg_sender {2, 3 :: u16} 2 (rounds_of sample_messages)"
    by (simp add: in_order_def progress_def rounds_of_def sample_messages_def msg_of_round_def)
  have q: "\<forall>s\<in>{2, 3}. progress msg_sender (rounds_of sample_messages) s = 2"
    by (simp add: progress_def rounds_of_def sample_messages_def msg_of_round_def)
  have c: "card {2, 3 :: u16} = 2" "[1..<Suc 2] = [1, 2]" by (simp_all add: upt_rec)
  have j: "list_all2 (\<lambda>(peer, contents) m. from_json sample_json contents = Ok m)
      [([6 :: byte], [1, 2, 20]), ([6], [2, 2, 21]), ([7], [1, 3, 30]), ([7], [2, 3, 31])] sample_messages"
    by (simp add: sample_json_def sample_messages_def)
  have "buffer (sample_bridge 2 2) = new_fixed (of_nat 2) (of_nat (card {2, 3 :: u16}))"
    "sample_uuid = session_id (bridge_session (sample_bridge 2 2))"
    unfolding c by (simp_all add: sample_bridge_def)
  moreover have h: "finite {2, 3 :: u16}" "{2, 3 :: u16} \<noteq> {}" "card {2, 3 :: u16} \<le> 65535" "(1 :: nat) \<le> 2" "(2 :: nat) \<le> 65535"
    by simp_all
  ultimately have "\<exists>rounds. map fst rounds = map of_nat [1..<Suc 2] \<and>
    loop_result (wait_loop GG20_Client (handle_event sample_env sample_json collector) step_bridge []
      (json_events sample_uuid [([6], [1, 2, 20]), ([6], [2, 2, 21]), ([7], [1, 3, 30]), ([7], [2, 3, 31])])
      (sample_bridge 2 2)) = settled (process_rounds sample_env sample_json collector rounds (sample_bridge 2 2))"
    using bridge_completes_rounds [OF h o q j] by blast
  then show ?thesis unfolding c by simp
qed

text \<open>
  A peer message that does not belong to the session of the bridge, or is not a round message,
  is refused with the error for its case, and the bridge, its buffer, its driver and the transport
  are as before. Events that are no JSON messages are ignored.
\<close>

lemma foreign_messages_refused:
  "handle_event E J D (JsonMessage peer contents None) b = (b, Err (GG20_Driver SessionIdRequired)) \<and>
   (sid \<noteq> session_id (bridge_session b) \<longrightarrow>
      handle_event E J D (JsonMessage peer contents (Some sid)) b = (b, Err (GG20_Driver SessionIdMismatch))) \<and>
   (sid = session_id (bridge_session b) \<and> from_json J contents = Err x \<longrightarrow>
      handle_event E J D (JsonMessage peer contents (Some sid)) b = (b, Err (GG20_Client Client_Json))) \<and>
   ((\<forall>peer contents sid. event \<noteq> JsonMessage peer contents sid) \<longrightarrow> handle_event E J D event b = (b, Ok None))"
  by (cases event) (simp_all add: deserialize_def)

end
