(* ===== verification/Session_Handlers.thy ===== *)
theory Session_Handlers
  imports Bridge
begin

text \<open>
  Creating and joining a session (\<open>driver/src/session.rs\<close>). The initiator asks the server for a
  session once it is connected; initiator and participants connect to the peers that follow them in
  the list of participants and report every completed peer handshake, until the server announces
  that the session is active.

  \<open>random\<close> is the randomness that a handshake with a peer uses.
\<close>

subsection \<open>Handlers\<close>

record ('h, 't) session_initiator =
  si_transport :: "('h, 't) transport"
  si_participants :: "bytes list"
  si_state :: "session_state option"
  requested_session :: bool

record ('h, 't) session_participant =
  sp_transport :: "('h, 't) transport"
  sp_state :: "session_state option"

datatype ('h, 't) session_handler =
    Initiator "('h, 't) session_initiator"
  | Participant "('h, 't) session_participant"

definition SessionInitiator_new :: "('h, 't) transport \<Rightarrow> bytes list \<Rightarrow> ('h, 't) session_initiator" where
  "SessionInitiator_new t keys =
     \<lparr>si_transport = t, si_participants = keys, si_state = None, requested_session = False\<rparr>"

definition SessionParticipant_new :: "('h, 't) transport \<Rightarrow> ('h, 't) session_participant" where
  "SessionParticipant_new t = \<lparr>sp_transport = t, sp_state = None\<rparr>"

text \<open>\<open>for key in connections { transport.connect_peer(key).await? }\<close>.\<close>

fun connect_all ::
  "('h, 't) env \<Rightarrow> (bytes \<Rightarrow> nat) \<Rightarrow> bytes list \<Rightarrow> ('h, 't) transport \<Rightarrow> ('h, 't, unit) transported" where
  "connect_all E random [] t = (t, Ok ())"
| "connect_all E random (key # keys) t =
     st_then (transport_connect_peer E (random key) key t) (\<lambda>t _. connect_all E random keys t) id"

definition initiator_new_session ::
  "('h, 't) env \<Rightarrow> ('h, 't) session_initiator \<Rightarrow> ('h, 't) session_initiator \<times> (gg20_error driver_error, unit) outcome" where
  "initiator_new_session E s =
     (if \<not> requested_session s \<and> transport_is_connected (si_transport s)
      then
        st_then (apsnd (map_err Driver_Client) (transport_new_session E (si_participants s) (si_transport s)))
          (\<lambda>t _. (s\<lparr>si_transport := t, requested_session := True\<rparr>, Ok ()))
          (\<lambda>t. s\<lparr>si_transport := t\<rparr>)
      else (s, Ok ()))"

text \<open>What both handlers do on \<open>PeerConnected\<close> when they have a session.\<close>

definition report_connection ::
  "('h, 't) env \<Rightarrow> session_state \<Rightarrow> bytes \<Rightarrow> ('h, 't) transport \<Rightarrow> ('h, 't) transport \<times> (gg20_error driver_error, unit) outcome" where
  "report_connection E session peer t =
     (if peer \<in> set (connections session (transport_public_key t))
      then apsnd (map_err Driver_Client) (transport_register_connection E (session_id session) peer t)
      else (t, Ok ()))"

definition initiator_handle_event ::
  "('h, 't) env \<Rightarrow> (bytes \<Rightarrow> nat) \<Rightarrow> client_event \<Rightarrow> ('h, 't) session_initiator \<Rightarrow>
   ('h, 't) session_initiator \<times> (gg20_error driver_error, session_state option) outcome" where
  "initiator_handle_event E random event s =
     st_then (initiator_new_session E s) (\<lambda>s _.
       case event of
         Ev_SessionCreated session \<Rightarrow> (s\<lparr>si_state := Some session\<rparr>, Ok None)
       | Ev_SessionReady session \<Rightarrow>
           st_then (apsnd (map_err Driver_Client) (connect_all E random
               (connections session (transport_public_key (si_transport s))) (si_transport s)))
             (\<lambda>t _. (s\<lparr>si_transport := t\<rparr>, Ok None)) (\<lambda>t. s\<lparr>si_transport := t\<rparr>)
       | PeerConnected peer \<Rightarrow>
           (case si_state s of
              None \<Rightarrow> (s, Panic)
            | Some session \<Rightarrow>
                st_then (report_connection E session peer (si_transport s))
                  (\<lambda>t _. (s\<lparr>si_transport := t\<rparr>, Ok None)) (\<lambda>t. s\<lparr>si_transport := t\<rparr>))
       | Ev_SessionActive session \<Rightarrow> (s, Ok (Some session))
       | _ \<Rightarrow> (s, Ok None)) id"

definition participant_handle_event ::
  "('h, 't) env \<Rightarrow> (bytes \<Rightarrow> nat) \<Rightarrow> client_event \<Rightarrow> ('h, 't) session_participant \<Rightarrow>
   ('h, 't) session_participant \<times> (gg20_error driver_error, session_state option) outcome" where
  "participant_handle_event E random event s =
     (case event of
        Ev_SessionReady session \<Rightarrow>
          let s = s\<lparr>sp_state := Some session\<rparr> in
          st_then (apsnd (map_err Driver_Client) (connect_all E random
              (connections session (transport_public_key (sp_transport s))) (sp_transport s)))
            (\<lambda>t _. (s\<lparr>sp_transport := t\<rparr>, Ok None)) (\<lambda>t. s\<lparr>sp_transport := t\<rparr>)
      | PeerConnected peer \<Rightarrow>
          (case sp_state s of
             None \<Rightarrow> (s, Ok None)
           | Some session \<Rightarrow>
               st_then (report_connection E session peer (sp_transport s))
                 (\<lambda>t _. (s\<lparr>sp_transport := t\<rparr>, Ok None)) (\<lambda>t. s\<lparr>sp_transport := t\<rparr>))
      | Ev_SessionActive session \<Rightarrow> (s, Ok (Some session))
      | _ \<Rightarrow> (s, Ok None))"

primrec session_handle_event ::
  "('h, 't) env \<Rightarrow> (bytes \<Rightarrow> nat) \<Rightarrow> client_event \<Rightarrow> ('h, 't) session_handler \<Rightarrow>
   ('h, 't) session_handler \<times> (gg20_error driver_error, session_state option) outcome" where
  "session_handle_event E random event (Initiator s) = apfst Initiator (initiator_handle_event E random event s)"
| "session_handle_event E random event (Participant s) = apfst Participant (participant_handle_event E random event s)"

primrec handler_transport :: "('h, 't) session_handler \<Rightarrow> ('h, 't) transport" where
  "handler_transport (Initiator s) = si_transport s"
| "handler_transport (Participant s) = sp_transport s"

primrec step_handler ::
  "('h, 't) loop_step \<Rightarrow> ('h, 't) session_handler \<Rightarrow> ('h, 't) session_handler \<times> (client_error, client_event) outcome list" where
  "step_handler step (Initiator s) =
     (case step_transport step (si_transport s) of (t, events) \<Rightarrow> (Initiator (s\<lparr>si_transport := t\<rparr>), events))"
| "step_handler step (Participant s) =
     (case step_transport step (sp_transport s) of (t, events) \<Rightarrow> (Participant (s\<lparr>sp_transport := t\<rparr>), events))"

definition wait_for_session ::
  "('h, 't) env \<Rightarrow> (bytes \<Rightarrow> nat) \<Rightarrow> ('h, 't) loop_step list \<Rightarrow> (client_error, client_event) outcome list \<Rightarrow>
   ('h, 't) session_handler \<Rightarrow>
   (('h, 't) loop_step list \<times> (client_error, client_event) outcome list \<times> ('h, 't) transport \<times> (gg20_error driver_error, session_state) outcome) option" where
  "wait_for_session E random steps events s =
     map_option (\<lambda>(steps, events, s, x). (steps, events, handler_transport s, x))
       (wait_loop Driver_Client (session_handle_event E random) step_handler steps events s)"

subsection \<open>Connecting to peers\<close>

text \<open>The noise library builds the first message of a handshake with a peer.\<close>

definition can_initiate :: "('h, 't) env \<Rightarrow> (bytes \<Rightarrow> nat) \<Rightarrow> client_options \<Rightarrow> bytes \<Rightarrow> bool" where
  "can_initiate E random opts key \<longleftrightarrow> (\<exists>params i i' m.
     ClientOptions_params E opts = Ok params \<and>
     build_initiator (snow E) (random key) params (kp_private (opt_keypair opts)) key = Ok i \<and>
     handshake_write (snow E) i [] 1024 = (i', Ok m))"

definition peer_hello :: "bytes \<Rightarrow> nat \<times> bytes \<Rightarrow> internal_message" where
  "peer_hello key m = Internal_Request (Request_Transparent (PeerHandshake key (Handshake_Initiator (fst m) (snd m))))"

lemma connect_peer_fresh:
  assumes "can_initiate E random (options c) key" and "peers c key = None" and "outbound_open c"
  shows "\<exists>i m. connect_peer E (random key) key c =
    (c\<lparr>peers := (peers c)(key \<mapsto> Handshake i), outbound := outbound c @ [peer_hello key m]\<rparr>, Ok ())"
proof -
  obtain params i i' m where "ClientOptions_params E (options c) = Ok params"
    "build_initiator (snow E) (random key) params (kp_private (opt_keypair (options c))) key = Ok i"
    "handshake_write (snow E) i [] 1024 = (i', Ok m)"
    using assms(1) by (auto simp: can_initiate_def)
  then show ?thesis
    using assms(2,3) by (intro exI [of _ i'] exI [of _ "(length m, write_into (replicate 1024 0) m)"])
      (simp add: connect_peer_def outbound_send_def peer_hello_def)
qed

lemma connect_all_fresh:
  assumes "distinct keys" and "outbound_open c"
    and "\<forall>key\<in>set keys. can_initiate E random (options c) key \<and> peers c key = None"
  shows "\<exists>c' ms. connect_all E random keys (Relay c) = (Relay c', Ok ()) \<and> length ms = length keys \<and>
    outbound c' = outbound c @ map2 peer_hello keys ms \<and> options c' = options c \<and>
    (\<forall>key. if key \<in> set keys then \<exists>i. peers c' key = Some (Handshake i) else peers c' key = peers c key)"
  using assms
proof (induction keys arbitrary: c)
  case (Cons key keys)
  obtain i m where s: "connect_peer E (random key) key c =
      (c\<lparr>peers := (peers c)(key \<mapsto> Handshake i), outbound := outbound c @ [peer_hello key m]\<rparr>, Ok ())"
    using connect_peer_fresh [of E random c key] Cons.prems by auto
  let ?c = "c\<lparr>peers := (peers c)(key \<mapsto> Handshake i), outbound := outbound c @ [peer_hello key m]\<rparr>"
  obtain c' ms where c': "connect_all E random keys (Relay ?c) = (Relay c', Ok ())" "length ms = length keys"
    "outbound c' = outbound ?c @ map2 peer_hello keys ms" "options c' = options ?c"
    "\<forall>k. if k \<in> set keys then \<exists>i. peers c' k = Some (Handshake i) else peers c' k = peers ?c k"
    using Cons.IH [of ?c] Cons.prems by fastforce
  have "\<exists>i. peers c' key = Some (Handshake i)" using c'(5) Cons.prems(1) by auto
  with s c' show ?case
    by (intro exI [of _ c'] exI [of _ "m # ms"]) (auto simp: transport_connect_peer_def split: if_splits)
qed simp

text \<open>The handler of a party that has nothing to ask of the server.\<close>

primrec idle :: "('h, 't) session_handler \<Rightarrow> bool" where
  "idle (Initiator s) = requested_session s"
| "idle (Participant s) = True"

lemma session_ready_step:
  assumes "idle h" and "connect_all E random (connections session (transport_public_key (handler_transport h)))
      (handler_transport h) = (t', Ok ())"
  shows "\<exists>h'. session_handle_event E random (Ev_SessionReady session) h = (h', Ok None) \<and> handler_transport h' = t'"
  using assms by (cases h) (simp_all add: initiator_handle_event_def initiator_new_session_def participant_handle_event_def)

lemma connections_asymmetric:
  assumes "distinct (all_participants s)" and "a \<in> set (all_participants s)" and "b \<in> set (all_participants s)"
    and "a \<noteq> b"
  shows "a \<in> set (connections s b) \<longleftrightarrow> b \<notin> set (connections s a)"
proof -
  let ?ks = "all_participants s"
  obtain i j where ij: "i < length ?ks" "a = ?ks ! i" "j < length ?ks" "b = ?ks ! j"
    using assms(2,3) by (auto simp: in_set_conv_nth)
  have after: "?ks ! i \<in> set (connections s (?ks ! j)) \<longleftrightarrow> j < i" if "i < length ?ks" "j < length ?ks" for i j
  proof -
    have "connections s (?ks ! j) = drop (j + 1) ?ks"
      using position_distinct [OF assms(1) that(2)] by (simp add: connections_drop)
    then have "?ks ! i \<in> set (connections s (?ks ! j)) \<longleftrightarrow> (\<exists>k<length ?ks - (j + 1). ?ks ! (j + 1 + k) = ?ks ! i)"
      by (auto simp: in_set_conv_nth)
    also have "\<dots> \<longleftrightarrow> (\<exists>k<length ?ks - (j + 1). j + 1 + k = i)"
      using assms(1) that by (auto simp: nth_eq_iff_index_eq)
    also have "\<dots> \<longleftrightarrow> j < i"
      using that(1) by (auto intro: exI [of _ "i - (j + 1)"])
    finally show ?thesis .
  qed
  show ?thesis using after [of i j] after [of j i] ij assms(4) by auto
qed

lemma connections_distinct:
  assumes "distinct (all_participants s)"
  shows "distinct (connections s k)" and "k \<notin> set (connections s k)"
    and "set (connections s k) \<subseteq> set (all_participants s)"
proof -
  show "distinct (connections s k)" using assms by (auto simp: connections_drop split: option.splits)
  show "set (connections s k) \<subseteq> set (all_participants s)"
    using set_drop_subset by (fastforce simp: connections_drop split: option.splits)
  show "k \<notin> set (connections s k)"
  proof (cases "position (\<lambda>x. x = k) (all_participants s)")
    case (Some i)
    then have "i < length (all_participants s)" "all_participants s ! i = k"
      by (simp_all add: position_Some_iff)
    then show ?thesis
      using assms Some by (auto simp: connections_drop in_set_conv_nth nth_eq_iff_index_eq)
  qed (simp add: connections_drop)
qed

text \<open>
  C18: When a session is ready, a party starts a handshake with exactly the participants that follow
  it in the session, one request each and in this order, and touches no other channel. Of any two
  participants exactly one starts the handshake, so every pair is connected once and no two
  handshakes cross.
\<close>

theorem session_ready_connects:
  assumes "distinct (all_participants session)" and "idle h" and "handler_transport h = Relay c"
    and "outbound_open c"
    and "\<forall>key\<in>set (connections session (client_public_key c)). can_initiate E random (options c) key \<and> peers c key = None"
  shows "\<exists>h' c' ms. session_handle_event E random (Ev_SessionReady session) h = (h', Ok None) \<and>
    handler_transport h' = Relay c' \<and> length ms = length (connections session (client_public_key c)) \<and>
    outbound c' = outbound c @ map2 peer_hello (connections session (client_public_key c)) ms \<and>
    (\<forall>key. if key \<in> set (connections session (client_public_key c))
       then \<exists>i. peers c' key = Some (Handshake i) else peers c' key = peers c key) \<and>
    (\<forall>a\<in>set (all_participants session). \<forall>b\<in>set (all_participants session). a \<noteq> b \<longrightarrow>
       (a \<in> set (connections session b) \<longleftrightarrow> b \<notin> set (connections session a)))"
proof -
  let ?keys = "connections session (client_public_key c)"
  obtain c' ms where c': "connect_all E random ?keys (Relay c) = (Relay c', Ok ())" "length ms = length ?keys"
    "outbound c' = outbound c @ map2 peer_hello ?keys ms"
    "\<forall>key. if key \<in> set ?keys then \<exists>i. peers c' key = Some (Handshake i) else peers c' key = peers c key"
    using connect_all_fresh [OF connections_distinct(1) [OF assms(1)] assms(4,5)] by blast
  obtain h' where "session_handle_event E random (Ev_SessionReady session) h = (h', Ok None)" "handler_transport h' = Relay c'"
    using session_ready_step [OF assms(2), of E random session "Relay c'"] assms(3) c'(1) by auto
  with c' show ?thesis using connections_asymmetric [OF assms(1)] by blast
qed

theorem session_ready_connects_witness:
  "\<exists>h' c'. session_handle_event sample_env (\<lambda>_. 0) (Ev_SessionReady \<lparr>session_id = sample_uuid, all_participants = [[5], [6], [7]]\<rparr>)
      (Participant (SessionParticipant_new (Relay (sample_client [6])))) = (h', Ok None) \<and>
    handler_transport h' = Relay c' \<and> (\<exists>i. peers c' [7] = Some (Handshake i)) \<and> peers c' [5] = None"
proof -
  let ?s = "\<lparr>session_id = sample_uuid, all_participants = [[5], [6], [7]]\<rparr> :: session_state"
  let ?h = "Participant (SessionParticipant_new (Relay (sample_client [6]))) :: (bool \<times> nat, nat \<times> nat) session_handler"
  have k: "connections ?s (client_public_key (sample_client [6])) = [[7]]"
    by (simp add: connections_def client_public_key_def sample_client_def)
  have p: "peers (sample_client [6]) x = None" for x by (simp add: sample_client_def)
  have "can_initiate sample_env (\<lambda>_. 0) (options (sample_client [6])) [7]"
    unfolding can_initiate_def
    by (intro exI [of _ PATTERN] exI [of _ "(True, 0)"] exI [of _ "(True, 1)"] exI [of _ "[1]"])
       (simp add: ClientOptions_params_def sample_client_def sample_env_def counter_snow_def)
  with k p have "\<forall>key\<in>set (connections ?s (client_public_key (sample_client [6]))).
      can_initiate sample_env (\<lambda>_. 0) (options (sample_client [6])) key \<and> peers (sample_client [6]) key = None"
    by simp
  moreover have "distinct (all_participants ?s)" "idle ?h" "handler_transport ?h = Relay (sample_client [6])"
    "outbound_open (sample_client [6])"
    by (simp_all add: SessionParticipant_new_def sample_client_def)
  ultimately obtain h' c' where r: "session_handle_event sample_env (\<lambda>_. 0) (Ev_SessionReady ?s) ?h = (h', Ok None)"
    "handler_transport h' = Relay c'"
    "\<forall>key. if key \<in> set [[7]] then \<exists>i. peers c' key = Some (Handshake i) else peers c' key = peers (sample_client [6]) key"
    using session_ready_connects [of ?s ?h "sample_client [6]" sample_env "\<lambda>_. 0"] unfolding k by blast
  then show ?thesis
    using r(3) [rule_format, of "[7]"] r(3) [rule_format, of "[5]"] by (simp add: p)
qed

text \<open>
  A peer can complete a handshake with the initiator before the server has confirmed the session:
  the initiator then panics, where a participant ignores the event.
\<close>

lemma early_peer_panics:
  "si_state s = None \<Longrightarrow> requested_session s \<Longrightarrow> initiator_handle_event E random (PeerConnected peer) s = (s, Panic)"
  "sp_state p = None \<Longrightarrow> participant_handle_event E random (PeerConnected peer) p = (p, Ok None)"
  by (simp_all add: initiator_handle_event_def initiator_new_session_def participant_handle_event_def)

end
