(* ===== verification/GG20.thy ===== *)
theory GG20
  imports Session_Handlers "HOL-Library.Multiset"
begin

text \<open>
  The GG20 drivers (\<open>driver/src/gg20/keygen.rs\<close>, \<open>sign.rs\<close>, \<open>mod.rs\<close>) and the entry points of the
  driver library (\<open>driver/src/lib.rs\<close>, \<open>types.rs\<close>).

  The cryptographic protocol is the \<open>cggmp-threshold-ecdsa\<close> crate: the state machines for key
  generation and for the offline stage of signing (trait \<open>StateMachine\<close> of the \<open>round-based\<close> crate)
  and the online stage are parameters, and so are elliptic curve points, big integers and Keccak.
\<close>

subsection \<open>Parameters from libraries\<close>

record ('m, 'b, 'o) state_machine =
  sm_handle_incoming :: "'b msg \<Rightarrow> 'm \<Rightarrow> 'm \<times> (unit, unit) outcome"
  sm_proceed :: "'m \<Rightarrow> 'm \<times> (unit, unit) outcome"
  message_queue :: "'m \<Rightarrow> 'b msg list"
  clear_queue :: "'m \<Rightarrow> 'm"
  current_round :: "'m \<Rightarrow> u16"
  pick_output :: "'m \<Rightarrow> (unit, 'o) outcome option"

record ('m, 'b, 'key) keygen_ops =
  Keygen_new :: "u16 \<Rightarrow> u16 \<Rightarrow> u16 \<Rightarrow> (unit, 'm) outcome"
  keygen_machine :: "('m, 'b, 'key) state_machine"
  keygen_json :: "'b json_ops"

record 'key local_key_ops =
  key_index :: "'key \<Rightarrow> u16"
  key_public :: "'key \<Rightarrow> bytes"

record ('m, 'b, 'key, 'c) offline_ops =
  OfflineStage_new :: "u16 \<Rightarrow> u16 list \<Rightarrow> 'key \<Rightarrow> (unit, 'm) outcome"
  offline_machine :: "('m, 'b, 'c) state_machine"
  offline_json :: "'b json_ops"

record ('c, 's, 'p, 'g, 'point, 'n) online_ops =
  bigint_from_bytes :: "bytes \<Rightarrow> 'n"
  stage_public_key :: "'c \<Rightarrow> 'point"
  SignManual_new :: "'n \<Rightarrow> 'c \<Rightarrow> (unit, 's \<times> 'p) outcome"
  sign_complete :: "'s \<Rightarrow> 'p list \<Rightarrow> (unit, 'g) outcome"
  verify :: "'g \<Rightarrow> 'point \<Rightarrow> 'n \<Rightarrow> bool"
  point_bytes :: "'point \<Rightarrow> bytes"
  online_json :: "'p json_ops"

subsection \<open>Types of the driver library\<close>

record parameters =
  parties :: u16
  threshold :: u16

definition Parameters_default :: parameters where
  "Parameters_default = \<lparr>parties = 3, threshold = 1\<rparr>"

datatype protocol = Protocol_GG20 | Protocol_CGGMP

record server_options =
  server_url :: string
  so_server_key :: bytes
  so_pattern :: "string option"

record session_options =
  so_protocol :: protocol
  so_keypair :: keypair
  so_server :: server_options
  so_parameters :: parameters

datatype 'key private_key = PrivateKey_GG20 'key

record 'key key_share =
  private_key :: "'key private_key"
  ks_public_key :: bytes
  ks_address :: string

record 'g signature =
  sig_signature :: 'g
  sig_public_key :: bytes
  sig_address :: string

text \<open>
  The address of an uncompressed public key; \<open>keccak\<close> returns 32 bytes, and the slice from the
  second byte panics on an empty key.
\<close>

definition address :: "('h, 't) env \<Rightarrow> (bytes \<Rightarrow> bytes) \<Rightarrow> bytes \<Rightarrow> ('e, string) outcome" where
  "address E keccak key = (if key = [] then Panic else Ok (''0x'' @ hex_encode E (drop 12 (keccak (drop 1 key)))))"

definition to_key_share ::
  "('h, 't) env \<Rightarrow> (bytes \<Rightarrow> bytes) \<Rightarrow> 'key local_key_ops \<Rightarrow> 'key \<Rightarrow> ('e, 'key key_share) outcome" where
  "to_key_share E keccak L k =
     and_then (address E keccak (key_public L k)) (\<lambda>a.
       Ok \<lparr>private_key = PrivateKey_GG20 k, ks_public_key = key_public L k, ks_address = a\<rparr>)"

subsection \<open>Protocol drivers\<close>

text \<open>The driver of a state machine of the library, whose errors become \<open>err\<close>.\<close>

definition machine_handle_incoming ::
  "gg20_error \<Rightarrow> ('m, 'b, 'o) state_machine \<Rightarrow> 'b msg \<Rightarrow> 'm \<Rightarrow> 'm \<times> (gg20_error, unit) outcome" where
  "machine_handle_incoming err M m d = apsnd (map_err (\<lambda>_. err)) (sm_handle_incoming M m d)"

definition machine_proceed ::
  "gg20_error \<Rightarrow> ('m, 'b, 'o) state_machine \<Rightarrow> 'm \<Rightarrow> 'm \<times> (gg20_error, 'b round_msg list) outcome" where
  "machine_proceed err M d =
     st_then (apsnd (map_err (\<lambda>_. err)) (sm_proceed M d)) (\<lambda>d _.
       let messages = message_queue M d; d = clear_queue M d
       in (d, from_round (current_round M d) messages)) id"

definition machine_finish ::
  "gg20_error \<Rightarrow> ('m, 'b, 'o) state_machine \<Rightarrow> 'm \<Rightarrow> (gg20_error, 'o) outcome" where
  "machine_finish err M d = and_then (unwrap (pick_output M d)) (map_err (\<lambda>_. err))"

definition KeygenDriver :: "('m, 'b, 'key) keygen_ops \<Rightarrow> ('m, 'b, 'key) protocol_driver" where
  "KeygenDriver K = \<lparr>handle_incoming = machine_handle_incoming GG20_Keygen (keygen_machine K),
     proceed = machine_proceed GG20_Keygen (keygen_machine K), finish = machine_finish GG20_Keygen (keygen_machine K)\<rparr>"

definition SignOfflineDriver :: "('m, 'b, 'key, 'c) offline_ops \<Rightarrow> ('m, 'b, 'c) protocol_driver" where
  "SignOfflineDriver P = \<lparr>handle_incoming = machine_handle_incoming SignOffline (offline_machine P),
     proceed = machine_proceed SignOffline (offline_machine P), finish = machine_finish SignOffline (offline_machine P)\<rparr>"

record participant_driver =
  pd_party_number :: u16
  pd_participants :: "u16 list"
  pd_local_key_index :: u16

definition ParticipantProtocolDriver_new :: "u16 \<Rightarrow> u16 \<Rightarrow> participant_driver" where
  "ParticipantProtocolDriver_new party index =
     \<lparr>pd_party_number = party, pd_participants = [index], pd_local_key_index = index\<rparr>"

definition ParticipantProtocolDriver :: "(participant_driver, u16, u16 list) protocol_driver" where
  "ParticipantProtocolDriver = \<lparr>
     handle_incoming = (\<lambda>m d. (d\<lparr>pd_participants := pd_participants d @ [msg_body m]\<rparr>, Ok ())),
     proceed = (\<lambda>d. (d, from_round 1
       [\<lparr>msg_sender = pd_party_number d, msg_receiver = None, msg_body = pd_local_key_index d\<rparr>])),
     finish = (\<lambda>d. Ok (sort (pd_participants d)))\<rparr>"

record ('s, 'p, 'point, 'n) sign_online =
  on_party_number :: u16
  on_data :: 'n
  on_public_key :: 'point
  on_partial :: 'p
  on_sign :: 's
  on_partials :: "'p list"

definition SignOnlineDriver_new ::
  "('c, 's, 'p, 'g, 'point, 'n) online_ops \<Rightarrow> u16 \<Rightarrow> 'c \<Rightarrow> bytes \<Rightarrow> (gg20_error, ('s, 'p, 'point, 'n) sign_online) outcome" where
  "SignOnlineDriver_new S party stage message =
     and_then (map_err (\<lambda>_. SignManual) (SignManual_new S (bigint_from_bytes S message) stage)) (\<lambda>(sign, partial).
       Ok \<lparr>on_party_number = party, on_data = bigint_from_bytes S message, on_public_key = stage_public_key S stage,
           on_partial = partial, on_sign = sign, on_partials = []\<rparr>)"

definition online_finish ::
  "('h, 't) env \<Rightarrow> (bytes \<Rightarrow> bytes) \<Rightarrow> ('c, 's, 'p, 'g, 'point, 'n) online_ops \<Rightarrow> ('s, 'p, 'point, 'n) sign_online \<Rightarrow>
   (gg20_error, 'g signature) outcome" where
  "online_finish E keccak S d =
     and_then (map_err (\<lambda>_. SignManual) (sign_complete S (on_sign d) (on_partials d))) (\<lambda>g.
     if \<not> verify S g (on_public_key d) (on_data d) then Err VerifySignature
     else
       and_then (address E keccak (point_bytes S (on_public_key d))) (\<lambda>a.
         Ok \<lparr>sig_signature = g, sig_public_key = point_bytes S (on_public_key d), sig_address = a\<rparr>))"

definition SignOnlineDriver ::
  "('h, 't) env \<Rightarrow> (bytes \<Rightarrow> bytes) \<Rightarrow> ('c, 's, 'p, 'g, 'point, 'n) online_ops \<Rightarrow>
   (('s, 'p, 'point, 'n) sign_online, 'p, 'g signature) protocol_driver" where
  "SignOnlineDriver E keccak S = \<lparr>
     handle_incoming = (\<lambda>m d. (d\<lparr>on_partials := on_partials d @ [msg_body m]\<rparr>, Ok ())),
     proceed = (\<lambda>d. (d, from_round 1
       [\<lparr>msg_sender = on_party_number d, msg_receiver = None, msg_body = on_partial d\<rparr>])),
     finish = online_finish E keccak S\<rparr>"

subsection \<open>Drivers on a bridge\<close>

text \<open>The party number of the own key, or the error for a stranger.\<close>

definition own_party_number :: "('h, 't) env \<Rightarrow> session_state \<Rightarrow> ('h, 't) transport \<Rightarrow> (gg20_error, u16) outcome" where
  "own_party_number E session t =
     and_then (party_number session (transport_public_key t)) (\<lambda>p.
       ok_or (NotSessionParticipant (hex_encode E (transport_public_key t))) p)"

definition KeygenDriver_new :: "('m, 'b, 'key) keygen_ops \<Rightarrow> parameters \<Rightarrow> u16 \<Rightarrow> (gg20_error, 'm) outcome" where
  "KeygenDriver_new K params party =
     map_err (\<lambda>_. GG20_Keygen) (Keygen_new K party (threshold params) (parties params))"

definition KeyGenDriver_new ::
  "('h, 't) env \<Rightarrow> ('m, 'b, 'key) keygen_ops \<Rightarrow> ('h, 't) transport \<Rightarrow> parameters \<Rightarrow> session_state \<Rightarrow>
   (gg20_error, ('h, 't, 'm, 'b) bridge) outcome" where
  "KeyGenDriver_new E K t params session =
     and_then (checked_sub (overflow_checks E) (parties params) 1) (\<lambda>expected_messages.
     and_then (own_party_number E session t) (\<lambda>party.
     and_then (KeygenDriver_new K params party) (\<lambda>d.
       Ok \<lparr>transport = t, buffer = new_fixed 4 expected_messages, driver = Some d, bridge_session = session\<rparr>)))"

definition ParticipantDriver_new ::
  "('h, 't) env \<Rightarrow> ('h, 't) transport \<Rightarrow> parameters \<Rightarrow> session_state \<Rightarrow> u16 \<Rightarrow>
   (gg20_error, ('h, 't, participant_driver, u16) bridge) outcome" where
  "ParticipantDriver_new E t params session index =
     and_then (own_party_number E session t) (\<lambda>party.
       Ok \<lparr>transport = t, buffer = new_fixed 1 (threshold params),
           driver = Some (ParticipantProtocolDriver_new party index), bridge_session = session\<rparr>)"

definition SignOfflineDriver_new ::
  "('m, 'b, 'key, 'c) offline_ops \<Rightarrow> u16 \<Rightarrow> u16 list \<Rightarrow> 'key \<Rightarrow> (gg20_error, 'm) outcome" where
  "SignOfflineDriver_new P index indices key = map_err (\<lambda>_. SignOffline) (OfflineStage_new P index indices key)"

definition PreSignDriver_new ::
  "'key local_key_ops \<Rightarrow> ('m, 'b, 'key, 'c) offline_ops \<Rightarrow> ('h, 't) transport \<Rightarrow> parameters \<Rightarrow> session_state \<Rightarrow>
   'key \<Rightarrow> u16 list \<Rightarrow> (gg20_error, ('h, 't, 'm, 'b) bridge) outcome" where
  "PreSignDriver_new L P t params session key indices =
     and_then (ok_or LocalKeyNotParticipant (position (\<lambda>i. i = key_index L key) indices)) (\<lambda>pos.
     and_then (SignOfflineDriver_new P (of_nat (pos + 1)) indices key) (\<lambda>d.
       Ok \<lparr>transport = t, buffer = new_fixed 6 (threshold params), driver = Some d, bridge_session = session\<rparr>))"

definition SignatureDriver_new ::
  "('h, 't) env \<Rightarrow> ('c, 's, 'p, 'g, 'point, 'n) online_ops \<Rightarrow> ('h, 't) transport \<Rightarrow> parameters \<Rightarrow> session_state \<Rightarrow>
   'c \<Rightarrow> bytes \<Rightarrow> (gg20_error, ('h, 't, ('s, 'p, 'point, 'n) sign_online, 'p) bridge) outcome" where
  "SignatureDriver_new E S t params session stage message =
     and_then (own_party_number E session t) (\<lambda>party.
     and_then (SignOnlineDriver_new S party stage message) (\<lambda>d.
       Ok \<lparr>transport = t, buffer = new_fixed 1 (threshold params), driver = Some d, bridge_session = session\<rparr>))"

subsection \<open>Running the protocols\<close>

text \<open>
  \<open>new_client\<close>: \<open>dial\<close> is the outcome of connecting to a URL and \<open>random\<close> the randomness of the
  handshake with the server.
\<close>

definition new_client ::
  "('h, 't) env \<Rightarrow> nat \<Rightarrow> (string \<Rightarrow> (client_error, status_code \<times> string) outcome) \<Rightarrow> session_options \<Rightarrow>
   (gg20_error driver_error, ('h, 't) client) outcome" where
  "new_client E random dial opts =
     (let c = \<lparr>opt_keypair = so_keypair opts, opt_server_key = so_server_key (so_server opts),
               opt_pattern = so_pattern (so_server opts)\<rparr>
      in map_err Driver_Client (client_new E random (dial (url E c (server_url (so_server opts)))) c))"

type_synonym ('h, 't, 'e, 'a) waited =
  "(('h, 't) loop_step list \<times> (client_error, client_event) outcome list \<times> ('h, 't) transport \<times> ('e, 'a) outcome) option"

text \<open>
  Sequencing of calls that wait on the event stream: the next call goes on with what remains of
  the stream and with the transport; a failure ends the run, and \<open>None\<close> is a run that still waits.
\<close>

fun wait_then ::
  "('e \<Rightarrow> 'f) \<Rightarrow> ('h, 't, 'e, 'a) waited \<Rightarrow>
   (('h, 't) loop_step list \<Rightarrow> (client_error, client_event) outcome list \<Rightarrow> ('h, 't) transport \<Rightarrow> 'a \<Rightarrow>
     ('f, 'b) outcome option) \<Rightarrow> ('f, 'b) outcome option" where
  "wait_then conv None f = None"
| "wait_then conv (Some (steps, events, t, Ok x)) f = f steps events t x"
| "wait_then conv (Some (steps, events, t, Err e)) f = Some (Err (conv e))"
| "wait_then conv (Some (steps, events, t, Panic)) f = Some Panic"

primrec run_then :: "('e, 'a) outcome \<Rightarrow> ('a \<Rightarrow> ('e, 'b) outcome option) \<Rightarrow> ('e, 'b) outcome option" where
  "run_then (Ok x) f = f x"
| "run_then (Err e) f = Some (Err e)"
| "run_then Panic f = Some Panic"

text \<open>The end of both protocols: the initiator closes the session, then the socket is closed.\<close>

definition close_run ::
  "('h, 't) env \<Rightarrow> bool \<Rightarrow> session_id \<Rightarrow> (gg20_error driver_error, 'a) outcome \<Rightarrow> ('h, 't) loop_step list \<Rightarrow>
   (client_error, client_event) outcome list \<Rightarrow> ('h, 't) transport \<Rightarrow> (gg20_error driver_error, 'a) outcome option" where
  "close_run E is_initiator sid result steps events t =
     (let close = (\<lambda>steps events t.
            let (t, x) = transport_close t in
            run_then (map_err Driver_Client x) (\<lambda>_. wait_then id (wait_for_close steps events t) (\<lambda>_ _ _ _. Some result)))
      in if is_initiator
         then
           let (t, x) = transport_close_session E sid t in
           run_then (map_err Driver_Client x) (\<lambda>_.
             wait_then id (wait_for_session_finish sid steps events t) (\<lambda>steps events t _. close steps events t))
         else close steps events t)"

text \<open>The start of both protocols: connect, and wait until the session is active.\<close>

definition open_session ::
  "('h, 't) env \<Rightarrow> nat \<Rightarrow> (bytes \<Rightarrow> nat) \<Rightarrow> (string \<Rightarrow> (client_error, status_code \<times> string) outcome) \<Rightarrow>
   session_options \<Rightarrow> bytes list option \<Rightarrow> ('h, 't) loop_step list \<Rightarrow>
   (('h, 't) loop_step list \<Rightarrow> (client_error, client_event) outcome list \<Rightarrow> ('h, 't) transport \<Rightarrow> session_state \<Rightarrow>
     (gg20_error driver_error, 'a) outcome option) \<Rightarrow> (gg20_error driver_error, 'a) outcome option" where
  "open_session E random peer_random dial opts invited steps continue =
     run_then (new_client E random dial opts) (\<lambda>client.
       let (t, x) = transport_connect E (Relay client) in
       run_then (map_err Driver_Client x) (\<lambda>_.
         let handler = (case invited of
                Some keys \<Rightarrow> Initiator (SessionInitiator_new t keys)
              | None \<Rightarrow> Participant (SessionParticipant_new t))
         in wait_then id (wait_for_session E peer_random steps [] handler) continue))"

definition gg20_keygen ::
  "('h, 't) env \<Rightarrow> (bytes \<Rightarrow> bytes) \<Rightarrow> 'key local_key_ops \<Rightarrow> ('m, 'b, 'key) keygen_ops \<Rightarrow> nat \<Rightarrow> (bytes \<Rightarrow> nat) \<Rightarrow>
   (string \<Rightarrow> (client_error, status_code \<times> string) outcome) \<Rightarrow> session_options \<Rightarrow> bytes list option \<Rightarrow>
   ('h, 't) loop_step list \<Rightarrow> (gg20_error driver_error, 'key key_share) outcome option" where
  "gg20_keygen E keccak L K random peer_random dial opts invited steps =
     open_session E random peer_random dial opts invited steps (\<lambda>steps events t session.
       run_then (map_err Driver_GG20 (KeyGenDriver_new E K t (so_parameters opts) session)) (\<lambda>b.
         wait_then Driver_GG20 (wait_for_driver E (keygen_json K) (KeygenDriver K) steps events b)
           (\<lambda>steps events t key.
             close_run E (invited \<noteq> None) (session_id session) (to_key_share E keccak L key) steps events t)))"

definition gg20_sign ::
  "('h, 't) env \<Rightarrow> (bytes \<Rightarrow> bytes) \<Rightarrow> 'key local_key_ops \<Rightarrow> u16 json_ops \<Rightarrow> ('m, 'b, 'key, 'c) offline_ops \<Rightarrow>
   ('c, 's, 'p, 'g, 'point, 'n) online_ops \<Rightarrow> nat \<Rightarrow> (bytes \<Rightarrow> nat) \<Rightarrow>
   (string \<Rightarrow> (client_error, status_code \<times> string) outcome) \<Rightarrow> session_options \<Rightarrow> bytes list option \<Rightarrow>
   'key \<Rightarrow> bytes \<Rightarrow> ('h, 't) loop_step list \<Rightarrow> (gg20_error driver_error, 'g signature) outcome option" where
  "gg20_sign E keccak L J P S random peer_random dial opts invited key message steps =
     open_session E random peer_random dial opts invited steps (\<lambda>steps events t session.
     run_then (non_zero (key_index L key)) (\<lambda>index.
     run_then (map_err Driver_GG20 (ParticipantDriver_new E t (so_parameters opts) session index)) (\<lambda>b.
     wait_then Driver_GG20 (wait_for_driver E J ParticipantProtocolDriver steps events b) (\<lambda>steps events t indices.
     run_then (map_err Driver_GG20 (PreSignDriver_new L P t (so_parameters opts) session key indices)) (\<lambda>b.
     wait_then Driver_GG20 (wait_for_driver E (offline_json P) (SignOfflineDriver P) steps events b) (\<lambda>steps events t stage.
     run_then (map_err Driver_GG20 (SignatureDriver_new E S t (so_parameters opts) session stage message)) (\<lambda>b.
     wait_then Driver_GG20 (wait_for_driver E (online_json S) (SignOnlineDriver E keccak S) steps events b)
       (\<lambda>steps events t sig.
         close_run E (invited \<noteq> None) (session_id session) (Ok sig) steps events t))))))))"

text \<open>The entry points: the CGGMP protocol is \<open>todo!\<close>.\<close>

definition keygen ::
  "('h, 't) env \<Rightarrow> (bytes \<Rightarrow> bytes) \<Rightarrow> 'key local_key_ops \<Rightarrow> ('m, 'b, 'key) keygen_ops \<Rightarrow> nat \<Rightarrow> (bytes \<Rightarrow> nat) \<Rightarrow>
   (string \<Rightarrow> (client_error, status_code \<times> string) outcome) \<Rightarrow> session_options \<Rightarrow> bytes list option \<Rightarrow>
   ('h, 't) loop_step list \<Rightarrow> (gg20_error driver_error, 'key key_share) outcome option" where
  "keygen E keccak L K random peer_random dial opts invited steps =
     (case so_protocol opts of
        Protocol_GG20 \<Rightarrow> gg20_keygen E keccak L K random peer_random dial opts invited steps
      | Protocol_CGGMP \<Rightarrow> Some Panic)"

datatype 'g any_signature = Signature_GG20 "'g signature"

definition sign ::
  "('h, 't) env \<Rightarrow> (bytes \<Rightarrow> bytes) \<Rightarrow> 'key local_key_ops \<Rightarrow> u16 json_ops \<Rightarrow> ('m, 'b, 'key, 'c) offline_ops \<Rightarrow>
   ('c, 's, 'p, 'g, 'point, 'n) online_ops \<Rightarrow> nat \<Rightarrow> (bytes \<Rightarrow> nat) \<Rightarrow>
   (string \<Rightarrow> (client_error, status_code \<times> string) outcome) \<Rightarrow> session_options \<Rightarrow> bytes list option \<Rightarrow>
   'key private_key \<Rightarrow> bytes \<Rightarrow> ('h, 't) loop_step list \<Rightarrow> (gg20_error driver_error, 'g any_signature) outcome option" where
  "sign E keccak L J P S random peer_random dial opts invited key message steps =
     (case so_protocol opts of
        Protocol_GG20 \<Rightarrow>
          (case key of PrivateKey_GG20 k \<Rightarrow>
             map_option (\<lambda>r. and_then r (\<lambda>g. Ok (Signature_GG20 g)))
               (gg20_sign E keccak L J P S random peer_random dial opts invited k message steps))
      | Protocol_CGGMP \<Rightarrow> Some Panic)"

subsection \<open>Agreement on the signing parties\<close>

lemma feed_one_round:
  assumes "map_of (expected b) r = Some n" and "length acc + length ms = unat n" and "ms \<noteq> []"
    and "buffered b r = (if acc = [] then None else Some acc)"
  shows "snd (feed_all (map (Pair r) ms) b) = [(r, acc @ ms)]"
  using assms
proof (induction ms arbitrary: acc b)
  case (Cons m ms)
  let ?b = "add_message r m b"
  have b: "map_of (expected ?b) r = Some n" "buffered ?b r = Some (acc @ [m])"
    using Cons.prems(1,4) by (auto simp: add_message_def)
  show ?case
  proof (cases ms)
    case Nil
    then have "is_ready r ?b" using b Cons.prems(2) by (simp add: is_ready_def)
    then show ?thesis using b Nil by (simp add: feed_def Let_def take_round_def)
  next
    case (Cons m' ms')
    then have "\<not> is_ready r ?b" using b Cons.prems(2) by (simp add: is_ready_def)
    then have "feed r m b = (?b, None)" by (simp add: feed_def Let_def)
    then show ?thesis
      using Cons.IH [OF b(1), of "acc @ [m]"] b(2) Cons.prems(2) Cons by (simp split: prod.splits)
  qed
qed simp

lemma handle_all_participants:
  assumes "driver b = Some d"
  shows "handle_all ParticipantProtocolDriver ms b =
    (b\<lparr>driver := Some (d\<lparr>pd_participants := pd_participants d @ map msg_body ms\<rparr>)\<rparr>, Ok ())"
  using assms
proof (induction ms arbitrary: b d)
  case (Cons m ms)
  let ?d = "d\<lparr>pd_participants := pd_participants d @ [msg_body m]\<rparr>"
  have "with_driver (handle_incoming ParticipantProtocolDriver m) b = (b\<lparr>driver := Some ?d\<rparr>, Ok ())"
    using Cons.prems by (simp add: with_driver_def ParticipantProtocolDriver_def)
  then show ?case using Cons.IH [of "b\<lparr>driver := Some ?d\<rparr>" ?d] by simp
qed simp

lemma participants_finish: "finish ParticipantProtocolDriver d = Ok (sort (pd_participants d))"
  by (simp add: ParticipantProtocolDriver_def)

lemma participants_execute:
  assumes "execute E J ParticipantProtocolDriver b = (b', Ok ())"
  shows "driver b' = driver b" and "buffer b' = buffer b" and "bridge_session b' = bridge_session b"
proof -
  obtain b1 ms where b1: "with_driver (proceed ParticipantProtocolDriver) b = (b1, Ok ms)"
    "dispatch_round_messages E J ms b1 = (b', Ok ())"
    using assms by (auto simp: execute_def st_then_Ok)
  have "driver b1 = driver b"
    using b1(1) by (auto simp: with_driver_def ParticipantProtocolDriver_def split: option.splits)
  then show "driver b' = driver b" using driver_dispatch [of E J ms b1] b1(2) by simp
  have "framed b b'"
    using framed_ops(2) [of b b "proceed ParticipantProtocolDriver"] framed_dispatch [of b b1 E J ms] b1
    by (simp add: framed_def)
  then show "buffer b' = buffer b" "bridge_session b' = bridge_session b" by (simp_all add: framed_def)
qed

lemma ParticipantDriver_new_Ok:
  assumes "ParticipantDriver_new E t params session index = Ok b"
  shows "\<exists>d. driver b = Some d \<and> pd_participants d = [index]" and "buffer b = new_fixed 1 (threshold params)"
    and "bridge_session b = session"
  using assms by (auto simp: ParticipantDriver_new_def ParticipantProtocolDriver_new_def outcome_simps)

lemma loop_result_Some: "loop_result r = Some (t, d, x) \<Longrightarrow> \<exists>steps events b. r = Some (steps, events, b, x)"
  by (auto simp: loop_result_def)

lemma exchanged_indices:
  assumes "ParticipantDriver_new E t params session index = Ok b"
    and "execute E J ParticipantProtocolDriver b = (b', Ok ())"
    and "list_all2 (\<lambda>(peer, contents) m. from_json J contents = Ok m) received ms"
    and "\<forall>m\<in>set ms. rm_round m = 1" and "length ms = unat (threshold params)" and "ms \<noteq> []"
  shows "\<exists>steps events t'. wait_for_driver E J ParticipantProtocolDriver [] (json_events (session_id session) received) b =
    Some (steps, events, t', Ok (sort (index # map rm_body ms)))"
proof -
  note n = ParticipantDriver_new_Ok [OF assms(1)] and e = participants_execute [OF assms(2)]
  obtain d where d: "driver b' = Some d" "pd_participants d = [index]" using n(1) e(1) by auto
  have buf: "buffer b' = new_fixed 1 (threshold params)" using n(2) e(2) by simp
  have "rounds_of ms = map (Pair 1) (map msg_of_round ms)" using assms(4) by (simp add: rounds_of_def)
  then have f: "snd (feed_all (rounds_of ms) (buffer b')) = [(1, map msg_of_round ms)]"
    using feed_one_round [of "buffer b'" 1 "threshold params" "[]" "map msg_of_round ms"] assms(5,6)
    by (simp add: buf expected_new_fixed) (simp add: new_fixed_def)
  have "buffer_len (buffer b') = 1" by (simp add: buf buffer_len_new_fixed)
  then have "settled (process_rounds E J ParticipantProtocolDriver [(1, map msg_of_round ms)] b') =
      Some (transport b', None, Ok (sort (index # map rm_body ms)))"
    by (simp add: process_round_def handle_all_participants [OF d(1)] take_and_finish_def d(2)
        participants_finish msg_of_round_def comp_def)
  then have "loop_result (wait_loop GG20_Client (handle_event E J ParticipantProtocolDriver) step_bridge []
      (json_events (session_id session) received) b') = Some (transport b', None, Ok (sort (index # map rm_body ms)))"
    using wait_loop_rounds [OF assms(3), of "session_id session" b' E ParticipantProtocolDriver] n(3) e(3) f by simp
  then obtain steps events b'' where "wait_loop GG20_Client (handle_event E J ParticipantProtocolDriver) step_bridge []
      (json_events (session_id session) received) b' = Some (steps, events, b'', Ok (sort (index # map rm_body ms)))"
    using loop_result_Some by blast
  then show ?thesis by (simp add: wait_for_driver_def assms(2))
qed

text \<open>
  C15: Before signing, the parties exchange the indices of their key shares. Two parties that
  received messages which, with their own index, make up the same collection of indices (in any
  order of arrival) obtain the same list of signing parties, in increasing order: they start the
  offline stage with the same participants. The exchange ends as soon as the threshold number of
  messages has arrived.
\<close>

theorem signing_parties_agree:
  assumes "ParticipantDriver_new E t params session index = Ok b"
    and "execute E J ParticipantProtocolDriver b = (b', Ok ())"
    and "list_all2 (\<lambda>(peer, contents) m. from_json J contents = Ok m) received ms"
    and "\<forall>m\<in>set ms. rm_round m = 1" and "length ms = unat (threshold params)" and "ms \<noteq> []"
    and "ParticipantDriver_new E t2 params session index2 = Ok b2"
    and "execute E J ParticipantProtocolDriver b2 = (b2', Ok ())"
    and "list_all2 (\<lambda>(peer, contents) m. from_json J contents = Ok m) received2 ms2"
    and "\<forall>m\<in>set ms2. rm_round m = 1" and "length ms2 = unat (threshold params)"
    and "mset (index2 # map rm_body ms2) = mset (index # map rm_body ms)"
  shows "\<exists>indices steps events t' steps2 events2 t2'. sorted indices \<and> mset indices = mset (index # map rm_body ms) \<and>
    wait_for_driver E J ParticipantProtocolDriver [] (json_events (session_id session) received) b =
      Some (steps, events, t', Ok indices) \<and>
    wait_for_driver E J ParticipantProtocolDriver [] (json_events (session_id session) received2) b2 =
      Some (steps2, events2, t2', Ok indices)"
proof -
  have "ms2 \<noteq> []" using assms(5,6,11) by auto
  moreover have "sort (index2 # map rm_body ms2) = sort (index # map rm_body ms)"
    by (intro properties_for_sort) (simp_all only: mset_sort assms(12) sorted_sort)
  ultimately show ?thesis
    using exchanged_indices [OF assms(1-6)] exchanged_indices [OF assms(7-11)]
    by (intro exI [of _ "sort (index # map rm_body ms)"]) (auto simp: sorted_insort)
qed

text \<open>Two connected parties; a JSON encoding of key indices below 256 as three bytes.\<close>

fun bytes_to_index :: "bytes \<Rightarrow> (unit, u16 round_msg) outcome" where
  "bytes_to_index [r, s, v] = Ok \<lparr>rm_round = ucast r, rm_sender = ucast s, rm_receiver = None, rm_body = ucast v\<rparr>"
| "bytes_to_index _ = Err ()"

definition index_json :: "u16 json_ops" where
  "index_json = \<lparr>to_json = (\<lambda>m. Ok [ucast (rm_round m), ucast (rm_sender m), ucast (rm_body m)]), from_json = bytes_to_index\<rparr>"

definition connected_party :: "byte \<Rightarrow> byte \<Rightarrow> (bool \<times> nat, nat \<times> nat) transport" where
  "connected_party own other = Relay (sample_client [own]\<lparr>peers := [[other] \<mapsto> Transport (0, 0)]\<rparr>)"

definition pair_session :: session_state where
  "pair_session = \<lparr>session_id = sample_uuid, all_participants = [[5], [6]]\<rparr>"

lemma connected_party_runs:
  assumes "own = 5 \<and> other = 6 \<or> own = 6 \<and> other = 5"
  shows "\<exists>b b'. ParticipantDriver_new sample_env (connected_party own other) params pair_session index = Ok b \<and>
    execute sample_env index_json ParticipantProtocolDriver b = (b', Ok ())"
  using assms
  by (auto simp: ParticipantDriver_new_def own_party_number_def connected_party_def pair_session_def sample_client_def
      client_public_key_def party_number_def PartyNumber_new_def execute_def with_driver_def ParticipantProtocolDriver_def
      ParticipantProtocolDriver_new_def to_round_msg_def non_zero_def dispatch_round_messages_def is_broadcast_def
      recipients_def on_transport_def transport_broadcast_json_def broadcast_json_def index_json_def relay_def
      Chunk_split_def chunks_of.simps CHUNK_SIZE_def TAGLEN_def sample_env_def counter_snow_def outbound_send_def)

theorem signing_parties_agree_witness:
  "\<exists>b b2 indices steps events t' steps2 events2 t2'. sorted indices \<and> mset indices = {#3, 9#} \<and>
    wait_for_driver sample_env index_json ParticipantProtocolDriver [] (json_events sample_uuid [([6], [1, 2, 3])]) b =
      Some (steps, events, t', Ok indices) \<and>
    wait_for_driver sample_env index_json ParticipantProtocolDriver [] (json_events sample_uuid [([5], [1, 1, 9])]) b2 =
      Some (steps2, events2, t2', Ok indices)"
proof -
  let ?p = "\<lparr>parties = 2, threshold = 1\<rparr>"
  let ?m = "\<lparr>rm_round = 1, rm_sender = 2, rm_receiver = None, rm_body = 3\<rparr> :: u16 round_msg"
  let ?m2 = "\<lparr>rm_round = 1, rm_sender = 1, rm_receiver = None, rm_body = 9\<rparr> :: u16 round_msg"
  obtain b b' where b: "ParticipantDriver_new sample_env (connected_party 5 6) ?p pair_session 9 = Ok b"
    "execute sample_env index_json ParticipantProtocolDriver b = (b', Ok ())"
    using connected_party_runs [of 5 6 ?p 9] by auto
  obtain b2 b2' where b2: "ParticipantDriver_new sample_env (connected_party 6 5) ?p pair_session 3 = Ok b2"
    "execute sample_env index_json ParticipantProtocolDriver b2 = (b2', Ok ())"
    using connected_party_runs [of 6 5 ?p 3] by auto
  have j: "list_all2 (\<lambda>(peer :: bytes, contents) m. from_json index_json contents = Ok m) [([6], [1, 2, 3])] [?m]"
    "list_all2 (\<lambda>(peer :: bytes, contents) m. from_json index_json contents = Ok m) [([5], [1, 1, 9])] [?m2]"
    by (simp_all add: index_json_def)
  have sid: "session_id pair_session = sample_uuid" by (simp add: pair_session_def)
  from signing_parties_agree [OF b j(1) _ _ _ b2 j(2), unfolded sid]
  obtain indices steps events t' steps2 events2 t2' where "sorted indices" "mset indices = mset (9 # map rm_body [?m])"
    "wait_for_driver sample_env index_json ParticipantProtocolDriver [] (json_events sample_uuid [([6], [1, 2, 3])]) b =
      Some (steps, events, t', Ok indices)"
    "wait_for_driver sample_env index_json ParticipantProtocolDriver [] (json_events sample_uuid [([5], [1, 1, 9])]) b2 =
      Some (steps2, events2, t2', Ok indices)"
    by (auto simp del: wait_loop.simps)
  then show ?thesis by (intro exI [of _ b] exI [of _ b2]) (auto simp: add_mset_commute)
qed

subsection \<open>Party numbers of the offline stage\<close>

lemma PreSignDriver_index:
  assumes "distinct indices" and "key_index L key = indices ! k" and "k < length indices"
  shows "PreSignDriver_new L P t params session key indices =
    and_then (map_err (\<lambda>_. SignOffline) (OfflineStage_new P (of_nat (k + 1)) indices key)) (\<lambda>d.
      Ok \<lparr>transport = t, buffer = new_fixed 6 (threshold params), driver = Some d, bridge_session = session\<rparr>)"
  using position_distinct [OF assms(1,3)] assms(2) by (simp add: PreSignDriver_new_def SignOfflineDriver_new_def)

text \<open>
  C22: The offline stage numbers the parties by their place in the sorted list of key indices, but
  the bridge sends a message for party number n to the n-th participant of the session. The two
  numberings agree, so that every message of the offline stage for one party reaches the holder of
  that number, exactly when the participants of the session are listed in the order of their key
  indices. \<open>index_of\<close> gives the key index of each participant, and the list of signing parties is
  the one that \<open>signing_parties_agree\<close> describes.
\<close>

theorem offline_messages_routed:
  assumes "mset (pd_participants d) = mset (map index_of (all_participants session))"
    and "distinct (map index_of (all_participants session))" and "length (all_participants session) \<le> 65535"
    and "indices = sort (pd_participants d)"
  shows "finish ParticipantProtocolDriver d = Ok indices \<and>
    (\<forall>key params t. \<forall>n\<in>{1..length (all_participants session)}.
        key_index L key = indices ! (n - 1) \<longrightarrow>
        PreSignDriver_new L P t params session key indices =
          and_then (map_err (\<lambda>_. SignOffline) (OfflineStage_new P (of_nat n) indices key)) (\<lambda>d.
            Ok \<lparr>transport = t, buffer = new_fixed 6 (threshold params), driver = Some d, bridge_session = session\<rparr>)) \<and>
    ((\<forall>n\<in>{1..length (all_participants session)}.
        map_option index_of (peer_key session (of_nat n)) = Some (indices ! (n - 1))) \<longleftrightarrow>
      sorted (map index_of (all_participants session)))"
proof -
  let ?ps = "all_participants session" and ?L = "sort (pd_participants d)"
  have L: "mset ?L = mset (map index_of ?ps)" "sorted ?L" using assms(1) by simp_all
  have len: "length ?L = length ?ps" using L(1) by (metis length_map mset_eq_length)
  have dL: "distinct ?L" using L(1) assms(2) by (metis mset_eq_imp_distinct_iff)
  have key: "peer_key session (of_nat n) = Some (?ps ! (n - 1))" if "n \<in> {1..length ?ps}" for n
  proof -
    have "unat (of_nat n :: u16) = n" using that assms(3) by simp
    then show ?thesis using that by (subst peer_key_nth) (auto simp: word_less_nat_alt)
  qed
  have "(\<forall>n\<in>{1..length ?ps}. map_option index_of (peer_key session (of_nat n)) = Some (?L ! (n - 1))) \<longleftrightarrow>
      (\<forall>k<length ?ps. map index_of ?ps ! k = ?L ! k)"
  proof -
    have "(\<forall>n\<in>{1..length ?ps}. Q (n - 1)) \<longleftrightarrow> (\<forall>k<length ?ps. Q k)" for Q
      unfolding image_Suc_lessThan [symmetric] by auto
    from this [of "\<lambda>k. index_of (?ps ! k) = ?L ! k"] key show ?thesis by simp
  qed
  also have "\<dots> \<longleftrightarrow> map index_of ?ps = ?L" 
    using len by (simp only: list_eq_iff_nth_eq length_map simp_thms)
  also have "\<dots> \<longleftrightarrow> sorted (map index_of ?ps)"
    using L(2) properties_for_sort [of "map index_of ?ps" "pd_participants d"] assms(1) by auto
  finally have route: "(\<forall>n\<in>{1..length ?ps}. map_option index_of (peer_key session (of_nat n)) = Some (?L ! (n - 1))) \<longleftrightarrow>
      sorted (map index_of ?ps)" .
  have "PreSignDriver_new L P t params session key ?L =
      and_then (map_err (\<lambda>_. SignOffline) (OfflineStage_new P (of_nat n) ?L key)) (\<lambda>d.
        Ok \<lparr>transport = t, buffer = new_fixed 6 (threshold params), driver = Some d, bridge_session = session\<rparr>)"
    if "n \<in> {1..length ?ps}" "key_index L key = ?L ! (n - 1)" for key params t n
  proof -
    have "n - 1 < length ?L" "n - 1 + 1 = n" using that(1) len by auto
    then show ?thesis using PreSignDriver_index [OF dL that(2), of P t params session] by metis
  qed
  with route show ?thesis unfolding assms(4) participants_finish by blast
qed

text \<open>Key shares that are their index, and an offline stage that only knows its own number.\<close>

definition sample_keys :: "u16 local_key_ops" where
  "sample_keys = \<lparr>key_index = id, key_public = (\<lambda>_. [])\<rparr>"

definition sample_offline :: "(u16, unit, u16, u16) offline_ops" where
  "sample_offline = \<lparr>OfflineStage_new = (\<lambda>i indices key. Ok i), offline_machine = \<lparr>
     sm_handle_incoming = (\<lambda>m d. (d, Ok ())), sm_proceed = (\<lambda>d. (d, Ok ())), message_queue = (\<lambda>d. []),
     clear_queue = (\<lambda>d. d), current_round = (\<lambda>d. 1), pick_output = (\<lambda>d. Some (Ok d))\<rparr>,
     offline_json = \<lparr>to_json = (\<lambda>m. Ok []), from_json = (\<lambda>b. Err ())\<rparr>\<rparr>"

theorem offline_messages_routed_witness:
  "PreSignDriver_new sample_keys sample_offline (connected_party 5 6) Parameters_default pair_session 9 [3, 9] =
     Ok \<lparr>transport = connected_party 5 6, buffer = new_fixed 6 1, driver = Some 2, bridge_session = pair_session\<rparr> \<and>
   (\<exists>n\<in>{1..2}. map_option (\<lambda>k. if k = [5] then 9 else 3 :: u16) (peer_key pair_session (of_nat n)) \<noteq>
     Some (sort [9, 3] ! (n - 1)))"
proof -
  let ?i = "\<lambda>k. if k = [5 :: byte] then 9 else 3 :: u16"
  let ?d = "ParticipantProtocolDriver_new 1 9\<lparr>pd_participants := [9, 3]\<rparr>"
  have a: "map ?i (all_participants pair_session) = [9, 3]" "length (all_participants pair_session) = 2"
    by (simp_all add: pair_session_def)
  have "mset (pd_participants ?d) = mset (map ?i (all_participants pair_session))"
    "distinct (map ?i (all_participants pair_session))" "length (all_participants pair_session) \<le> 65535"
    unfolding a by simp_all
  moreover have s: "[3, 9] = sort (pd_participants ?d)" "sort [9, 3 :: u16] = [3, 9]" "\<not> sorted [9, 3 :: u16]"
    by simp_all
  ultimately have w: "(\<forall>key params t. \<forall>n\<in>{1..2}. key_index sample_keys key = [3, 9] ! (n - 1) \<longrightarrow>
        PreSignDriver_new sample_keys sample_offline t params pair_session key [3, 9] =
          and_then (map_err (\<lambda>_. SignOffline) (OfflineStage_new sample_offline (of_nat n) [3, 9] key)) (\<lambda>d.
            Ok \<lparr>transport = t, buffer = new_fixed 6 (threshold params), driver = Some d, bridge_session = pair_session\<rparr>))"
      "(\<forall>n\<in>{1..2}. map_option ?i (peer_key pair_session (of_nat n)) = Some ([3, 9] ! (n - 1))) \<longleftrightarrow> sorted [9, 3 :: u16]"
    using offline_messages_routed [of ?d ?i pair_session "[3, 9]" sample_keys sample_offline] unfolding a by blast+
  have "PreSignDriver_new sample_keys sample_offline (connected_party 5 6) Parameters_default pair_session 9 [3, 9] =
      and_then (map_err (\<lambda>_. SignOffline) (OfflineStage_new sample_offline (of_nat 2) [3, 9] 9)) (\<lambda>d.
        Ok \<lparr>transport = connected_party 5 6, buffer = new_fixed 6 (threshold Parameters_default), driver = Some d, bridge_session = pair_session\<rparr>)"
    by (rule w(1) [rule_format]) (simp_all add: sample_keys_def)
  moreover have "\<exists>n\<in>{1..2}. map_option ?i (peer_key pair_session (of_nat n)) \<noteq> Some ([3, 9] ! (n - 1))"
    using w(2) s(3) by blast
  moreover have "OfflineStage_new sample_offline (of_nat 2) [3, 9] 9 = Ok 2" "threshold Parameters_default = 1"
    by (simp_all add: sample_offline_def Parameters_default_def)
  ultimately show ?thesis unfolding s(2) by simp
qed

text \<open>
  A session with no other party: with overflow checks the constructor panics, without them it
  expects 65535 messages a round. With one party it expects none, and no round ever completes.
\<close>

lemma keygen_parties_bounds:
  "parties params = 0 \<Longrightarrow> overflow_checks E \<Longrightarrow> KeyGenDriver_new E K t params session = Panic"
  "parties params = 0 \<Longrightarrow> \<not> overflow_checks E \<Longrightarrow> KeyGenDriver_new E K t params session = Ok b \<Longrightarrow>
     buffer b = new_fixed 4 (- 1)"
  "snd (feed r m (new_fixed rounds 0)) = None"
  by (auto simp: KeyGenDriver_new_def checked_sub_def outcome_simps feed_def Let_def is_ready_def add_message_def
      expected_new_fixed split: if_splits option.splits)

end
