(* ===== verification/Protocol_Runs.thy ===== *)
theory Protocol_Runs
  imports GG20
begin

text \<open>
  Runs of a protocol over a live event stream. \<open>drive\<close> is the specification: the protocol driver
  alone, fed with complete rounds, without network, buffer or event loop. The bridge implements it
  for every behaviour of the event loop, whatever events and failures it yields between the
  messages of the protocol.
\<close>

subsection \<open>The protocol without a network\<close>

fun feed_driver :: "('d, 'b, 'o) protocol_driver \<Rightarrow> 'b msg list \<Rightarrow> 'd \<Rightarrow> 'd \<times> (gg20_error, unit) outcome" where
  "feed_driver D [] d = (d, Ok ())"
| "feed_driver D (m # ms) d = st_then (handle_incoming D m d) (\<lambda>d _. feed_driver D ms d) id"

fun drive :: "('d, 'b, 'o) protocol_driver \<Rightarrow> nat \<Rightarrow> (u16 \<times> 'b msg list) list \<Rightarrow> 'd \<Rightarrow> (gg20_error, 'o) outcome option" where
  "drive D R [] d = None"
| "drive D R ((r, ms) # rounds) d =
     (case feed_driver D ms d of
        (d, Ok _) \<Rightarrow>
          if R = 1 then Some (finish D d)
          else (case proceed D d of
             (d, Ok _) \<Rightarrow> if unat r = R then Some (finish D d) else drive D R rounds d
           | (d, Err e) \<Rightarrow> Some (Err e)
           | (d, Panic) \<Rightarrow> Some Panic)
      | (d, Err e) \<Rightarrow> Some (Err e)
      | (d, Panic) \<Rightarrow> Some Panic)"

subsection \<open>What a waiting loop has handled\<close>

fun consumed ::
  "(client_event \<Rightarrow> 's \<Rightarrow> 's \<times> ('e, 'o option) outcome) \<Rightarrow>
   (('h, 't) loop_step \<Rightarrow> 's \<Rightarrow> 's \<times> (client_error, client_event) outcome list) \<Rightarrow>
   ('h, 't) loop_step list \<Rightarrow> (client_error, client_event) outcome list \<Rightarrow> 's \<Rightarrow> client_event list" where
  "consumed handle advance [] [] s = []"
| "consumed handle advance (step # steps) [] s =
     (let (s, events) = advance step s in consumed handle advance steps events s)"
| "consumed handle advance steps (Err e # events) s = []"
| "consumed handle advance steps (Panic # events) s = []"
| "consumed handle advance steps (Ok event # events) s =
     event # (case handle event s of (s, Ok None) \<Rightarrow> consumed handle advance steps events s | _ \<Rightarrow> [])"

text \<open>The round messages of a session among the events.\<close>

fun session_messages :: "'b json_ops \<Rightarrow> session_id \<Rightarrow> client_event list \<Rightarrow> 'b round_msg list" where
  "session_messages J sid [] = []"
| "session_messages J sid (JsonMessage peer contents s # events) =
     (case from_json J contents of
        Ok m \<Rightarrow> if s = Some sid then m # session_messages J sid events else session_messages J sid events
      | _ \<Rightarrow> session_messages J sid events)"
| "session_messages J sid (_ # events) = session_messages J sid events"

lemma handle_all_feed:
  assumes "driver b = Some d"
  shows "handle_all D ms b = (case feed_driver D ms d of (d, x) \<Rightarrow> (b\<lparr>driver := Some d\<rparr>, x))"
  using assms
proof (induction ms arbitrary: b d)
  case (Cons m ms)
  obtain d1 x where "handle_incoming D m d = (d1, x)" by fastforce
  then show ?case using Cons.IH [of "b\<lparr>driver := Some d1\<rparr>" d1] Cons.prems
    by (cases x) (simp_all add: with_driver_def)
qed simp

text \<open>A complete round on the bridge is one step of the specification.\<close>

lemma process_round_drive:
  assumes "driver b = Some d" and "process_round E J D r ms b = (b', x)" and "R = buffer_len (buffer b)"
  shows "x = Ok None \<Longrightarrow> \<exists>d'. driver b' = Some d' \<and> drive D R ((r, ms) # rounds) d = drive D R rounds d'"
    and "x = Ok (Some y) \<Longrightarrow> drive D R ((r, ms) # rounds) d = Some (Ok y)"
proof -
  obtain d1 f where f: "feed_driver D ms d = (d1, f)" by fastforce
  obtain d2 p where p: "proceed D d1 = (d2, p)" by fastforce
  let ?b1 = "b\<lparr>driver := Some d1\<rparr>" and ?b2 = "b\<lparr>driver := Some d2\<rparr>"
  have h: "handle_all D ms b = (?b1, f)" by (simp add: handle_all_feed [OF assms(1)] f)
  have w: "with_driver (proceed D) ?b1 = (?b2, p)" using p by (simp add: with_driver_def)
  have k: "buffer b3 = buffer b" "driver b3 = Some d2" if "dispatch_round_messages E J out ?b2 = (b3, z)" for out b3 z
    using framed_dispatch [of ?b2 ?b2 E J out] driver_dispatch [of E J out ?b2] that by (simp_all add: framed_def)
  note P = assms(2) [unfolded process_round_def h]
  show "\<exists>d'. driver b' = Some d' \<and> drive D R ((r, ms) # rounds) d = drive D R rounds d'" if "x = Ok None"
    using P that w k f p assms(3)
    by (cases f; cases p) (auto simp: st_then_Ok take_and_finish_def outcome_simps split: if_splits)
  show "drive D R ((r, ms) # rounds) d = Some (Ok y)" if "x = Ok (Some y)"
    using P that w k f p assms(3)
    by (cases f; cases p) (auto simp: st_then_Ok take_and_finish_def outcome_simps split: if_splits)
qed

subsection \<open>The bridge implements the protocol\<close>

abbreviation completed :: "'b round_msg list \<Rightarrow> 'b msg round_buffer \<Rightarrow> (u16 \<times> 'b msg list) list" where
  "completed ms buf \<equiv> snd (feed_all (rounds_of ms) buf)"

definition implements ::
  "(('h, 't) loop_step list \<times> (client_error, client_event) outcome list \<times> ('h, 't, 'd, 'b) bridge \<times> (gg20_error, 'o) outcome) option \<Rightarrow>
   (gg20_error, 'o) outcome option \<Rightarrow> bool" where
  "implements r spec = (case r of
      None \<Rightarrow> spec = None
    | Some (_, _, _, Ok x) \<Rightarrow> spec = Some (Ok x)
    | _ \<Rightarrow> True)"

lemma json_event_cases:
  obtains (message) peer contents m where "event = JsonMessage peer contents (Some sid)" "from_json J contents = Ok m"
    "session_messages J sid (event # es) = m # session_messages J sid es"
  | (other) "session_messages J sid (event # es) = session_messages J sid es"
    "sid = session_id (bridge_session b) \<Longrightarrow> fst (handle_event E J D event b) = b \<and>
       snd (handle_event E J D event b) \<notin> range (\<lambda>x. Ok (Some x))"
proof -
  consider (json) peer contents s where "event = JsonMessage peer contents s"
    | (none) "\<forall>peer contents s. event \<noteq> JsonMessage peer contents s" by blast
  then show thesis
  proof cases
    case json
    show thesis
    proof (cases "s = Some sid \<and> (\<exists>m. from_json J contents = Ok m)")
      case True
      then show thesis using json message by auto
    next
      case False
      then have "session_messages J sid (event # es) = session_messages J sid es"
        using json by (auto split: outcome.splits)
      moreover have "sid = session_id (bridge_session b) \<Longrightarrow> fst (handle_event E J D event b) = b \<and>
          snd (handle_event E J D event b) \<notin> range (\<lambda>x. Ok (Some x))"
        using False json by (cases "from_json J contents") (auto simp: deserialize_def split: option.splits)
      ultimately show thesis by (rule other)
    qed
  next
    case none
    then show thesis by (intro other; cases event) auto
  qed
qed

abbreviation bridge_loop ::
  "('h, 't) env \<Rightarrow> 'b json_ops \<Rightarrow> ('d, 'b, 'o) protocol_driver \<Rightarrow> ('h, 't) loop_step list \<Rightarrow>
   (client_error, client_event) outcome list \<Rightarrow> ('h, 't, 'd, 'b) bridge \<Rightarrow>
   (('h, 't) loop_step list \<times> (client_error, client_event) outcome list \<times> ('h, 't, 'd, 'b) bridge \<times> (gg20_error, 'o) outcome) option" where
  "bridge_loop E J D steps events b \<equiv> wait_loop GG20_Client (handle_event E J D) step_bridge steps events b"

definition messages_seen ::
  "('h, 't) env \<Rightarrow> 'b json_ops \<Rightarrow> ('d, 'b, 'o) protocol_driver \<Rightarrow> ('h, 't) loop_step list \<Rightarrow>
   (client_error, client_event) outcome list \<Rightarrow> ('h, 't, 'd, 'b) bridge \<Rightarrow> 'b round_msg list" where
  "messages_seen E J D steps events b =
     session_messages J (session_id (bridge_session b)) (consumed (handle_event E J D) step_bridge steps events b)"

abbreviation protocol_result ::
  "('h, 't) env \<Rightarrow> 'b json_ops \<Rightarrow> ('d, 'b, 'o) protocol_driver \<Rightarrow> ('h, 't) loop_step list \<Rightarrow>
   (client_error, client_event) outcome list \<Rightarrow> ('h, 't, 'd, 'b) bridge \<Rightarrow> 'd \<Rightarrow> (gg20_error, 'o) outcome option" where
  "protocol_result E J D steps events b d \<equiv>
     drive D (buffer_len (buffer b)) (completed (messages_seen E J D steps events b) (buffer b)) d"

lemma event_implements:
  assumes IH: "\<And>b d. driver b = Some d \<Longrightarrow>
      implements (bridge_loop E J D steps events b) (protocol_result E J D steps events b d)"
    and d: "driver b = Some d"
  shows "implements (bridge_loop E J D steps (Ok event # events) b) (protocol_result E J D steps (Ok event # events) b d)"
proof -
  obtain b1 x where h: "handle_event E J D event b = (b1, x)" by fastforce
  let ?es = "if x = Ok None then consumed (handle_event E J D) step_bridge steps events b1 else []"
  let ?sid = "session_id (bridge_session b)" and ?R = "buffer_len (buffer b)"
  have seen: "messages_seen E J D steps (Ok event # events) b = session_messages J ?sid (event # ?es)"
    by (simp add: messages_seen_def h split: outcome.splits option.splits)
  have later: "session_messages J ?sid ?es = messages_seen E J D steps events b1"
    if "x = Ok None" "bridge_session b1 = bridge_session b" using that by (simp add: messages_seen_def)
  have stop: "session_messages J ?sid ?es = []" if "x \<noteq> Ok None" using that by simp
  show ?thesis
  proof (cases rule: json_event_cases [where event = event and sid = ?sid and J = J and es = ?es and b = b and E = E and D = D])
    case (message peer contents m)
    obtain buf y where f: "feed (rm_round m) (msg_of_round m) (buffer b) = (buf, y)" by fastforce
    have len: "buffer_len buf = ?R" using feed_expected [OF f] by (simp add: buffer_len_def)
    have c: "completed (m # ms) (buffer b) = (case y of Some z \<Rightarrow> [z] | None \<Rightarrow> []) @ completed ms buf" for ms
      using f by (simp add: rounds_of_def split: prod.splits option.splits)
    note H = handle_event_feed [OF message(2) refl, of E D peer b, unfolded f, folded message(1), unfolded h]
    show ?thesis
    proof (cases y)
      case None
      then have b1: "x = Ok None" "driver b1 = Some d" "buffer b1 = buf" "bridge_session b1 = bridge_session b"
        using H d by simp_all
      then show ?thesis using IH [of b1 d] h later message(3) seen c None len by simp
    next
      case (Some z)
      obtain r zs where z: "z = (r, zs)" by fastforce
      let ?b = "b\<lparr>buffer := buf\<rparr>"
      have P: "process_round E J D r zs ?b = (b1, x)" using H Some z by simp
      have b1: "buffer b1 = buf" "bridge_session b1 = bridge_session b"
        using framed_process_round [of ?b ?b E J D r zs] P by (simp_all add: framed_def)
      show ?thesis
      proof (cases x)
        case (Ok w)
        show ?thesis
        proof (cases w)
          case None
          then obtain d' where "driver b1 = Some d'"
            "drive D ?R ((r, zs) # completed (messages_seen E J D steps events b1) buf) d =
             drive D ?R (completed (messages_seen E J D steps events b1) buf) d'"
            using process_round_drive(1) [OF _ P, of d ?R "completed (messages_seen E J D steps events b1) buf"] d len Ok by auto
          then show ?thesis using IH [of b1 d'] h later message(3) seen c Some z b1 len Ok None by simp
        next
          case (Some v)
          have "drive D ?R ((r, zs) # completed [] buf) d = Some (Ok v)"
            using process_round_drive(2) [OF _ P, of d ?R v "completed [] buf"] d len Ok Some by auto
          then show ?thesis using h stop message(3) seen c \<open>y = Some z\<close> z Ok Some by (simp add: implements_def)
        qed
      qed (use h in \<open>simp_all add: implements_def\<close>)
    qed
  next
    case other
    have "b1 = b" "\<And>v. x \<noteq> Ok (Some v)" using other(2) h by auto
    then show ?thesis using IH [OF d] h later other(1) seen
      by (cases x) (auto simp: implements_def split: option.splits)
  qed
qed

lemma step_bridge_frame:
  "driver (fst (step_bridge step b)) = driver b" "buffer (fst (step_bridge step b)) = buffer b"
  "bridge_session (fst (step_bridge step b)) = bridge_session b"
  by (simp_all add: step_bridge_def split: prod.splits)

lemma bridge_loop_implements:
  "driver b = Some d \<Longrightarrow> implements (bridge_loop E J D steps events b) (protocol_result E J D steps events b d)"
proof (induction steps arbitrary: events b d)
  case Nil
  then show ?case
  proof (induction events arbitrary: b d)
    case (Cons x events)
    then show ?case using event_implements [of E J D "[]" events b d]
      by (cases x) (simp_all add: implements_def)
  qed (simp add: implements_def messages_seen_def rounds_of_def)
next
  case (Cons step steps)
  from Cons.prems show ?case
  proof (induction events arbitrary: b d)
    case Nil
    obtain b1 events where s: "step_bridge step b = (b1, events)" by fastforce
    then have "driver b1 = Some d" "buffer b1 = buffer b" "bridge_session b1 = bridge_session b"
      using step_bridge_frame [of step b] Nil by simp_all
    then show ?case using Cons.IH [of b1 d events] s by (simp add: messages_seen_def)
  next
    case (Cons x events)
    then show ?case using event_implements [of E J D "step # steps" events b d]
      by (cases x) (simp_all add: implements_def)
  qed
qed


lemma drive_Ok_last:
  "drive D R rounds d = Some (Ok x) \<Longrightarrow> rounds \<noteq> [] \<and> (R = 1 \<or> (\<exists>r\<in>set rounds. unat (fst r) = R))"
  by (induction D R rounds d rule: drive.induct) (auto split: prod.splits outcome.splits if_splits)

lemma drive_None_before: "drive D R rounds d = None \<Longrightarrow> r \<in> set rounds \<Longrightarrow> unat (fst r) \<noteq> R"
  by (induction D R rounds d rule: drive.induct) (auto split: prod.splits outcome.splits if_splits)

definition first_rounds :: "nat \<Rightarrow> 'b round_msg list \<Rightarrow> (u16 \<times> 'b msg list) list" where
  "first_rounds K ms = map (\<lambda>j. (of_nat j, of_round (of_nat j) (rounds_of ms))) [1..<Suc K]"

lemma completed_in_order:
  assumes "finite S" and "S \<noteq> {}" and "card S \<le> 65535" and "R \<le> 65535" and "in_order msg_sender S R (rounds_of ms)"
  obtains K where "completed ms (new_fixed (of_nat R) (of_nat (card S))) = first_rounds K ms" "K \<le> R"
    "\<forall>s\<in>S. K \<le> progress msg_sender (rounds_of ms) s" "\<exists>s\<in>S. progress msg_sender (rounds_of ms) s = K"
proof -
  obtain buf K where f: "feed_all (rounds_of ms) (new_fixed (of_nat R) (of_nat (card S))) = (buf, first_rounds K ms)"
    and t: "tracks msg_sender S R (rounds_of ms) buf K"
    using feed_in_order [OF assms] unfolding first_rounds_def by blast
  then have K: "\<forall>s\<in>S. K \<le> progress msg_sender (rounds_of ms) s" "\<exists>s\<in>S. progress msg_sender (rounds_of ms) s = K"
    by (simp_all add: tracks_def)
  then have "K \<le> R" using assms(5) by (auto simp: in_order_def)
  with f K show thesis by (intro that [of K]) simp_all
qed

lemma drive_first_rounds:
  assumes "1 \<le> R" and "R \<le> 65535" and "K \<le> R"
  shows "drive D R (first_rounds K ms) d = None \<Longrightarrow> K < R"
    and "drive D R (first_rounds K ms) d = Some (Ok x) \<Longrightarrow> K = R"
proof -
  have u: "unat (fst r) = j" if "r = (of_nat j :: u16, of_round (of_nat j) (rounds_of ms))" "j \<le> R" for r j
    using that assms(2) by simp
  show "K < R" if n: "drive D R (first_rounds K ms) d = None"
  proof (rule ccontr)
    assume "\<not> K < R"
    then have "(of_nat R, of_round (of_nat R) (rounds_of ms)) \<in> set (first_rounds K ms)"
      using assms(1,3) by (auto simp: first_rounds_def simp del: upt_Suc)
    with drive_None_before [OF n] u [OF refl, of R] show False by auto
  qed
  show "K = R" if o: "drive D R (first_rounds K ms) d = Some (Ok x)"
    using drive_Ok_last [OF o] assms u by (auto simp: first_rounds_def simp del: upt_Suc) 
qed

lemma wait_for_driver_loop:
  assumes "driver b = Some d0" and "proceed D d0 = (d, out)" and "b' = fst (execute E J D b)"
  shows "driver b' = Some d" and "buffer b' = buffer b" and "bridge_session b' = bridge_session b"
    and "wait_for_driver E J D steps events b = None \<Longrightarrow> bridge_loop E J D steps events b' = None"
    and "wait_for_driver E J D steps events b = Some (steps', events', t, Ok x) \<Longrightarrow>
      \<exists>b''. bridge_loop E J D steps events b' = Some (steps', events', b'', Ok x)"
proof -
  have w: "with_driver (proceed D) b = (b\<lparr>driver := Some d\<rparr>, out)"
    using assms(1,2) by (simp add: with_driver_def)
  show "driver b' = Some d"
    unfolding assms(3) execute_def w by (intro driver_then) (simp_all add: driver_dispatch)
  have "framed b b'"
    unfolding assms(3) execute_def using framed_ops(2) [of b b "proceed D"]
    by (intro framed_then framed_dispatch) (simp_all add: framed_def)
  then show "buffer b' = buffer b" "bridge_session b' = bridge_session b" by (simp_all add: framed_def)
  show "bridge_loop E J D steps events b' = None" if "wait_for_driver E J D steps events b = None"
    using that assms(3) by (auto simp: wait_for_driver_def split: prod.splits outcome.splits)
  show "\<exists>b''. bridge_loop E J D steps events b' = Some (steps', events', b'', Ok x)"
    if "wait_for_driver E J D steps events b = Some (steps', events', t, Ok x)"
    using that assms(3) by (auto simp: wait_for_driver_def split: prod.splits outcome.splits)
qed

lemma bridge_run:
  assumes "finite S" and "S \<noteq> {}" and "card S \<le> 65535" and "1 \<le> R" and "R \<le> 65535"
    and "buffer b = new_fixed (of_nat R) (of_nat (card S))" and "driver b = Some d0" and "proceed D d0 = (d, out)"
    and "ms = messages_seen E J D steps events (fst (execute E J D b))" and "in_order msg_sender S R (rounds_of ms)"
  shows "(wait_for_driver E J D steps events b = None \<longrightarrow> (\<exists>s\<in>S. progress msg_sender (rounds_of ms) s < R)) \<and>
    (\<forall>steps' events' t x. wait_for_driver E J D steps events b = Some (steps', events', t, Ok x) \<longrightarrow>
       (\<forall>s\<in>S. progress msg_sender (rounds_of ms) s = R) \<and> drive D R (first_rounds R ms) d = Some (Ok x))"
proof -
  let ?b = "fst (execute E J D b)"
  note w = wait_for_driver_loop [OF assms(7,8) refl, where E = E and J = J]
  obtain K where K: "completed ms (buffer b) = first_rounds K ms" "K \<le> R"
    "\<forall>s\<in>S. K \<le> progress msg_sender (rounds_of ms) s" "\<exists>s\<in>S. progress msg_sender (rounds_of ms) s = K"
    using completed_in_order [OF assms(1-3,5,10)] unfolding assms(6) by blast
  have len: "buffer_len (buffer b) = R" using assms(5,6) by (simp add: buffer_len_new_fixed)
  have i: "implements (bridge_loop E J D steps events ?b) (drive D R (first_rounds K ms) d)"
    using bridge_loop_implements [OF w(1), of E J D steps events] K(1) len unfolding w(2) assms(9) by simp
  have "\<exists>s\<in>S. progress msg_sender (rounds_of ms) s < R" if "wait_for_driver E J D steps events b = None"
    using i w(4) [OF that] drive_first_rounds(1) [OF assms(4,5) K(2), of D ms d] K(4)
    by (auto simp: implements_def)
  moreover have "(\<forall>s\<in>S. progress msg_sender (rounds_of ms) s = R) \<and> drive D R (first_rounds R ms) d = Some (Ok x)"
    if "wait_for_driver E J D steps events b = Some (steps', events', t, Ok x)" for steps' events' t x
  proof -
    have o: "drive D R (first_rounds K ms) d = Some (Ok x)"
      using i w(5) [OF that] by (auto simp: implements_def)
    have "K = R" by (rule drive_first_rounds(2) [OF assms(4,5) K(2) o])
    then show ?thesis using o K(3) assms(10) by (force simp: in_order_def)
  qed
  ultimately show ?thesis by blast
qed

text \<open>
  C5: The bridge implements the protocol over every event stream. Whatever the event loop yields,
  if the round messages that \<open>wait_for_driver\<close> has seen of each party came in the order of their
  rounds, then (1) it still waits only if some party has not sent the message of the last round
  yet, and (2) an output it returns is the output of the protocol driver on its own, started, fed
  with the complete rounds 1 to R and asked for its result: network, buffering and event loop
  contribute nothing but the messages.
\<close>

theorem bridge_runs_protocol:
  assumes "finite S" and "S \<noteq> {}" and "card S \<le> 65535" and "1 \<le> R" and "R \<le> 65535"
    and "buffer b = new_fixed (of_nat R) (of_nat (card S))" and "driver b = Some d0" and "proceed D d0 = (d, out)"
    and "ms = messages_seen E J D steps events (fst (execute E J D b))" and "in_order msg_sender S R (rounds_of ms)"
  shows "(wait_for_driver E J D steps events b = None \<longrightarrow> (\<exists>s\<in>S. progress msg_sender (rounds_of ms) s < R)) \<and>
    (\<forall>steps' events' t x. wait_for_driver E J D steps events b = Some (steps', events', t, Ok x) \<longrightarrow>
       (\<forall>s\<in>S. progress msg_sender (rounds_of ms) s = R) \<and> drive D R (first_rounds R ms) d = Some (Ok x))"
  using assms by (rule bridge_run)

text \<open>Two steps of the event loop deliver the messages of the sample, with other events between them.\<close>

definition sample_steps :: "(bool \<times> nat, nat \<times> nat) loop_step list" where
  "sample_steps = [\<lambda>c. (c, json_events sample_uuid [([6], [1, 2, 20]), ([6], [2, 2, 21])] @ [Ok (PeerConnected [8])]),
     \<lambda>c. (c, json_events sample_uuid [([7], [1, 3, 30]), ([7], [2, 3, 31])])]"

theorem bridge_runs_protocol_witness:
  "(\<exists>steps events t. wait_for_driver sample_env sample_json collector sample_steps [] (sample_bridge 2 2) =
      Some (steps, events, t, Ok [20, 30, 21, 31])) \<and>
   drive collector 2 (first_rounds 2 sample_messages) [] = Some (Ok [20, 30, 21, 31])"
proof -
  let ?b = "sample_bridge 2 2" and ?w = "wait_for_driver sample_env sample_json collector sample_steps [] (sample_bridge 2 2)"
  have nf: "new_fixed 2 2 = \<lparr>expected = [(1, 2), (2, 2)], buffered = Map.empty\<rparr>"
    by (simp add: new_fixed_def upt_rec)
  note run_defs = sample_bridge_def sample_json_def collector_def deserialize_def Let_def add_message_def is_ready_def
    take_round_def nf buffer_len_def msg_of_round_def with_driver_def dispatch_round_messages_def
    take_and_finish_def execute_def
  have e: "fst (execute sample_env sample_json collector ?b) = ?b" by (simp add: run_defs)
  have m: "messages_seen sample_env sample_json collector sample_steps [] ?b = sample_messages"
    by (simp add: messages_seen_def sample_steps_def json_events_def step_bridge_def sample_messages_def run_defs)
  have r: "map_option (\<lambda>(_, _, _, x). x) ?w = Some (Ok [20, 30, 21, 31])"
    by (simp add: wait_for_driver_def sample_steps_def json_events_def step_bridge_def run_defs)
  have o: "in_order msg_sender {2, 3 :: u16} 2 (rounds_of sample_messages)"
    by (simp add: in_order_def progress_def rounds_of_def sample_messages_def msg_of_round_def)
  have "finite {2, 3 :: u16}" "{2, 3 :: u16} \<noteq> {}" "card {2, 3 :: u16} \<le> 65535" "1 \<le> (2 :: nat)" "(2 :: nat) \<le> 65535"
    "buffer ?b = new_fixed (of_nat 2) (of_nat (card {2, 3 :: u16}))" "driver ?b = Some []" "proceed collector [] = ([], Ok [])"
    by (simp_all add: sample_bridge_def collector_def)
  from bridge_runs_protocol [OF this, of sample_messages sample_env sample_json sample_steps "[]"] r
  show ?thesis unfolding e m using o by (auto simp del: drive.simps)
qed

subsection \<open>Messages outside their phase\<close>

lemma feed_short:
  assumes "map_of (expected b) r = Some n" and "length acc + length ms < unat n"
    and "buffered b r = (if acc = [] then None else Some acc)"
  shows "snd (feed_all (map (Pair r) ms) b) = []"
  using assms
proof (induction ms arbitrary: acc b)
  case (Cons m ms)
  let ?b = "add_message r m b"
  have b: "map_of (expected ?b) r = Some n" "buffered ?b r = Some (acc @ [m])"
    using Cons.prems(1,3) by (auto simp: add_message_def)
  then have "\<not> is_ready r ?b" using Cons.prems(2) by (simp add: is_ready_def)
  then have "feed r m b = (?b, None)" by (simp add: feed_def Let_def)
  then show ?case using Cons.IH [OF b(1), of "acc @ [m]"] b(2) Cons.prems(2) by (simp split: prod.splits)
qed simp

lemma pending_messages_kept:
  assumes "list_all2 (\<lambda>(peer, contents) m. from_json J contents = Ok m) received ms"
    and "sid = session_id (bridge_session b)" and "completed ms (buffer b) = []"
  shows "bridge_loop E J D steps (json_events sid received @ events) b =
    bridge_loop E J D steps events (b\<lparr>buffer := fst (feed_all (rounds_of ms) (buffer b))\<rparr>)"
  using assms
proof (induction received ms arbitrary: b rule: list_all2_induct)
  case Nil
  then show ?case by (simp add: json_events_def rounds_of_def)
next
  case (Cons x received m ms)
  obtain peer contents where x: "x = (peer, contents)" "from_json J contents = Ok m" using Cons.hyps(1) by force
  obtain buf y where f: "feed (rm_round m) (msg_of_round m) (buffer b) = (buf, y)" by fastforce
  have y: "y = None" "completed ms buf = []"
    using Cons.prems(2) f by (auto simp: rounds_of_def split: prod.splits option.splits)
  have "handle_event E J D (JsonMessage peer contents (Some sid)) b = (b\<lparr>buffer := buf\<rparr>, Ok None)"
    using handle_event_feed [OF x(2) Cons.prems(1), of E D peer] f y(1) by simp
  then show ?case
    using Cons.IH [of "b\<lparr>buffer := buf\<rparr>"] Cons.prems(1) y(2) f
    by (simp add: x(1) json_events_def rounds_of_def y(1) split: prod.splits)
qed


lemma wait_for_driver_executed:
  assumes "execute E J D b = (b', Ok ())"
  shows "wait_for_driver E J D steps events b =
    map_option (\<lambda>(steps, events, b, x). (steps, events, transport b, x)) (bridge_loop E J D steps events b')"
  by (simp add: wait_for_driver_def assms)

lemma executed_frame:
  assumes "execute E J D b = (b', x)"
  shows "buffer b' = buffer b" and "bridge_session b' = bridge_session b"
proof -
  have "framed b (fst (execute E J D b))"
    unfolding execute_def using framed_ops(2) [of b b "proceed D"]
    by (intro framed_then framed_dispatch) (simp_all add: framed_def)
  then show "buffer b' = buffer b" "bridge_session b' = bridge_session b" using assms by (simp_all add: framed_def)
qed

lemma idle_ignores_json:
  "idle h \<Longrightarrow> session_handle_event E random (JsonMessage peer contents sid) h = (h, Ok None)"
  by (cases h) (simp_all add: initiator_handle_event_def initiator_new_session_def participant_handle_event_def)

lemma idle_accepts_active:
  "idle h \<Longrightarrow> session_handle_event E random (Ev_SessionActive session) h = (h, Ok (Some session))"
  by (cases h) (simp_all add: initiator_handle_event_def initiator_new_session_def participant_handle_event_def)

lemma session_wait_drops_json:
  "idle h \<Longrightarrow> wait_for_session E random steps (json_events sid early @ events) h = wait_for_session E random steps events h"
  by (induction early) (auto simp: json_events_def wait_for_session_def idle_ignores_json)

lemma first_round_incomplete:
  assumes "execute E J D b = (b', Ok ())" and "buffer b = new_fixed R n" and "R \<noteq> 0"
    and "list_all2 (\<lambda>(peer, contents) m. from_json J contents = Ok m) received ms"
    and "\<forall>m\<in>set ms. rm_round m = 1" and "length ms < unat n" and "sid = session_id (bridge_session b)"
  shows "\<exists>b''. transport b'' = transport b' \<and> bridge_session b'' = bridge_session b \<and>
    wait_for_driver E J D steps (json_events sid received @ events) b =
      map_option (\<lambda>(steps, events, b, x). (steps, events, transport b, x)) (bridge_loop E J D steps events b'')"
proof -
  note k = executed_frame [OF assms(1)]
  have "rounds_of ms = map (Pair 1) (map msg_of_round ms)" using assms(5) by (simp add: rounds_of_def)
  moreover have "0 < unat R" using assms(3) by (simp add: unat_gt_0)
  ultimately have c: "completed ms (buffer b') = []"
    using feed_short [of "buffer b'" 1 n "[]" "map msg_of_round ms"] assms(2,6) k(1)
    by (simp add: expected_new_fixed) (simp add: new_fixed_def)
  have sid: "sid = session_id (bridge_session b')" using assms(7) k(2) by simp
  show ?thesis
    by (intro exI [of _ "b'\<lparr>buffer := fst (feed_all (rounds_of ms) (buffer b'))\<rparr>"])
      (simp add: wait_for_driver_executed [OF assms(1)] pending_messages_kept [OF assms(4) sid c] k(2))
qed

text \<open>A round is complete only after as many messages of it as are expected.\<close>

lemma feed_all_count:
  assumes "(r, xs) \<in> set (snd (feed_all ps b))" and "map_of (expected b) r = Some n"
  shows "unat n \<le> length (case buffered b r of Some l \<Rightarrow> l | None \<Rightarrow> []) + length (filter (\<lambda>p. fst p = r) ps)"
  using assms
proof (induction ps arbitrary: b)
  case (Cons p ps)
  obtain r' m where p: "p = (r', m)" by fastforce
  obtain b1 y where f: "feed r' m b = (b1, y)" by fastforce
  have e: "map_of (expected b1) r = Some n" using feed_expected [OF f] Cons.prems(2) by simp
  have in_rest: "(r, xs) \<in> set (snd (feed_all ps b1))" if "\<nexists>l. y = Some (r, l)"
    using that Cons.prems(1) f p by (auto split: prod.splits option.splits)
  show ?case
  proof (cases "r' = r")
    case True
    show ?thesis
    proof (cases "is_ready r (add_message r m b)")
      case ready: True
      then show ?thesis using True p Cons.prems(2) by (auto simp: is_ready_def add_message_def split: option.splits)
    next
      case False
      then have "y = None" "b1 = add_message r m b" using f True by (simp_all add: feed_def Let_def)
      then show ?thesis using Cons.IH [OF in_rest e] True p by (simp add: add_message_def)
    qed
  next
    case False
    then have "buffered b1 r = buffered b r" "\<nexists>l. y = Some (r, l)"
      using f by (auto simp: feed_def Let_def take_round_def add_message_def split: if_splits option.splits prod.splits)
    then show ?thesis using Cons.IH [OF in_rest e] False p by simp
  qed
qed simp

lemma completed_count:
  assumes "z \<in> set (completed ms (new_fixed R n))" and "0 < unat (fst z)" and "unat (fst z) \<le> unat R"
  shows "unat n \<le> length (filter (\<lambda>m. rm_round m = fst z) ms)"
  using feed_all_count [of "fst z" "snd z" "rounds_of ms" "new_fixed R n" n] assms
  by (simp add: rounds_of_def filter_map comp_def expected_new_fixed) (simp add: new_fixed_def)

lemma KeyGenDriver_new_Ok:
  assumes "KeyGenDriver_new E K t params session = Ok b" and "1 \<le> parties params"
  shows "\<exists>d. driver b = Some d" and "buffer b = new_fixed 4 (parties params - 1)" and "bridge_session b = session"
  using assms by (auto simp: KeyGenDriver_new_def outcome_simps checked_sub_def split: if_splits)

text \<open>A result needs the messages of the last round.\<close>

lemma result_needs_last_round:
  assumes "driver b = Some d" and "buffer b = new_fixed 4 n" and "execute E J D b = (b', Ok ())"
    and "wait_for_driver E J D steps events b = Some (steps', events', t, Ok x)"
  shows "unat n \<le> length (filter (\<lambda>m. rm_round m = 4) (messages_seen E J D steps events b'))"
proof -
  obtain d' out where p: "proceed D d = (d', out)" by fastforce
  have w: "driver b' = Some d'" "buffer b' = buffer b"
    "\<exists>b''. bridge_loop E J D steps events b' = Some (steps', events', b'', Ok x)"
    using wait_for_driver_loop [OF assms(1) p, of b' E J] assms(3,4) by auto
  then have "drive D 4 (completed (messages_seen E J D steps events b') (new_fixed 4 n)) d' = Some (Ok x)"
    using bridge_loop_implements [OF w(1), of E J D steps events] assms(2)
    by (auto simp: implements_def buffer_len_new_fixed)
  from drive_Ok_last [OF this] obtain z where
    z: "z \<in> set (completed (messages_seen E J D steps events b') (new_fixed 4 n))" "unat (fst z) = 4" by auto
  then have "fst z = 4" by (simp add: word_unat_eq_iff)
  then show ?thesis using completed_count [OF z(1)] z(2) by simp
qed

text \<open>
  C26: Round messages that arrive before the announcement that the session is active are lost. The
  server announces it to the parties one after the other, and a party that has it may start: its
  first message can reach a party that still waits for the session, where the session handler drops
  it, whatever follows. After the announcement the same messages would have completed the first
  round. As the other parties send their first message once, the first round of this party can
  never be completed any more: over every later stream, whatever the event loop yields, the state
  machine gets no message of the first round, and there is no key before the messages of the last
  round have come from all other parties, which cannot send them without this party.
\<close>

theorem early_round_messages_lost:
  assumes "idle h" and "KeyGenDriver_new E K (handler_transport h) params session = Ok b"
    and "execute E (keygen_json K) (KeygenDriver K) b = (b', Ok ())"
    and "list_all2 (\<lambda>(peer, contents) m. from_json (keygen_json K) contents = Ok m) early ms"
    and "list_all2 (\<lambda>(peer, contents) m. from_json (keygen_json K) contents = Ok m) later ms'"
    and "\<forall>m\<in>set (ms @ ms'). rm_round m = 1" and "early \<noteq> []"
    and "length early + length later = unat (parties params) - 1"
  shows "wait_for_session E random steps
      (json_events (session_id session) early @ Ok (Ev_SessionActive session) # json_events (session_id session) later @ rest) h =
        Some (steps, json_events (session_id session) later @ rest, handler_transport h, Ok session) \<and>
    loop_result (bridge_loop E (keygen_json K) (KeygenDriver K) [] (json_events (session_id session) (early @ later)) b') =
      settled (process_rounds E (keygen_json K) (KeygenDriver K) [(1, map msg_of_round (ms @ ms'))] b') \<and>
    (\<forall>steps events seen. seen = messages_seen E (keygen_json K) (KeygenDriver K) steps events b' \<and>
       length early + length (filter (\<lambda>m. rm_round m = 1) seen) \<le> unat (parties params) - 1 \<longrightarrow>
       (\<forall>z\<in>set (completed seen (buffer b')). fst z \<noteq> 1) \<and>
       (length (filter (\<lambda>m. rm_round m = 4) seen) < unat (parties params) - 1 \<longrightarrow>
         (\<forall>steps' events' t key. wait_for_driver E (keygen_json K) (KeygenDriver K) steps events b \<noteq>
            Some (steps', events', t, Ok key))))"
proof -
  let ?e = "json_events (session_id session)" and ?J = "keygen_json K" and ?D = "KeygenDriver K"
  have "parties params \<noteq> 0" using assms(7,8) by (cases early) auto
  then have p: "1 \<le> parties params" and n: "unat (parties params - 1) = unat (parties params) - 1"
    by (simp_all add: unat_minus_one word_le_nat_alt unat_gt_0 Suc_le_eq)
  note K = KeyGenDriver_new_Ok [OF assms(2) p] and f = executed_frame [OF assms(3)]
  obtain d where d: "driver b = Some d" using K(1) by blast
  have 1: "wait_for_session E random steps (?e early @ Ok (Ev_SessionActive session) # ?e later @ rest) h =
      Some (steps, ?e later @ rest, handler_transport h, Ok session)"
    by (simp only: session_wait_drops_json [OF assms(1)]) (simp add: wait_for_session_def idle_accepts_active [OF assms(1)])
  have len: "length ms + length ms' = unat (parties params - 1)" "ms \<noteq> []"
    using list_all2_lengthD [OF assms(4)] list_all2_lengthD [OF assms(5)] assms(7,8) n by auto
  have "rounds_of (ms @ ms') = map (Pair 1) (map msg_of_round (ms @ ms'))" using assms(6) by (simp add: rounds_of_def)
  then have "completed (ms @ ms') (buffer b') = [(1, map msg_of_round (ms @ ms'))]"
    using feed_one_round [of "buffer b'" 1 "parties params - 1" "[]" "map msg_of_round (ms @ ms')"] len K(2) f(1)
    by (simp add: expected_new_fixed) (simp add: new_fixed_def)
  then have 2: "loop_result (bridge_loop E ?J ?D [] (?e (early @ later)) b') =
      settled (process_rounds E ?J ?D [(1, map msg_of_round (ms @ ms'))] b')"
    using wait_loop_rounds [OF list_all2_appendI [OF assms(4,5)], of "session_id session" b' E ?D] K(3) f(2) by simp
  have "fst z \<noteq> 1" if "z \<in> set (completed seen (buffer b'))"
      "length early + length (filter (\<lambda>m. rm_round m = 1) seen) \<le> unat (parties params) - 1" for z seen
    using completed_count [of z seen 4 "parties params - 1"] that K(2) f(1) n assms(7) by (cases early) auto
  moreover have "wait_for_driver E ?J ?D steps events b \<noteq> Some (steps', events', t, Ok key)"
    if "length (filter (\<lambda>m. rm_round m = 4) (messages_seen E ?J ?D steps events b')) < unat (parties params) - 1"
    for steps events steps' events' t key
    using result_needs_last_round [OF d K(2) assms(3)] that n by force
  ultimately show ?thesis using 1 2 by blast
qed

text \<open>A key generation that sends nothing and returns the number of messages it has handled.\<close>

definition sample_keygen :: "(nat, nat, nat) keygen_ops" where
  "sample_keygen = \<lparr>Keygen_new = (\<lambda>i t n. Ok 0), keygen_machine = \<lparr>sm_handle_incoming = (\<lambda>m d. (d + 1, Ok ())),
     sm_proceed = (\<lambda>d. (d, Ok ())), message_queue = (\<lambda>d. []), clear_queue = (\<lambda>d. d), current_round = (\<lambda>d. 1),
     pick_output = (\<lambda>d. Some (Ok d))\<rparr>, keygen_json = sample_json\<rparr>"

definition trio_session :: session_state where
  "trio_session = \<lparr>session_id = sample_uuid, all_participants = [[5], [6], [7]]\<rparr>"

theorem early_round_messages_lost_witness:
  "\<exists>b. KeyGenDriver_new sample_env sample_keygen (connected_party 5 6) Parameters_default trio_session = Ok b \<and>
    wait_for_session sample_env (\<lambda>_. 0) [] (json_events sample_uuid [([6], [1, 2, 20])] @
        Ok (Ev_SessionActive trio_session) # json_events sample_uuid [([7], [1, 3, 30])] @ [Ok (PeerConnected [8])])
      (Participant (SessionParticipant_new (connected_party 5 6))) =
      Some ([], json_events sample_uuid [([7], [1, 3, 30])] @ [Ok (PeerConnected [8])], connected_party 5 6, Ok trio_session) \<and>
    (\<forall>steps events t key. wait_for_driver sample_env sample_json (KeygenDriver sample_keygen) []
      (json_events sample_uuid [([7], [1, 3, 30]), ([6], [2, 2, 21]), ([7], [2, 3, 31])]) b \<noteq> Some (steps, events, t, Ok key))"
proof -
  let ?h = "Participant (SessionParticipant_new (connected_party 5 6))" and ?D = "KeygenDriver sample_keygen"
  let ?b = "\<lparr>transport = connected_party 5 6, buffer = new_fixed 4 2, driver = Some 0, bridge_session = trio_session\<rparr>"
  let ?m = "\<lambda>s v. \<lparr>rm_round = 1, rm_sender = s, rm_receiver = None, rm_body = v\<rparr> :: nat round_msg"
  let ?es = "json_events sample_uuid [([7], [1, 3, 30]), ([6], [2, 2, 21]), ([7], [2, 3, 31])]"
  have h: "idle ?h" "handler_transport ?h = connected_party 5 6" by (simp_all add: SessionParticipant_new_def)
  have b: "KeyGenDriver_new sample_env sample_keygen (handler_transport ?h) Parameters_default trio_session = Ok ?b"
    "execute sample_env (keygen_json sample_keygen) ?D ?b = (?b, Ok ())"
    by (simp_all add: SessionParticipant_new_def KeyGenDriver_new_def KeygenDriver_new_def own_party_number_def
        connected_party_def trio_session_def sample_client_def client_public_key_def party_number_def PartyNumber_new_def
        sample_keygen_def Parameters_default_def checked_sub_def execute_def with_driver_def KeygenDriver_def
        machine_proceed_def dispatch_round_messages_def)
  have j: "list_all2 (\<lambda>(peer, contents) m. from_json (keygen_json sample_keygen) contents = Ok m) [([6 :: byte], [1, 2, 20])] [?m 2 20]"
    "list_all2 (\<lambda>(peer, contents) m. from_json (keygen_json sample_keygen) contents = Ok m) [([7 :: byte], [1, 3, 30])] [?m 3 30]"
    by (simp_all add: sample_keygen_def sample_json_def)
  have s: "session_id trio_session = sample_uuid" "keygen_json sample_keygen = sample_json"
    by (simp_all add: trio_session_def sample_keygen_def)
  have nf: "new_fixed 4 2 = \<lparr>expected = [(1, 2), (2, 2), (3, 2), (4, 2)], buffered = Map.empty\<rparr>"
    by (simp add: new_fixed_def upt_rec)
  have seen: "map rm_round (messages_seen sample_env sample_json ?D [] ?es ?b) = [1, 2, 2]"
    by (simp add: messages_seen_def json_events_def sample_json_def sample_keygen_def KeygenDriver_def
        machine_handle_incoming_def machine_proceed_def deserialize_def Let_def add_message_def is_ready_def
        take_round_def nf buffer_len_def msg_of_round_def with_driver_def dispatch_round_messages_def trio_session_def)
  have count: "length (filter (\<lambda>m. rm_round m = r) (messages_seen sample_env sample_json ?D [] ?es ?b)) =
      length (filter (\<lambda>i. i = r) [1, 2, 2])" for r
    unfolding seen [symmetric] by (simp add: filter_map comp_def)
  have "\<forall>m\<in>set ([?m 2 20] @ [?m 3 30]). rm_round m = 1" "[([6 :: byte], [1, 2, 20 :: byte])] \<noteq> []"
    "length [([6 :: byte], [1, 2, 20 :: byte])] + length [([7 :: byte], [1, 3, 30 :: byte])] = unat (parties Parameters_default) - 1"
    by (simp_all add: Parameters_default_def)
  note lost = early_round_messages_lost [OF h(1) b j this, of "\<lambda>_. 0" "[]" "[Ok (PeerConnected [8])]", unfolded s h(2)]
  have "length [([6 :: byte], [1, 2, 20 :: byte])] + length (filter (\<lambda>m. rm_round m = 1)
      (messages_seen sample_env sample_json ?D [] ?es ?b)) \<le> unat (parties Parameters_default) - 1"
    "length (filter (\<lambda>m. rm_round m = 4) (messages_seen sample_env sample_json ?D [] ?es ?b)) < unat (parties Parameters_default) - 1"
    unfolding count by (simp_all add: Parameters_default_def)
  with lost [THEN conjunct2, THEN conjunct2, rule_format, of _ "[]" ?es]
  have "wait_for_driver sample_env sample_json ?D [] ?es ?b \<noteq> Some (steps, events, t, Ok key)" for steps events t key
    by simp
  then show ?thesis using b(1) [unfolded h(2)] lost [THEN conjunct1] by blast
qed

text \<open>A message that does not decode ends the exchange of key indices, while one is missing.\<close>

lemma undecodable_message_aborts:
  assumes "ParticipantDriver_new E t params session index = Ok b"
    and "execute E J ParticipantProtocolDriver b = (b', Ok ())"
    and "list_all2 (\<lambda>(peer, contents) m. from_json J contents = Ok m) received ms"
    and "\<forall>m\<in>set ms. rm_round m = 1" and "length ms < unat (threshold params)"
    and "from_json J overtaking = Err e"
  shows "wait_for_driver E J ParticipantProtocolDriver steps (json_events (session_id session) received @
      Ok (JsonMessage peer overtaking (Some (session_id session))) # rest) b =
    Some (steps, rest, transport b', Err (GG20_Client Client_Json))"
proof -
  note n = ParticipantDriver_new_Ok [OF assms(1)]
  obtain b'' where b'': "transport b'' = transport b'" "bridge_session b'' = session"
    "wait_for_driver E J ParticipantProtocolDriver steps (json_events (session_id session) received @
      Ok (JsonMessage peer overtaking (Some (session_id session))) # rest) b =
     map_option (\<lambda>(steps, events, b, x). (steps, events, transport b, x))
       (bridge_loop E J ParticipantProtocolDriver steps (Ok (JsonMessage peer overtaking (Some (session_id session))) # rest) b'')"
    using first_round_incomplete [OF assms(2) n(2) _ assms(3,4,5), where sid = "session_id session" and steps = steps
      and events = "Ok (JsonMessage peer overtaking (Some (session_id session))) # rest"] n(3)
    by (auto simp del: wait_loop.simps)
  have "handle_event E J ParticipantProtocolDriver (JsonMessage peer overtaking (Some (session_id session))) b'' =
      (b'', Err (GG20_Client Client_Json))"
    using assms(6) b''(2) by (simp add: deserialize_def)
  then show ?thesis unfolding b''(3) using b''(1) by simp
qed

text \<open>The messages of one round, the last of which completes it.\<close>

definition without_round :: "u16 \<Rightarrow> 'i round_buffer \<Rightarrow> 'i round_buffer" where
  "without_round r b = b\<lparr>buffered := (buffered b)(r := None)\<rparr>"

lemma without_round_add: "without_round r (add_message r m b) = without_round r b"
  by (simp add: without_round_def add_message_def)

lemma round_completes:
  assumes "list_all2 (\<lambda>(peer, contents) m. from_json J contents = Ok m) received ms"
    and "sid = session_id (bridge_session b)" and "map_of (expected (buffer b)) r = Some n"
    and "buffered (buffer b) r = (if acc = [] then None else Some acc)"
    and "\<forall>m\<in>set ms. rm_round m = r" and "length acc + length ms = unat n" and "ms \<noteq> []"
    and "process_round E J D r (acc @ map msg_of_round ms) (b\<lparr>buffer := without_round r (buffer b)\<rparr>) = (b', Ok (Some y))"
  shows "bridge_loop E J D steps (json_events sid received @ events) b = Some (steps, events, b', Ok y)"
  using assms
proof (induction received ms arbitrary: b acc rule: list_all2_induct)
  case (Cons x received m ms)
  obtain peer contents where x: "x = (peer, contents)" "from_json J contents = Ok m" using Cons.hyps(1) by force
  let ?buf = "add_message r (msg_of_round m) (buffer b)"
  have buf: "buffered ?buf r = Some (acc @ [msg_of_round m])" "map_of (expected ?buf) r = Some n"
    using Cons.prems(2,3) by (auto simp: add_message_def)
  note H = handle_event_feed [OF x(2) Cons.prems(1), of E D peer]
  show ?case
  proof (cases "ms = []")
    case True
    then have "is_ready r ?buf" using buf Cons.prems(5) by (simp add: is_ready_def)
    then have f: "feed (rm_round m) (msg_of_round m) (buffer b) = (without_round r (buffer b), Some (r, acc @ [msg_of_round m]))"
      using buf Cons.prems(4) without_round_add [of r "msg_of_round m" "buffer b"]
      by (simp add: feed_def Let_def take_round_def without_round_def)
    have "handle_event E J D (JsonMessage peer contents (Some sid)) b = (b', Ok (Some y))"
      using Cons.prems(7) unfolding H f True by (simp only: list.map prod.case option.case)
    then show ?thesis using True Cons.hyps(2) x(1) by (simp add: json_events_def del: handle_event.simps)
  next
    case False
    then have "\<not> is_ready r ?buf" using buf Cons.prems(5) by (cases ms) (simp_all add: is_ready_def)
    then have "feed (rm_round m) (msg_of_round m) (buffer b) = (?buf, None)"
      using Cons.prems(4) by (simp add: feed_def Let_def)
    then have "handle_event E J D (JsonMessage peer contents (Some sid)) b = (b\<lparr>buffer := ?buf\<rparr>, Ok None)" using H by simp
    moreover have "bridge_loop E J D steps (json_events sid received @ events) (b\<lparr>buffer := ?buf\<rparr>) = Some (steps, events, b', Ok y)"
      using Cons.prems False buf
      by (intro Cons.IH [of _ "acc @ [msg_of_round m]"]) (simp_all add: without_round_add)
    ultimately show ?thesis by (simp add: x(1) json_events_def)
  qed
qed simp

lemma exchange_leaves_rest:
  assumes "ParticipantDriver_new E t params session index = Ok b"
    and "execute E J ParticipantProtocolDriver b = (b', Ok ())"
    and "list_all2 (\<lambda>(peer, contents) m. from_json J contents = Ok m) received ms"
    and "\<forall>m\<in>set ms. rm_round m = 1" and "length ms = unat (threshold params)" and "ms \<noteq> []"
  shows "wait_for_driver E J ParticipantProtocolDriver steps (json_events (session_id session) received @ events) b =
    Some (steps, events, transport b', Ok (sort (index # map rm_body ms)))"
proof -
  note n = ParticipantDriver_new_Ok [OF assms(1)] and e = participants_execute [OF assms(2)]
  obtain d where d: "driver b' = Some d" "pd_participants d = [index]" using n(1) e(1) by auto
  have buf: "buffer b' = new_fixed 1 (threshold params)" using n(2) e(2) by simp
  let ?b = "b'\<lparr>buffer := without_round 1 (buffer b')\<rparr>"
  have "buffer_len (buffer ?b) = 1" 
    using buffer_len_new_fixed [of 1 "threshold params"] by (simp add: buf buffer_len_def without_round_def)
  then have "\<exists>b''. process_round E J ParticipantProtocolDriver 1 ([] @ map msg_of_round ms) ?b =
      (b'', Ok (Some (sort (index # map rm_body ms)))) \<and> transport b'' = transport b'"
    using d by (simp add: process_round_def handle_all_participants [of ?b d] take_and_finish_def
        participants_finish msg_of_round_def comp_def)
  then obtain b'' where b'': "process_round E J ParticipantProtocolDriver 1 ([] @ map msg_of_round ms) ?b =
      (b'', Ok (Some (sort (index # map rm_body ms))))" "transport b'' = transport b'" by blast
  have "bridge_loop E J ParticipantProtocolDriver steps (json_events (session_id session) received @ events) b' =
      Some (steps, events, b'', Ok (sort (index # map rm_body ms)))"
    by (rule round_completes [OF assms(3) _ _ _ assms(4) _ assms(6) b''(1)])
       (use n(3) e(3) assms(5) in \<open>simp_all add: buf expected_new_fixed\<close>, simp add: new_fixed_def)
  then show ?thesis by (simp add: wait_for_driver_executed [OF assms(2)] b''(2))
qed

text \<open>
  C27: One peer alone can decide who signs. The bridge does not compare the sender that a message
  names with the peer that sent it, and counts messages instead of parties: as soon as one peer has
  sent as many messages of the first round as there are other signers, under whatever names, the
  exchange of key indices ends with the list that this peer has chosen, and what the other parties
  send is left to the offline stage.
\<close>

theorem single_peer_decides_parties:
  assumes "ParticipantDriver_new E t params session index = Ok b"
    and "execute E J ParticipantProtocolDriver b = (b', Ok ())"
    and "list_all2 (\<lambda>contents m. from_json J contents = Ok m) sent ms"
    and "\<forall>m\<in>set ms. rm_round m = 1" and "length ms = unat (threshold params)" and "ms \<noteq> []"
  shows "wait_for_driver E J ParticipantProtocolDriver steps
      (json_events (session_id session) (map (Pair peer) sent) @ others) b =
    Some (steps, others, transport b', Ok (sort (index # map rm_body ms)))"
proof -
  have "list_all2 (\<lambda>(peer, contents) m. from_json J contents = Ok m) (map (Pair peer) sent) ms"
    using assms(3) by (simp add: list_all2_map1)
  from exchange_leaves_rest [OF assms(1,2) this assms(4-6)] show ?thesis .
qed

theorem single_peer_decides_parties_witness:
  "\<exists>b t'. ParticipantDriver_new sample_env (connected_party 5 6) \<lparr>parties = 3, threshold = 2\<rparr> pair_session 9 = Ok b \<and>
    wait_for_driver sample_env index_json ParticipantProtocolDriver []
      (json_events sample_uuid [([6], [1, 2, 3]), ([6], [1, 3, 8])] @ json_events sample_uuid [([7], [1, 3, 4])]) b =
      Some ([], json_events sample_uuid [([7], [1, 3, 4])], t', Ok [3, 8, 9])"
proof -
  let ?m = "\<lambda>s v. \<lparr>rm_round = 1, rm_sender = s, rm_receiver = None, rm_body = v\<rparr> :: u16 round_msg"
  obtain b b' where b: "ParticipantDriver_new sample_env (connected_party 5 6) \<lparr>parties = 3, threshold = 2\<rparr> pair_session 9 = Ok b"
    "execute sample_env index_json ParticipantProtocolDriver b = (b', Ok ())"
    using connected_party_runs [of 5 6 "\<lparr>parties = 3, threshold = 2\<rparr>" 9] by auto
  have j: "list_all2 (\<lambda>contents m. from_json index_json contents = Ok m) [[1, 2, 3], [1, 3, 8]] [?m 2 3, ?m 3 8]"
    by (simp add: index_json_def)
  have s: "session_id pair_session = sample_uuid" "sort (9 # map rm_body [?m 2 3, ?m 3 8]) = [3, 8, 9]"
    by (simp_all add: pair_session_def)
  have "\<forall>m\<in>set [?m 2 3, ?m 3 8]. rm_round m = 1" "length [?m 2 3, ?m 3 8] = unat (threshold \<lparr>parties = 3, threshold = 2\<rparr>)"
    "[?m 2 3, ?m 3 8] \<noteq> []" by simp_all
  from single_peer_decides_parties [OF b j this, of "[]" "[6]" "json_events sample_uuid [([7], [1, 3, 4])]", unfolded s] b(1)
  show ?thesis by auto
qed

end
