(* ===== verification/Protocol_Results.thy ===== *)
theory Protocol_Results
  imports Protocol_Runs
begin

text \<open>
  Whole runs of the two entry points (\<open>keygen\<close> and \<open>sign\<close> of \<open>driver/src/lib.rs\<close>): what a key share
  that is returned has to do with the protocol, and what is known of a returned signature. The
  traits \<open>Driver\<close> and \<open>Into<Transport>\<close> of the drivers, with their implementations, come first.
\<close>

subsection \<open>The trait of drivers\<close>

record ('h, 't, 's, 'o) driver_impl =
  drv_handle_event :: "client_event \<Rightarrow> 's \<Rightarrow> 's \<times> (gg20_error, 'o option) outcome"
  drv_execute :: "'s \<Rightarrow> 's \<times> (gg20_error, unit) outcome"
  drv_into :: "'s \<Rightarrow> ('h, 't) transport"
  drv_step :: "('h, 't) loop_step \<Rightarrow> 's \<Rightarrow> 's \<times> (client_error, client_event) outcome list"

text \<open>
  \<open>drv_step\<close> is a step of the event loop, which shares its state with the transport inside the
  driver. The implementations delegate to the bridge.
\<close>

definition bridge_impl ::
  "('h, 't) env \<Rightarrow> 'b json_ops \<Rightarrow> ('d, 'b, 'o) protocol_driver \<Rightarrow> ('h, 't, ('h, 't, 'd, 'b) bridge, 'o) driver_impl" where
  "bridge_impl E J D = \<lparr>drv_handle_event = handle_event E J D, drv_execute = execute E J D, drv_into = transport,
     drv_step = step_bridge\<rparr>"

definition KeyGenDriver where
  "KeyGenDriver E K = bridge_impl E (keygen_json K) (KeygenDriver K)"

definition ParticipantDriver where
  "ParticipantDriver E J = bridge_impl E J ParticipantProtocolDriver"

definition PreSignDriver where
  "PreSignDriver E P = bridge_impl E (offline_json P) (SignOfflineDriver P)"

definition SignatureDriver where
  "SignatureDriver E keccak S = bridge_impl E (online_json S) (SignOnlineDriver E keccak S)"

lemmas driver_impls = KeyGenDriver_def ParticipantDriver_def PreSignDriver_def SignatureDriver_def

text \<open>\<open>wait_for_driver\<close> for any implementation of the trait.\<close>

definition run_driver ::
  "('h, 't, 's, 'o) driver_impl \<Rightarrow> ('h, 't) loop_step list \<Rightarrow> (client_error, client_event) outcome list \<Rightarrow> 's \<Rightarrow>
   ('h, 't, gg20_error, 'o) waited" where
  "run_driver V steps events s =
     (case drv_execute V s of
        (s, Ok _) \<Rightarrow>
          map_option (\<lambda>(steps, events, s, x). (steps, events, drv_into V s, x))
            (wait_loop GG20_Client (drv_handle_event V) (drv_step V) steps events s)
      | (s, Err e) \<Rightarrow> Some (steps, events, drv_into V s, Err e)
      | (s, Panic) \<Rightarrow> Some (steps, events, drv_into V s, Panic))"

lemma run_driver_bridge: "run_driver (bridge_impl E J D) = wait_for_driver E J D"
  by (intro ext) (simp add: run_driver_def bridge_impl_def wait_for_driver_def split: prod.split outcome.split)

lemma run_drivers:
  "run_driver (KeyGenDriver E K) = wait_for_driver E (keygen_json K) (KeygenDriver K)"
  "run_driver (ParticipantDriver E J) = wait_for_driver E J ParticipantProtocolDriver"
  "run_driver (PreSignDriver E P) = wait_for_driver E (offline_json P) (SignOfflineDriver P)"
  "run_driver (SignatureDriver E keccak S) = wait_for_driver E (online_json S) (SignOnlineDriver E keccak S)"
  by (simp_all add: driver_impls run_driver_bridge)

subsection \<open>What a driver returns\<close>

text \<open>
  A property of the state of a protocol driver that its operations keep holds of the state whose
  result is returned.
\<close>

definition driver_holds :: "('d \<Rightarrow> bool) \<Rightarrow> ('h, 't, 'd, 'b) bridge \<Rightarrow> bool" where
  "driver_holds P b \<longleftrightarrow> (\<forall>d. driver b = Some d \<longrightarrow> P d)"

lemma driver_holds_cong: "driver b' = driver b \<Longrightarrow> driver_holds P b' = driver_holds P b"
  by (simp add: driver_holds_def)

lemma wait_loop_result:
  assumes "I s" and "\<And>event s. I s \<Longrightarrow> I (fst (handle event s))" and "\<And>step s. I s \<Longrightarrow> I (fst (advance step s))"
    and "wait_loop conv handle advance steps events s = Some (steps', events', s', Ok x)"
  obtains event u u' where "I u" "handle event u = (u', Ok (Some x))"
  using assms
proof (induction conv handle advance steps events s rule: wait_loop.induct)
  case (2 conv handle advance step steps s)
  obtain u es where u: "advance step s = (u, es)" by fastforce
  then have "I u" using "2.prems"(2) "2.prems"(4) [of s step] by simp
  then show ?case using "2.IH" [OF refl, of u es] "2.prems" u by simp
next
  case (5 conv handle advance steps event events s)
  obtain u y where u: "handle event s = (u, y)" by fastforce
  then have i: "I u" using "5.prems"(2) "5.prems"(3) [of s event] by simp
  show ?case
  proof (cases "y = Ok None")
    case True
    then show ?thesis using "5.IH" [of u y None] "5.prems" u i by simp
  next
    case False
    then have "y = Ok (Some x)" using "5.prems"(5) u by (auto split: outcome.splits option.splits)
    then show ?thesis using "5.prems"(1,2) u by blast
  qed
qed simp_all

text \<open>A handler leaves such a state, and what it returns is the result of such a state.\<close>

definition returns_from ::
  "('d, 'b, 'o) protocol_driver \<Rightarrow> ('d \<Rightarrow> bool) \<Rightarrow> ('h, 't, 'd, 'b, 'o option) bridged \<Rightarrow> bool" where
  "returns_from D P r \<longleftrightarrow> driver_holds P (fst r) \<and> (\<forall>x. snd r = Ok (Some x) \<longrightarrow> (\<exists>d. P d \<and> finish D d = Ok x))"

locale driver_property =
  fixes D :: "('d, 'b, 'o) protocol_driver" and P :: "'d \<Rightarrow> bool"
  assumes kept_handle: "P d \<Longrightarrow> P (fst (handle_incoming D m d))"
    and kept_proceed: "P d \<Longrightarrow> P (fst (proceed D d))"
begin

lemma holds_with:
  assumes "driver_holds P b" and "\<And>d. P d \<Longrightarrow> P (fst (f d))"
  shows "driver_holds P (fst (with_driver f b))"
proof (cases "driver b")
  case (Some d)
  then have "P (fst (f d))" using assms by (simp add: driver_holds_def)
  then show ?thesis using Some by (cases "f d") (simp add: with_driver_def driver_holds_def)
qed (use assms in \<open>simp add: with_driver_def\<close>)

lemma holds_then:
  assumes "driver_holds P (fst m)" and "\<And>b x. m = (b, Ok x) \<Longrightarrow> driver_holds P b \<Longrightarrow> driver_holds P (fst (f b x))"
  shows "driver_holds P (fst (st_then m f id))"
  using assms by (cases m; cases "snd m") auto

lemma holds_handle_all: "driver_holds P b \<Longrightarrow> driver_holds P (fst (handle_all D ms b))"
proof (induction ms arbitrary: b)
  case (Cons m ms)
  show ?case unfolding handle_all.simps
    by (rule holds_then) (use Cons holds_with kept_handle in blast)+
qed simp

lemma holds_dispatch: "driver_holds P b \<Longrightarrow> driver_holds P (fst (dispatch_round_messages E J ms b))"
  using driver_holds_cong [OF driver_dispatch] by blast

lemma holds_execute: "driver_holds P b \<Longrightarrow> driver_holds P (fst (execute E J D b))"
  unfolding execute_def by (rule holds_then) (use holds_with kept_proceed holds_dispatch in blast)+

lemma returns_then:
  assumes "driver_holds P (fst m)" and "\<And>b x. m = (b, Ok x) \<Longrightarrow> driver_holds P b \<Longrightarrow> returns_from D P (f b x)"
  shows "returns_from D P (st_then m f id)"
  using assms by (cases m; cases "snd m") (auto simp: returns_from_def)

lemma returns_finish: "driver_holds P b \<Longrightarrow> returns_from D P (take_and_finish D b)"
  by (cases "driver b") (auto simp: returns_from_def take_and_finish_def driver_holds_def outcome_simps)

lemma returns_process_round: "driver_holds P b \<Longrightarrow> returns_from D P (process_round E J D r ms b)"
  unfolding process_round_def
  by (rule returns_then)
     (auto intro!: returns_then returns_finish holds_handle_all holds_dispatch
        intro: holds_with [OF _ kept_proceed] simp: returns_from_def [of _ _ "(_, Ok None)"])

lemma returns_handle_event:
  assumes "driver_holds P b"
  shows "returns_from D P (handle_event E J D event b)"
proof (rule json_event_cases [where event = event and sid = "session_id (bridge_session b)" and J = J and es = "[]"
      and b = b and E = E and D = D])
  fix peer contents m
  assume "event = JsonMessage peer contents (Some (session_id (bridge_session b)))" "from_json J contents = Ok m"
  then show ?thesis
    using returns_process_round [of "b\<lparr>buffer := _\<rparr>"] assms
    by (auto simp: handle_event_feed returns_from_def [of _ _ "(_, Ok None)"] driver_holds_def
        simp del: handle_event.simps split: prod.split option.split)
next
  assume "session_id (bridge_session b) = session_id (bridge_session b) \<Longrightarrow> fst (handle_event E J D event b) = b \<and>
       snd (handle_event E J D event b) \<notin> range (\<lambda>x. Ok (Some x))"
  then show ?thesis using assms by (auto simp: returns_from_def)
qed

lemma loop_returns:
  assumes "driver_holds P b" and "bridge_loop E J D steps events b = Some (steps', events', b', Ok x)"
  shows "\<exists>d. P d \<and> finish D d = Ok x"
proof -
  obtain event c c' where "driver_holds P c" "handle_event E J D event c = (c', Ok (Some x))"
  proof (rule wait_loop_result [where I = "driver_holds P", OF assms(1) _ _ assms(2)])
    show "driver_holds P (fst (handle_event E J D event c))" if "driver_holds P c" for event c
      using returns_handle_event [OF that] by (simp add: returns_from_def)
    show "driver_holds P (fst (step_bridge step c))" if "driver_holds P c" for step c
      using that driver_holds_cong [OF step_bridge_frame(1)] by blast
  qed
  then show ?thesis using returns_handle_event [of c E J event] by (simp add: returns_from_def)
qed

lemma driver_returns:
  assumes "driver b = Some d" and "P d" and "wait_for_driver E J D steps events b = Some (steps', events', t, Ok x)"
  shows "\<exists>d. P d \<and> finish D d = Ok x"
proof -
  obtain c y where c: "execute E J D b = (c, y)" by fastforce
  have "driver_holds P b" using assms(1,2) by (simp add: driver_holds_def)
  from holds_execute [OF this, of E J] have "driver_holds P c" using c by simp
  then show ?thesis using assms(3) c loop_returns by (cases y) (auto simp: wait_for_driver_def)
qed

end

text \<open>The state of the last stage of a signature keeps the message and the public key.\<close>

interpretation online: driver_property "SignOnlineDriver E keccak S" "\<lambda>d. on_data d = data \<and> on_public_key d = point"
  for E keccak S data point
  by unfold_locales (simp_all add: SignOnlineDriver_def)

subsection \<open>Runs that succeed\<close>

lemma run_then_Ok: "run_then r f = Some (Ok y) \<longleftrightarrow> (\<exists>x. r = Ok x \<and> f x = Some (Ok y))"
  by (cases r) auto

lemma wait_then_Ok:
  "wait_then conv r f = Some (Ok y) \<longleftrightarrow> (\<exists>steps events t x. r = Some (steps, events, t, Ok x) \<and> f steps events t x = Some (Ok y))"
  by (cases "(conv, r, f)" rule: wait_then.cases) auto

lemmas run_simps = run_then_Ok wait_then_Ok

lemma close_Ok:
  "(case transport_close t of (t, x) \<Rightarrow> run_then (map_err Driver_Client x) (\<lambda>_.
      wait_then id (wait_for_close steps events t) (\<lambda>_ _ _ _. Some result))) = Some (Ok y) \<Longrightarrow> result = Ok y"
  by (cases "transport_close t") (auto simp: run_simps)

lemma close_run_Ok: "close_run E i sid result steps events t = Some (Ok y) \<Longrightarrow> result = Ok y"
  unfolding close_run_def Let_def
  by (cases "transport_close_session E sid t") (auto simp: run_simps split: if_splits dest!: close_Ok)

abbreviation session_start :: "bytes list option \<Rightarrow> ('h, 't) transport \<Rightarrow> ('h, 't) session_handler" where
  "session_start invited t \<equiv> (case invited of
      Some keys \<Rightarrow> Initiator (SessionInitiator_new t keys) | None \<Rightarrow> Participant (SessionParticipant_new t))"

lemma open_session_Ok:
  assumes "open_session E random peer_random dial opts invited steps continue = Some (Ok y)"
  obtains client t0 steps' events' t session where "new_client E random dial opts = Ok client"
    "transport_connect E (Relay client) = (t0, Ok ())"
    "wait_for_session E peer_random steps [] (session_start invited t0) = Some (steps', events', t, Ok session)"
    "continue steps' events' t session = Some (Ok y)"
proof -
  obtain client where c: "new_client E random dial opts = Ok client"
    using assms by (auto simp: open_session_def run_simps)
  obtain t0 x where "transport_connect E (Relay client) = (t0, x)" by fastforce
  then show ?thesis using assms c by (auto simp: open_session_def run_simps intro: that)
qed

lemma to_key_share_Ok:
  "to_key_share E keccak L key = Ok share \<longleftrightarrow> key_public L key \<noteq> [] \<and>
     share = \<lparr>private_key = PrivateKey_GG20 key, ks_public_key = key_public L key,
       ks_address = ''0x'' @ hex_encode E (drop 12 (keccak (drop 1 (key_public L key))))\<rparr>"
  by (auto simp: to_key_share_def address_def)

text \<open>
  C7: A key share that \<open>keygen\<close> returns is the result of the protocol. The run has connected,
  waited for its session, and built the driver of this session; if the messages that it received
  of the other parties came in the order of their rounds, the local key is what the state machine
  of key generation on its own gives on the complete rounds 1 to 4 of these messages, and the
  share has the public key and the address of this local key.
\<close>

theorem keygen_share_of_protocol:
  assumes "keygen E keccak L K random peer_random dial opts invited steps = Some (Ok share)"
    and "1 \<le> parties (so_parameters opts)"
  shows "\<exists>client t0 steps1 events1 t session b d key.
    new_client E random dial opts = Ok client \<and> transport_connect E (Relay client) = (t0, Ok ()) \<and>
    wait_for_session E peer_random steps [] (session_start invited t0) = Some (steps1, events1, t, Ok session) \<and>
    KeyGenDriver_new E K t (so_parameters opts) session = Ok b \<and> driver b = Some d \<and>
    (\<forall>S. finite S \<and> S \<noteq> {} \<and> card S = unat (parties (so_parameters opts) - 1) \<and>
       in_order msg_sender S 4 (rounds_of (messages_seen E (keygen_json K) (KeygenDriver K) steps1 events1
         (fst (execute E (keygen_json K) (KeygenDriver K) b)))) \<longrightarrow>
       drive (KeygenDriver K) 4 (first_rounds 4 (messages_seen E (keygen_json K) (KeygenDriver K) steps1 events1
         (fst (execute E (keygen_json K) (KeygenDriver K) b)))) (fst (proceed (KeygenDriver K) d)) = Some (Ok key)) \<and>
    share = \<lparr>private_key = PrivateKey_GG20 key, ks_public_key = key_public L key,
      ks_address = ''0x'' @ hex_encode E (drop 12 (keccak (drop 1 (key_public L key))))\<rparr>"
proof -
  let ?D = "KeygenDriver K" and ?J = "keygen_json K"
  have "gg20_keygen E keccak L K random peer_random dial opts invited steps = Some (Ok share)"
    using assms(1) by (simp add: keygen_def split: protocol.splits)
  then obtain client t0 steps1 events1 t session where o: "new_client E random dial opts = Ok client"
    "transport_connect E (Relay client) = (t0, Ok ())"
    "wait_for_session E peer_random steps [] (session_start invited t0) = Some (steps1, events1, t, Ok session)"
    and r: "run_then (map_err Driver_GG20 (KeyGenDriver_new E K t (so_parameters opts) session)) (\<lambda>b.
         wait_then Driver_GG20 (wait_for_driver E ?J ?D steps1 events1 b)
           (\<lambda>steps events t key.
             close_run E (invited \<noteq> None) (session_id session) (to_key_share E keccak L key) steps events t)) = Some (Ok share)"
    unfolding gg20_keygen_def by (rule open_session_Ok) blast
  from r obtain b where b: "KeyGenDriver_new E K t (so_parameters opts) session = Ok b"
    and w: "wait_then Driver_GG20 (wait_for_driver E ?J ?D steps1 events1 b)
           (\<lambda>steps events t key.
             close_run E (invited \<noteq> None) (session_id session) (to_key_share E keccak L key) steps events t) = Some (Ok share)"
    unfolding run_then_Ok map_err_eq_Ok by blast
  from w obtain steps2 events2 t2 key where k: "wait_for_driver E ?J ?D steps1 events1 b = Some (steps2, events2, t2, Ok key)"
    "close_run E (invited \<noteq> None) (session_id session) (to_key_share E keccak L key) steps2 events2 t2 = Some (Ok share)"
    unfolding wait_then_Ok by blast
  obtain d where d: "driver b = Some d" using KeyGenDriver_new_Ok(1) [OF b assms(2)] by blast
  have "drive ?D 4 (first_rounds 4 (messages_seen E ?J ?D steps1 events1 (fst (execute E ?J ?D b)))) (fst (proceed ?D d)) = Some (Ok key)"
    if S: "finite S" "S \<noteq> {}" "card S = unat (parties (so_parameters opts) - 1)"
      "in_order msg_sender S 4 (rounds_of (messages_seen E ?J ?D steps1 events1 (fst (execute E ?J ?D b))))" for S
  proof -
    have "card S \<le> 65535" "buffer b = new_fixed (of_nat 4) (of_nat (card S))"
      using unat_lt2p_u16 [of "parties (so_parameters opts) - 1"] KeyGenDriver_new_Ok(2) [OF b assms(2)] S(3) by simp_all
    from bridge_run [OF S(1,2) this(1) _ _ this(2) d prod.collapse [symmetric] refl S(4)] k(1)
    show ?thesis by simp
  qed
  moreover have "share = \<lparr>private_key = PrivateKey_GG20 key, ks_public_key = key_public L key,
      ks_address = ''0x'' @ hex_encode E (drop 12 (keccak (drop 1 (key_public L key))))\<rparr>"
    using close_run_Ok [OF k(2)] by (simp add: to_key_share_Ok)
  ultimately show ?thesis using o b d by blast
qed

text \<open>A machine of four rounds that adds up what it receives, and the run of a party with one peer.\<close>

definition adding_machine :: "(nat, nat, nat) state_machine" where
  "adding_machine = \<lparr>sm_handle_incoming = (\<lambda>m d. (d + msg_body m, Ok ())), sm_proceed = (\<lambda>d. (d, Ok ())),
     message_queue = (\<lambda>_. []), clear_queue = id, current_round = (\<lambda>_. 1), pick_output = (\<lambda>d. Some (Ok d))\<rparr>"

definition adding_keygen :: "(nat, nat, nat) keygen_ops" where
  "adding_keygen = \<lparr>Keygen_new = (\<lambda>_ _ _. Ok 0), keygen_machine = adding_machine, keygen_json = sample_json\<rparr>"

definition nat_keys :: "nat local_key_ops" where
  "nat_keys = \<lparr>key_index = of_nat, key_public = (\<lambda>k. [4, of_nat k])\<rparr>"

definition pair_options :: session_options where
  "pair_options = \<lparr>so_protocol = Protocol_GG20, so_keypair = \<lparr>kp_public = [5], kp_private = [0]\<rparr>,
     so_server = \<lparr>server_url = [], so_server_key = [1], so_pattern = None\<rparr>, so_parameters = \<lparr>parties = 2, threshold = 1\<rparr>\<rparr>"

definition pair_steps :: "(bool \<times> nat, nat \<times> nat) loop_step" where
  "pair_steps = (\<lambda>c. (c, Ok (Ev_SessionActive pair_session) #
     json_events sample_uuid [([6], [1, 2, 10]), ([6], [2, 2, 20]), ([6], [3, 2, 30]), ([6], [4, 2, 40])] @ [Ok Ev_Close]))"

definition pair_client :: "(bool \<times> nat, nat \<times> nat) client" where
  "pair_client = (sample_client [5])\<lparr>server_channel := Some (Handshake (True, 1)),
     outbound := [Internal_Request (Request_Transparent (ServerHandshake (Handshake_Initiator 1 (write_into (replicate 1024 0) [1]))))]\<rparr>"

lemma pair_connects:
  "new_client sample_env 0 (\<lambda>_. Ok (SWITCHING_PROTOCOLS, [])) pair_options = Ok (sample_client [5])"
  "transport_connect sample_env (Relay (sample_client [5])) = (Relay pair_client, Ok ())"
  by (simp_all add: new_client_def pair_options_def client_new_def ClientOptions_params_def sample_client_def Let_def
      transport_connect_def client_connect_def outbound_send_def pair_client_def sample_env_def counter_snow_def)

lemma pair_session_found:
  "wait_for_session sample_env (\<lambda>_. 0) (pair_steps # steps) [] (Participant (SessionParticipant_new (Relay pair_client))) =
     Some (steps, tl (snd (pair_steps pair_client)), Relay pair_client, Ok pair_session)"
  by (simp add: wait_for_session_def pair_steps_def SessionParticipant_new_def participant_handle_event_def)

abbreviation pair_bridge :: "(bool \<times> nat, nat \<times> nat, nat, nat) bridge" where
  "pair_bridge \<equiv> \<lparr>transport = Relay pair_client, buffer = new_fixed 4 1, driver = Some 0, bridge_session = pair_session\<rparr>"

lemma pair_driver:
  "KeyGenDriver_new sample_env adding_keygen (Relay pair_client) (so_parameters pair_options) pair_session = Ok pair_bridge"
  by (simp add: KeyGenDriver_new_def pair_options_def own_party_number_def pair_client_def sample_client_def pair_session_def
      KeygenDriver_new_def adding_keygen_def party_number_def checked_sub_def sample_env_def
      client_public_key_def PartyNumber_new_def)

lemma new_fixed_4: "new_fixed 4 1 = \<lparr>expected = [(1, 1), (2, 1), (3, 1), (4, 1)], buffered = Map.empty\<rparr>"
  by (simp add: new_fixed_def upt_rec)

lemmas pair_defs = sample_json_def adding_keygen_def adding_machine_def KeygenDriver_def machine_handle_incoming_def
  machine_proceed_def machine_finish_def deserialize_def Let_def add_message_def is_ready_def
  take_round_def new_fixed_4 buffer_len_def msg_of_round_def with_driver_def dispatch_round_messages_def
  take_and_finish_def execute_def pair_steps_def json_events_def pair_session_def

lemma pair_keygen:
  "wait_for_driver sample_env sample_json (KeygenDriver adding_keygen) [] (tl (snd (pair_steps pair_client))) pair_bridge =
     Some ([], [Ok Ev_Close], Relay pair_client, Ok 100)"
  by (simp add: wait_for_driver_def pair_defs)

abbreviation pair_run :: "(gg20_error driver_error, nat key_share) outcome option" where
  "pair_run \<equiv> keygen sample_env id nat_keys adding_keygen 0 (\<lambda>_. 0) (\<lambda>_. Ok (SWITCHING_PROTOCOLS, [])) pair_options None
     [pair_steps]"

abbreviation pair_share :: "nat key_share" where
  "pair_share \<equiv> \<lparr>private_key = PrivateKey_GG20 100, ks_public_key = [4, 100], ks_address = ''0xhex''\<rparr>"

lemma pair_runs: "pair_run = Some (Ok pair_share)"
proof -
  have "gg20_keygen sample_env id nat_keys adding_keygen 0 (\<lambda>_. 0) (\<lambda>_. Ok (SWITCHING_PROTOCOLS, [])) pair_options None
      [pair_steps] = close_run sample_env False sample_uuid (to_key_share sample_env id nat_keys 100) [] [Ok Ev_Close] (Relay pair_client)"
    using pair_keygen pair_driver
    by (simp add: gg20_keygen_def open_session_def pair_connects pair_session_found adding_keygen_def [THEN arg_cong [where f = keygen_json]])
       (simp add: pair_session_def)
  then show ?thesis
    by (simp add: keygen_def pair_options_def close_run_def transport_close_def client_close_def outbound_send_def
        pair_client_def sample_client_def wait_for_close_def to_key_share_def address_def nat_keys_def sample_env_def)
qed

theorem keygen_share_of_protocol_witness:
  "pair_run = Some (Ok pair_share) \<and>
   drive (KeygenDriver adding_keygen) 4 (first_rounds 4 (messages_seen sample_env sample_json (KeygenDriver adding_keygen) []
     (tl (snd (pair_steps pair_client))) pair_bridge)) 0 = Some (Ok 100)"
proof -
  let ?D = "KeygenDriver adding_keygen" and ?es = "tl (snd (pair_steps pair_client))"
  have j: "keygen_json adding_keygen = sample_json" by (simp add: adding_keygen_def)
  have e: "fst (execute sample_env sample_json ?D pair_bridge) = pair_bridge" "fst (proceed ?D 0) = 0" by (simp_all add: pair_defs)
  have n: "1 \<le> parties (so_parameters pair_options)" "card {2 :: u16} = unat (parties (so_parameters pair_options) - 1)"
    by (simp_all add: pair_options_def)
  have m: "messages_seen sample_env sample_json ?D [] ?es pair_bridge =
      map (\<lambda>r. \<lparr>rm_round = of_nat r, rm_sender = 2, rm_receiver = None, rm_body = 10 * r\<rparr>) [1, 2, 3, 4]"
    by (simp add: messages_seen_def pair_defs)
  have o: "in_order msg_sender {2 :: u16} 4 (rounds_of (messages_seen sample_env sample_json ?D [] ?es pair_bridge))"
    unfolding m by (simp add: in_order_def progress_def rounds_of_def msg_of_round_def)
  show ?thesis
    by (rule conjI [OF pair_runs], use keygen_share_of_protocol [OF pair_runs n(1)] n(2) o in
        \<open>auto simp: pair_connects pair_session_found pair_driver j e\<close>)
qed

subsection \<open>Signatures\<close>

lemma SignatureDriver_new_Ok:
  assumes "SignatureDriver_new E S t params session stage message = Ok b"
  shows "\<exists>d. driver b = Some d \<and> on_data d = bigint_from_bytes S message \<and> on_public_key d = stage_public_key S stage"
  using assms by (auto simp: SignatureDriver_new_def SignOnlineDriver_new_def outcome_simps)

lemma online_finish_Ok:
  "online_finish E keccak S d = Ok sig \<longleftrightarrow>
     sign_complete S (on_sign d) (on_partials d) = Ok (sig_signature sig) \<and>
     verify S (sig_signature sig) (on_public_key d) (on_data d) \<and> sig_public_key sig = point_bytes S (on_public_key d) \<and>
     address E keccak (point_bytes S (on_public_key d)) = (Ok (sig_address sig) :: (gg20_error, string) outcome)"
  by (cases sig) (auto simp: online_finish_def outcome_simps)

lemma non_zero_Ok: "non_zero n = Ok i \<Longrightarrow> i = n"
  by (simp add: non_zero_def PartyNumber_new_def split: if_splits)

lemma PreSignDriver_new_member: "PreSignDriver_new L P t params session key indices = Ok b \<Longrightarrow> key_index L key \<in> set indices"
  by (auto simp: PreSignDriver_new_def outcome_simps position_Some_iff in_set_conv_nth)

lemma signature_verifies:
  assumes "SignatureDriver_new E S t params session stage message = Ok b"
    and "wait_for_driver E (online_json S) (SignOnlineDriver E keccak S) steps events b = Some (steps', events', t', Ok sig)"
  shows "verify S (sig_signature sig) (stage_public_key S stage) (bigint_from_bytes S message) \<and>
    sig_public_key sig = point_bytes S (stage_public_key S stage) \<and>
    address E keccak (sig_public_key sig) = (Ok (sig_address sig) :: (gg20_error, string) outcome)"
proof -
  obtain d0 where "driver b = Some d0"
    "on_data d0 = bigint_from_bytes S message \<and> on_public_key d0 = stage_public_key S stage"
    using SignatureDriver_new_Ok [OF assms(1)] by blast
  from online.driver_returns [OF this assms(2)] obtain d where "online_finish E keccak S d = Ok sig"
    "on_data d = bigint_from_bytes S message" "on_public_key d = stage_public_key S stage"
    by (auto simp: SignOnlineDriver_def)
  then show ?thesis by (auto simp: online_finish_Ok)
qed

text \<open>
  C6: A signature that \<open>sign\<close> returns verifies. The run has agreed with the other parties on the
  list of key indices, with the own one in it, has completed the offline stage of these parties,
  and the signature is one of the message given to \<open>sign\<close> under the public key of this stage; the
  public key and the address that come with it are those of the stage. Whatever the peers send,
  the run returns nothing else.
\<close>

theorem returned_signature_verifies:
  assumes "sign E keccak L J P S random peer_random dial opts invited (PrivateKey_GG20 key) message steps =
    Some (Ok (Signature_GG20 sig))"
  shows "\<exists>session steps1 events1 t1 b1 steps2 events2 t2 indices b2 steps3 events3 t3 stage.
    ParticipantDriver_new E t1 (so_parameters opts) session (key_index L key) = Ok b1 \<and>
    wait_for_driver E J ParticipantProtocolDriver steps1 events1 b1 = Some (steps2, events2, t2, Ok indices) \<and>
    key_index L key \<in> set indices \<and> PreSignDriver_new L P t2 (so_parameters opts) session key indices = Ok b2 \<and>
    wait_for_driver E (offline_json P) (SignOfflineDriver P) steps2 events2 b2 = Some (steps3, events3, t3, Ok stage) \<and>
    verify S (sig_signature sig) (stage_public_key S stage) (bigint_from_bytes S message) \<and>
    sig_public_key sig = point_bytes S (stage_public_key S stage) \<and>
    address E keccak (sig_public_key sig) = (Ok (sig_address sig) :: (gg20_error, string) outcome)"
proof -
  let ?participants = "wait_for_driver E J ParticipantProtocolDriver"
  let ?offline = "wait_for_driver E (offline_json P) (SignOfflineDriver P)"
  let ?online = "wait_for_driver E (online_json S) (SignOnlineDriver E keccak S)"
  have "gg20_sign E keccak L J P S random peer_random dial opts invited key message steps = Some (Ok sig)"
    using assms by (auto simp: sign_def outcome_simps split: protocol.splits)
  then obtain steps1 events1 t1 session where
    s: "run_then (non_zero (key_index L key)) (\<lambda>index.
     run_then (map_err Driver_GG20 (ParticipantDriver_new E t1 (so_parameters opts) session index)) (\<lambda>b.
     wait_then Driver_GG20 (?participants steps1 events1 b) (\<lambda>steps events t indices.
     run_then (map_err Driver_GG20 (PreSignDriver_new L P t (so_parameters opts) session key indices)) (\<lambda>b.
     wait_then Driver_GG20 (?offline steps events b) (\<lambda>steps events t stage.
     run_then (map_err Driver_GG20 (SignatureDriver_new E S t (so_parameters opts) session stage message)) (\<lambda>b.
     wait_then Driver_GG20 (?online steps events b)
       (\<lambda>steps events t sig.
         close_run E (invited \<noteq> None) (session_id session) (Ok sig) steps events t))))))) = Some (Ok sig)"
    unfolding gg20_sign_def by (rule open_session_Ok)
  then obtain b1 steps2 events2 t2 indices where p: "ParticipantDriver_new E t1 (so_parameters opts) session (key_index L key) = Ok b1"
    "?participants steps1 events1 b1 = Some (steps2, events2, t2, Ok indices)"
    and r: "run_then (map_err Driver_GG20 (PreSignDriver_new L P t2 (so_parameters opts) session key indices)) (\<lambda>b.
     wait_then Driver_GG20 (?offline steps2 events2 b) (\<lambda>steps events t stage.
     run_then (map_err Driver_GG20 (SignatureDriver_new E S t (so_parameters opts) session stage message)) (\<lambda>b.
     wait_then Driver_GG20 (?online steps events b)
       (\<lambda>steps events t sig.
         close_run E (invited \<noteq> None) (session_id session) (Ok sig) steps events t)))) = Some (Ok sig)"
    using non_zero_Ok unfolding run_then_Ok wait_then_Ok [where r = "?participants _ _ _"] map_err_eq_Ok by blast
  then obtain b2 steps3 events3 t3 stage where o: "PreSignDriver_new L P t2 (so_parameters opts) session key indices = Ok b2"
    "?offline steps2 events2 b2 = Some (steps3, events3, t3, Ok stage)"
    and r: "run_then (map_err Driver_GG20 (SignatureDriver_new E S t3 (so_parameters opts) session stage message)) (\<lambda>b.
     wait_then Driver_GG20 (?online steps3 events3 b)
       (\<lambda>steps events t sig.
         close_run E (invited \<noteq> None) (session_id session) (Ok sig) steps events t)) = Some (Ok sig)"
    unfolding run_then_Ok wait_then_Ok [where r = "?offline _ _ _"] map_err_eq_Ok by blast
  then obtain b3 steps4 events4 t4 sig' where f: "SignatureDriver_new E S t3 (so_parameters opts) session stage message = Ok b3"
    "?online steps3 events3 b3 = Some (steps4, events4, t4, Ok sig')"
    "close_run E (invited \<noteq> None) (session_id session) (Ok sig') steps4 events4 t4 = Some (Ok sig)"
    unfolding run_simps map_err_eq_Ok by blast
  have "sig' = sig" using close_run_Ok [OF f(3)] by simp
  then show ?thesis using p o signature_verifies [OF f(1,2)] PreSignDriver_new_member [OF o(1)] by blast
qed

text \<open>
  The party of key index 9 signs with the one of index 3: the offline stage adds up what it
  receives, and a signature is the sum of the partial signatures.
\<close>

definition adding_offline :: "(nat, nat, u16, nat) offline_ops" where
  "adding_offline = \<lparr>OfflineStage_new = (\<lambda>_ _ _. Ok 0), offline_machine = adding_machine, offline_json = sample_json\<rparr>"

definition adding_online :: "(nat, nat, u16, u16, nat, u16) online_ops" where
  "adding_online = \<lparr>bigint_from_bytes = (\<lambda>bs. of_nat (length bs)), stage_public_key = id, SignManual_new = (\<lambda>_ stage. Ok (stage, 7)),
     sign_complete = (\<lambda>_ ps. Ok (sum_list ps)), verify = (\<lambda>g _ n. g = n), point_bytes = (\<lambda>k. [4, of_nat k]),
     online_json = index_json\<rparr>"

abbreviation offline_events :: "(client_error, client_event) outcome list" where
  "offline_events \<equiv> json_events sample_uuid [([6], [1, 2, 10]), ([6], [2, 2, 20]), ([6], [3, 2, 30]), ([6], [4, 2, 40]),
     ([6], [5, 2, 50]), ([6], [6, 2, 60])]"

definition sign_steps :: "(bool \<times> nat, nat \<times> nat) loop_step list" where
  "sign_steps = (let conn = sample_client [5]\<lparr>peers := [[6] \<mapsto> Transport (0, 0)]\<rparr> in
     [\<lambda>_. (conn, Ok (Ev_SessionActive pair_session) # json_events sample_uuid [([6], [1, 2, 3])]),
      \<lambda>_. (conn, offline_events @ json_events sample_uuid [([6], [1, 2, 3])] @ [Ok Ev_Close])])"

lemmas broadcast_defs = own_party_number_def connected_party_def pair_session_def sample_client_def
  client_public_key_def party_number_def PartyNumber_new_def execute_def with_driver_def to_round_msg_def non_zero_def
  dispatch_round_messages_def is_broadcast_def recipients_def on_transport_def transport_broadcast_json_def broadcast_json_def
  index_json_def relay_def Chunk_split_def chunks_of.simps CHUNK_SIZE_def TAGLEN_def sample_env_def counter_snow_def outbound_send_def

lemma new_fixed_1: "new_fixed 1 1 = \<lparr>expected = [(1, 1)], buffered = Map.empty\<rparr>"
  by (simp add: new_fixed_def upt_rec)

lemma new_fixed_6: "new_fixed 6 1 = \<lparr>expected = [(1, 1), (2, 1), (3, 1), (4, 1), (5, 1), (6, 1)], buffered = Map.empty\<rparr>"
  by (simp add: new_fixed_def upt_rec)

lemma pair_participants:
  "\<exists>b c. ParticipantDriver_new sample_env (connected_party 5 6) \<lparr>parties = 2, threshold = 1\<rparr> pair_session 9 = Ok b \<and>
    wait_for_driver sample_env index_json ParticipantProtocolDriver steps (json_events sample_uuid [([6], [1, 2, 3])]) b =
      Some (steps, [], Relay c, Ok [3, 9])"
  by (simp add: ParticipantDriver_new_def ParticipantProtocolDriver_def ParticipantProtocolDriver_new_def broadcast_defs
      wait_for_driver_def new_fixed_1 deserialize_def Let_def add_message_def is_ready_def take_round_def buffer_len_def
      msg_of_round_def take_and_finish_def json_events_def)

lemma pair_offline:
  "\<exists>b. PreSignDriver_new sample_keys adding_offline (Relay c) \<lparr>parties = 2, threshold = 1\<rparr> pair_session 9 [3, 9] = Ok b \<and>
    wait_for_driver sample_env sample_json (SignOfflineDriver adding_offline) [\<lambda>_. (conn, offline_events @ rest)] [] b =
      Some ([], rest, Relay conn, Ok 210)"
  by (simp add: PreSignDriver_new_def SignOfflineDriver_new_def SignOfflineDriver_def adding_offline_def sample_keys_def
      new_fixed_6 pair_defs wait_for_driver_def step_bridge_def)

lemma pair_online:
  "\<exists>b c. SignatureDriver_new sample_env adding_online (connected_party 5 6) \<lparr>parties = 2, threshold = 1\<rparr> pair_session 210 [0, 0, 0] = Ok b \<and>
    wait_for_driver sample_env index_json (SignOnlineDriver sample_env id adding_online) []
      (json_events sample_uuid [([6], [1, 2, 3])] @ [Ok Ev_Close]) b =
      Some ([], [Ok Ev_Close], Relay c, Ok \<lparr>sig_signature = 3, sig_public_key = [4, 210], sig_address = ''0xhex''\<rparr>) \<and> outbound_open c"
  by (simp add: SignatureDriver_new_def SignOnlineDriver_new_def SignOnlineDriver_def adding_online_def online_finish_def address_def
      broadcast_defs wait_for_driver_def new_fixed_1 deserialize_def Let_def add_message_def is_ready_def take_round_def buffer_len_def
      msg_of_round_def take_and_finish_def json_events_def)

abbreviation pair_sign :: "(gg20_error driver_error, u16 any_signature) outcome option" where
  "pair_sign \<equiv> sign sample_env id sample_keys index_json adding_offline adding_online 0 (\<lambda>_. 0)
     (\<lambda>_. Ok (SWITCHING_PROTOCOLS, [])) pair_options None (PrivateKey_GG20 9) [0, 0, 0] sign_steps"

abbreviation pair_signature :: "u16 signature" where
  "pair_signature \<equiv> \<lparr>sig_signature = 3, sig_public_key = [4, 210], sig_address = ''0xhex''\<rparr>"

lemma sign_session_found:
  "wait_for_session sample_env (\<lambda>_. 0) sign_steps [] (Participant (SessionParticipant_new (Relay pair_client))) =
     Some (tl sign_steps, json_events sample_uuid [([6], [1, 2, 3])], connected_party 5 6, Ok pair_session)"
  by (simp add: wait_for_session_def sign_steps_def Let_def SessionParticipant_new_def participant_handle_event_def connected_party_def)

lemma pair_signs: "pair_sign = Some (Ok (Signature_GG20 pair_signature))"
proof -
  let ?conn = "sample_client [5]\<lparr>peers := [[6] \<mapsto> Transport (0, 0)]\<rparr>"
  have t: "tl sign_steps = [\<lambda>_. (?conn, offline_events @ json_events sample_uuid [([6], [1, 2, 3])] @ [Ok Ev_Close])]"
    by (simp add: sign_steps_def Let_def)
  have s: "non_zero (key_index sample_keys 9) = Ok 9" "session_id pair_session = sample_uuid"
    "so_parameters pair_options = \<lparr>parties = 2, threshold = 1\<rparr>" "so_protocol pair_options = Protocol_GG20"
    "offline_json adding_offline = sample_json" "online_json adding_online = index_json" "Relay ?conn = connected_party 5 6"
    by (simp_all add: non_zero_def PartyNumber_new_def sample_keys_def pair_session_def pair_options_def adding_offline_def
        adding_online_def connected_party_def)
  obtain b1 c1 where b1: "ParticipantDriver_new sample_env (connected_party 5 6) \<lparr>parties = 2, threshold = 1\<rparr> pair_session 9 = Ok b1"
    "wait_for_driver sample_env index_json ParticipantProtocolDriver (tl sign_steps) (json_events sample_uuid [([6], [1, 2, 3])]) b1 =
      Some (tl sign_steps, [], Relay c1, Ok [3, 9])"
    using pair_participants by blast
  obtain b2 where b2: "PreSignDriver_new sample_keys adding_offline (Relay c1) \<lparr>parties = 2, threshold = 1\<rparr> pair_session 9 [3, 9] = Ok b2"
    "wait_for_driver sample_env sample_json (SignOfflineDriver adding_offline) (tl sign_steps) [] b2 =
      Some ([], json_events sample_uuid [([6], [1, 2, 3])] @ [Ok Ev_Close], connected_party 5 6, Ok 210)"
    using pair_offline unfolding t s(7) [symmetric] by blast
  obtain b3 c3 where b3: "SignatureDriver_new sample_env adding_online (connected_party 5 6) \<lparr>parties = 2, threshold = 1\<rparr> pair_session 210 [0, 0, 0] = Ok b3"
    "wait_for_driver sample_env index_json (SignOnlineDriver sample_env id adding_online) []
      (json_events sample_uuid [([6], [1, 2, 3])] @ [Ok Ev_Close]) b3 = Some ([], [Ok Ev_Close], Relay c3, Ok pair_signature)" "outbound_open c3"
    using pair_online by blast
  show ?thesis
    by (simp add: sign_def gg20_sign_def open_session_def pair_connects sign_session_found s b1 b2 b3 close_run_def
        transport_close_def client_close_def outbound_send_def wait_for_close_def)
qed

theorem returned_signature_verifies_witness:
  "pair_sign = Some (Ok (Signature_GG20 pair_signature)) \<and>
   (\<exists>stage. verify adding_online 3 (stage_public_key adding_online stage) (bigint_from_bytes adding_online [0, 0, 0]) \<and>
     [4, 210] = point_bytes adding_online (stage_public_key adding_online stage))"
  using pair_signs returned_signature_verifies [OF pair_signs] by auto

subsection \<open>A peer that is ahead\<close>

text \<open>
  What a party sends when it starts the offline stage: the driver is created with the agreed key
  indices, and its first messages are serialised.
\<close>

definition starts_offline ::
  "'key local_key_ops \<Rightarrow> ('m, 'b, 'key, 'c) offline_ops \<Rightarrow> parameters \<Rightarrow> session_state \<Rightarrow> 'key \<Rightarrow> u16 list \<Rightarrow>
   ('h, 't) transport \<Rightarrow> bytes \<Rightarrow> bool" where
  "starts_offline L P params session key indices t contents \<longleftrightarrow>
     (\<exists>b d d' out m. PreSignDriver_new L P t params session key indices = Ok b \<and> driver b = Some d \<and>
        proceed (SignOfflineDriver P) d = (d', Ok out) \<and> m \<in> set out \<and> to_json (offline_json P) m = Ok contents)"

text \<open>
  The messages of two protocols have different JSON forms: the body of one is a number, that of the
  other an object, and \<open>serde\<close> refuses to read the one as the other.
\<close>

definition json_apart :: "'a json_ops \<Rightarrow> 'b json_ops \<Rightarrow> bool" where
  "json_apart J J' \<longleftrightarrow> (\<forall>m contents. to_json J m = Ok contents \<longrightarrow> (\<exists>e. from_json J' contents = Err e))"

text \<open>
  C25: A fast peer breaks the signing of a slow one. The exchange of key indices, the offline stage
  and the online stage follow each other on one event stream without a barrier. A party that has all
  indices starts the offline stage. If a message that it sends then reaches another party of the
  session that still lacks an index, \<open>sign\<close> of that party ends with an error at once, whatever would
  have come after. If the same message arrives after the last index, it is left on the stream for
  the offline stage, and the party goes on with all indices.
\<close>

theorem overtaking_peer_aborts_signing:
  assumes "starts_offline L P (so_parameters opts) session other_key indices t' overtaking"
    and "json_apart (offline_json P) J"
    and "so_protocol opts = Protocol_GG20" and "new_client E random dial opts = Ok client"
    and "transport_connect E (Relay client) = (t0, Ok ())"
    and "wait_for_session E peer_random steps [] (session_start invited t0) = Some (steps1, json_events (session_id session) received @
      Ok (JsonMessage peer overtaking (Some (session_id session))) # rest, t1, Ok session)"
    and "key_index L key \<noteq> 0"
    and "ParticipantDriver_new E t1 (so_parameters opts) session (key_index L key) = Ok b"
    and "execute E J ParticipantProtocolDriver b = (b', Ok ())"
    and "list_all2 (\<lambda>(peer, contents) m. from_json J contents = Ok m) received ms" and "\<forall>m\<in>set ms. rm_round m = 1"
  shows "(length ms < unat (threshold (so_parameters opts)) \<longrightarrow>
      sign E keccak L J P S random peer_random dial opts invited (PrivateKey_GG20 key) message steps =
        Some (Err (Driver_GG20 (GG20_Client Client_Json)))) \<and>
    (length ms = unat (threshold (so_parameters opts)) \<and> ms \<noteq> [] \<longrightarrow>
      wait_for_driver E J ParticipantProtocolDriver steps1 (json_events (session_id session) received @
        Ok (JsonMessage peer overtaking (Some (session_id session))) # rest) b =
      Some (steps1, Ok (JsonMessage peer overtaking (Some (session_id session))) # rest, transport b',
        Ok (sort (key_index L key # map rm_body ms))))"
proof -
  let ?events = "json_events (session_id session) received @ Ok (JsonMessage peer overtaking (Some (session_id session))) # rest"
  obtain e where e: "from_json J overtaking = Err e"
    using assms(1,2) by (auto simp: starts_offline_def json_apart_def)
  have "sign E keccak L J P S random peer_random dial opts invited (PrivateKey_GG20 key) message steps =
      Some (Err (Driver_GG20 (GG20_Client Client_Json)))" if "length ms < unat (threshold (so_parameters opts))"
  proof -
    have "wait_for_driver E J ParticipantProtocolDriver steps1 ?events b =
        Some (steps1, rest, transport b', Err (GG20_Client Client_Json))"
      by (rule undecodable_message_aborts [OF assms(8-11) that e])
    then show ?thesis
      using assms(3-8)
      by (simp add: sign_def gg20_sign_def open_session_def non_zero_def PartyNumber_new_def)
  qed
  then show ?thesis using exchange_leaves_rest [OF assms(8-11)] by blast
qed

text \<open>
  A session of three signers: the party of index 9 has the index of the second party and not that
  of the third, and gets the first message of the offline stage of the second.
\<close>

definition sending_machine :: "(nat, nat, nat) state_machine" where
  "sending_machine = adding_machine\<lparr>message_queue := (\<lambda>d. [\<lparr>msg_sender = 1, msg_receiver = None, msg_body = d\<rparr>])\<rparr>"

definition sending_offline :: "(nat, nat, u16, nat) offline_ops" where
  "sending_offline = \<lparr>OfflineStage_new = (\<lambda>_ _ _. Ok 0), offline_machine = sending_machine,
     offline_json = \<lparr>to_json = (\<lambda>m. Ok [ucast (rm_round m), ucast (rm_sender m), of_nat (rm_body m), 0]),
       from_json = (\<lambda>_. Err ())\<rparr>\<rparr>"

definition trio_options :: session_options where
  "trio_options = pair_options\<lparr>so_parameters := \<lparr>parties = 3, threshold = 2\<rparr>\<rparr>"

definition trio_client :: "(bool \<times> nat, nat \<times> nat) client" where
  "trio_client = sample_client [5]\<lparr>peers := [[6] \<mapsto> Transport (0, 0), [7] \<mapsto> Transport (0, 0)]\<rparr>"

abbreviation overtaken :: "(client_error, client_event) outcome list" where
  "overtaken \<equiv> json_events sample_uuid [([6], [1, 2, 3])] @ [Ok (JsonMessage [6] [1, 1, 0, 0] (Some sample_uuid))]"

definition trio_steps :: "(bool \<times> nat, nat \<times> nat) loop_step list" where
  "trio_steps = [\<lambda>_. (trio_client, Ok (Ev_SessionActive trio_session) # overtaken)]"

lemma trio_opens:
  "starts_offline sample_keys sending_offline (so_parameters trio_options) trio_session 3 [3, 4, 9] (connected_party 6 5) [1, 1, 0, 0]"
  "json_apart (offline_json sending_offline) index_json"
  "so_protocol trio_options = Protocol_GG20"
  "new_client sample_env 0 (\<lambda>_. Ok (SWITCHING_PROTOCOLS, [])) trio_options = Ok (sample_client [5])"
  "wait_for_session sample_env (\<lambda>_. 0) trio_steps [] (session_start None (Relay pair_client)) =
     Some ([], overtaken, Relay trio_client, Ok trio_session)"
  by (simp_all add: starts_offline_def PreSignDriver_new_def SignOfflineDriver_new_def SignOfflineDriver_def machine_proceed_def
      sending_offline_def sending_machine_def adding_machine_def sample_keys_def to_round_msg_def non_zero_def PartyNumber_new_def
      json_apart_def index_json_def trio_options_def pair_options_def new_client_def client_new_def ClientOptions_params_def
      sample_client_def Let_def sample_env_def counter_snow_def wait_for_session_def trio_steps_def SessionParticipant_new_def
      participant_handle_event_def)

lemma trio_exchange:
  "\<exists>b b'. ParticipantDriver_new sample_env (Relay trio_client) (so_parameters trio_options) trio_session (key_index sample_keys 9) = Ok b \<and>
    execute sample_env index_json ParticipantProtocolDriver b = (b', Ok ())"
  by (simp add: trio_client_def trio_options_def trio_session_def sample_keys_def ParticipantDriver_new_def ParticipantProtocolDriver_def
      ParticipantProtocolDriver_new_def broadcast_defs)

theorem overtaking_peer_aborts_signing_witness:
  "sign sample_env id sample_keys index_json sending_offline adding_online 0 (\<lambda>_. 0) (\<lambda>_. Ok (SWITCHING_PROTOCOLS, []))
     trio_options None (PrivateKey_GG20 9) [0, 0, 0] trio_steps = Some (Err (Driver_GG20 (GG20_Client Client_Json)))"
proof -
  let ?m = "\<lparr>rm_round = 1, rm_sender = 2, rm_receiver = None, rm_body = 3\<rparr> :: u16 round_msg"
  obtain b b' where b: "ParticipantDriver_new sample_env (Relay trio_client) (so_parameters trio_options) trio_session
      (key_index sample_keys 9) = Ok b" "execute sample_env index_json ParticipantProtocolDriver b = (b', Ok ())"
    using trio_exchange by blast
  have s: "session_id trio_session = sample_uuid" by (simp add: trio_session_def)
  have j: "list_all2 (\<lambda>(peer :: bytes, contents) m. from_json index_json contents = Ok m) [([6], [1, 2, 3])] [?m]"
    "key_index sample_keys 9 \<noteq> 0" "length [?m] < unat (threshold (so_parameters trio_options))" "\<forall>m\<in>set [?m]. rm_round m = 1"
    by (simp_all add: index_json_def sample_keys_def trio_options_def)
  show ?thesis
    using overtaking_peer_aborts_signing [OF trio_opens(1-4) pair_connects(2) _ j(2) b j(1,4), unfolded s, OF trio_opens(5)] j(3)
    by blast
qed

end
