(* ===== verification/Bounded_Queues.thy ===== *)
theory Bounded_Queues
  imports Session_Handlers
begin

text \<open>
  The queues of a client are bounded (\<open>mpsc::channel(32)\<close> in \<open>client/src/native.rs\<close> and
  \<open>client/src/web.rs\<close>): a call that sends to a full queue waits for room. The calls of \<open>Client\<close> on a
  bounded queue are the functions \<open>await_\<close> of this theory, where the value \<open>None\<close> is a call that
  waits.

  Who makes room? Requests are taken out of the queue \<open>outbound\<close> by the event loop, which is a
  stream: it runs only while somebody polls it. The drivers poll it in the task that also makes the
  calls (\<open>wait_for_session\<close> and \<open>wait_for_driver\<close>), so that there a call that waits for room waits
  for ever.

  The locale \<open>queued_call\<close> relates a call on the bounded queue to the call of \<open>Client\<close>. The session
  handlers are the code of \<open>Session_Handlers\<close> read with calls that may wait; \<open>bounded_handlers_refine\<close>
  shows that the two readings agree whenever the queue has room.
\<close>

definition QUEUE_CAPACITY :: nat where
  "QUEUE_CAPACITY = 32"

abbreviation fits :: "('h, 't) client \<Rightarrow> bool" where
  "fits c \<equiv> length (outbound c) \<le> QUEUE_CAPACITY"

subsection \<open>Calls on a bounded queue\<close>

definition await_send :: "internal_message \<Rightarrow> ('h, 't) client \<Rightarrow> ('h, 't, unit) client_result option" where
  "await_send m c =
     (if \<not> outbound_open c then Some (c, Err RequestMpscSend)
      else if length (outbound c) < QUEUE_CAPACITY then Some (c\<lparr>outbound := outbound c @ [m]\<rparr>, Ok ())
      else None)"

text \<open>The operator \<open>?\<close> before an awaited call, and after one.\<close>

fun then_await ::
  "'s \<times> ('e, 'a) outcome \<Rightarrow> ('s \<Rightarrow> 'a \<Rightarrow> ('c \<times> ('e, 'b) outcome) option) \<Rightarrow> ('s \<Rightarrow> 'c) \<Rightarrow> ('c \<times> ('e, 'b) outcome) option" where
  "then_await (s, Ok x) f g = f s x"
| "then_await (s, Err e) f g = Some (g s, Err e)"
| "then_await (s, Panic) f g = Some (g s, Panic)"

definition await_then ::
  "('c \<times> ('e, 'a) outcome) option \<Rightarrow> ('c \<Rightarrow> 'a \<Rightarrow> ('c \<times> ('e, 'b) outcome) option) \<Rightarrow> ('c \<times> ('e, 'b) outcome) option" where
  "await_then m f = Option.bind m (\<lambda>m. then_await m f id)"

definition await_relay ::
  "('h, 't) env \<Rightarrow> bytes \<Rightarrow> bytes \<Rightarrow> encoding \<Rightarrow> bool \<Rightarrow> session_id option \<Rightarrow> ('h, 't) client \<Rightarrow>
   ('h, 't, unit) client_result option" where
  "await_relay E key payload enc broadcast sid c =
     (case peers c key of
        Some peer \<Rightarrow>
          then_await (encrypt_peer_channel (snow E) key peer payload enc broadcast sid)
            (\<lambda>peer request. await_send (Internal_Request request) (c\<lparr>peers := (peers c)(key \<mapsto> peer)\<rparr>))
            (\<lambda>peer. c\<lparr>peers := (peers c)(key \<mapsto> peer)\<rparr>)
      | None \<Rightarrow> Some (c, Err (Client_PeerNotFound (hex_encode E key))))"

fun await_broadcast ::
  "('h, 't) env \<Rightarrow> session_id \<Rightarrow> bytes list \<Rightarrow> bytes \<Rightarrow> encoding \<Rightarrow> ('h, 't) client \<Rightarrow>
   ('h, 't, unit) client_result option" where
  "await_broadcast E sid [] payload enc c = Some (c, Ok ())"
| "await_broadcast E sid (key # keys) payload enc c =
     await_then (await_relay E key payload enc True (Some sid) c)
       (\<lambda>c _. await_broadcast E sid keys payload enc c)"

definition await_request ::
  "('h, 't) env \<Rightarrow> server_message \<Rightarrow> ('h, 't) client \<Rightarrow> ('h, 't, unit) client_result option" where
  "await_request E message c =
     (case server_channel c of
        Some server \<Rightarrow>
          then_await (c, map_err Client_Io (encode ServerMessage_encode (stream E) message))
            (\<lambda>c payload. then_await (apsnd (map_err Client_Protocol) (encrypt_server_channel (snow E) server payload False))
              (\<lambda>server envelope. await_send (Internal_Request (Request_Opaque (Opaque_ServerMessage envelope)))
                (c\<lparr>server_channel := Some server\<rparr>))
              (\<lambda>server. c\<lparr>server_channel := Some server\<rparr>))
            id
      | None \<Rightarrow> Some (c, Panic))"

definition await_connect_peer ::
  "('h, 't) env \<Rightarrow> nat \<Rightarrow> bytes \<Rightarrow> ('h, 't) client \<Rightarrow> ('h, 't, unit) client_result option" where
  "await_connect_peer E random key c =
     (if peers c key \<noteq> None then Some (c, Err Client_PeerAlreadyExists)
      else
        then_await (c, ClientOptions_params E (options c)) (\<lambda>c params.
        then_await (c, map_err Client_Snow
            (build_initiator (snow E) random params (kp_private (opt_keypair (options c))) key)) (\<lambda>c initiator.
        then_await (apsnd (map_err Client_Snow) (handshake_write (snow E) initiator [] 1024))
          (\<lambda>initiator msg. await_send (Internal_Request (Request_Transparent (PeerHandshake key
              (Handshake_Initiator (length msg) (write_into (replicate 1024 0) msg)))))
            (c\<lparr>peers := (peers c)(key \<mapsto> Handshake initiator)\<rparr>))
          (\<lambda>initiator. c\<lparr>peers := (peers c)(key \<mapsto> Handshake initiator)\<rparr>)) id) id)"

text \<open>The loop over the peers of a session that is ready.\<close>

fun await_connect_all ::
  "('h, 't) env \<Rightarrow> (bytes \<Rightarrow> nat) \<Rightarrow> bytes list \<Rightarrow> ('h, 't) client \<Rightarrow> ('h, 't, unit) client_result option" where
  "await_connect_all E random [] c = Some (c, Ok ())"
| "await_connect_all E random (key # keys) c =
     await_then (await_connect_peer E (random key) key c) (\<lambda>c _. await_connect_all E random keys c)"

subsection \<open>Calls with and without a bound\<close>

locale queued_call =
  fixes call :: "('h, 't) client \<Rightarrow> ('h, 't, 'a) client_result"
    and await :: "('h, 't) client \<Rightarrow> ('h, 't, 'a) client_result option"
  assumes appends: "\<exists>ms. outbound (fst (call c)) = outbound c @ ms"
    and waits: "fits c \<Longrightarrow> await c = (if fits (fst (call c)) then Some (call c) else None)"
begin

lemma grows: "length (outbound c) \<le> length (outbound (fst (call c)))"
  using appends [of c] by auto

lemma returns_as_call: "fits c \<Longrightarrow> await c = Some r \<Longrightarrow> r = call c \<and> fits (fst r)"
  by (simp add: waits split: if_splits)

lemma waits_iff: "fits c \<Longrightarrow> await c = None \<longleftrightarrow> QUEUE_CAPACITY < length (outbound (fst (call c)))"
  by (simp add: waits not_le)

end

text \<open>Calls that are made one after the other.\<close>

lemma queued_then:
  assumes f: "queued_call f f'" and g: "\<And>x. queued_call (g x) (g' x)"
  shows "queued_call (\<lambda>c. st_then (f c) (\<lambda>c x. g x c) id) (\<lambda>c. await_then (f' c) (\<lambda>c x. g' x c))"
proof
  fix c
  obtain d r where d: "f c = (d, r)" by fastforce
  then obtain ms where ms: "outbound d = outbound c @ ms" using queued_call.appends [OF f, of c] by auto
  show "\<exists>ms. outbound (fst (st_then (f c) (\<lambda>c x. g x c) id)) = outbound c @ ms"
    using d ms queued_call.appends [OF g, of _ d] by (cases r) fastforce+
  assume c: "fits c"
  show "await_then (f' c) (\<lambda>c x. g' x c) =
    (if fits (fst (st_then (f c) (\<lambda>c x. g x c) id)) then Some (st_then (f c) (\<lambda>c x. g x c) id) else None)"
  proof (cases "fits d")
    case True
    then show ?thesis
      using d queued_call.waits [OF f c] queued_call.waits [OF g True] by (cases r) (simp_all add: await_then_def)
  next
    case False
    then have "\<not> fits (fst (st_then (f c) (\<lambda>c x. g x c) id))"
      using d queued_call.grows [OF g, of d] by (cases r) (auto intro: order_trans)
    then show ?thesis using False d queued_call.waits [OF f c] by (simp add: await_then_def)
  qed
qed

lemma queued_return: "queued_call (\<lambda>c. (c, x)) (\<lambda>c. Some (c, x))"
  by unfold_locales auto

interpretation send_call: queued_call "outbound_send m" "await_send m" for m
  by unfold_locales (auto simp: outbound_send_def await_send_def)

text \<open>A call that prepares a request and sends it as its last step.\<close>

lemma then_await_send:
  assumes "\<And>s. outbound (g s) = outbound c" and "\<And>s x. outbound (h s x) = outbound c" and "fits c"
  shows "\<exists>ms. outbound (fst (st_then r (\<lambda>s x. outbound_send (m s x) (h s x)) g)) = outbound c @ ms"
    and "then_await r (\<lambda>s x. await_send (m s x) (h s x)) g =
      (if fits (fst (st_then r (\<lambda>s x. outbound_send (m s x) (h s x)) g))
       then Some (st_then r (\<lambda>s x. outbound_send (m s x) (h s x)) g) else None)"
  using assms
  by (cases "(r, (\<lambda>s x. await_send (m s x) (h s x)), g)" rule: then_await.cases;
      simp add: outbound_send_def await_send_def)+

lemma relay_appends: "\<exists>ms. outbound (fst (relay E key payload enc broadcast sid c)) = outbound c @ ms"
  unfolding relay_def outbound_send_def by (auto split: option.split st_then_split)

lemma request_appends: "\<exists>ms. outbound (fst (request E message c)) = outbound c @ ms"
  unfolding request_def outbound_send_def by (auto split: option.split st_then_split)

lemma connect_peer_appends: "\<exists>ms. outbound (fst (connect_peer E random key c)) = outbound c @ ms"
  unfolding connect_peer_def outbound_send_def by (auto split: option.split st_then_split)

interpretation relay_call: queued_call "relay E key payload enc broadcast sid" "await_relay E key payload enc broadcast sid"
  for E key payload enc broadcast sid
  by unfold_locales
     (auto simp: relay_def await_relay_def relay_appends [unfolded relay_def] then_await_send split: option.splits)

interpretation request_call: queued_call "request E message" "await_request E message" for E message
proof
  fix c :: "('a, 'b) client"
  show "\<exists>ms. outbound (fst (request E message c)) = outbound c @ ms" by (rule request_appends)
  assume "fits c"
  then show "await_request E message c = (if fits (fst (request E message c)) then Some (request E message c) else None)"
    by (cases "encode ServerMessage_encode (stream E) message")
       (auto simp: request_def await_request_def then_await_send split: option.splits)
qed

interpretation connect_peer_call: queued_call "connect_peer E random key" "await_connect_peer E random key" for E random key
proof
  fix c :: "('a, 'b) client"
  show "\<exists>ms. outbound (fst (connect_peer E random key c)) = outbound c @ ms" by (rule connect_peer_appends)
  let ?params = "ClientOptions_params E (options c)"
  let ?build = "\<lambda>params. build_initiator (snow E) random params (kp_private (opt_keypair (options c))) key"
  assume "fits c"
  then show "await_connect_peer E random key c =
      (if fits (fst (connect_peer E random key c)) then Some (connect_peer E random key c) else None)"
    by (cases ?params; cases "?build (case ?params of Ok p \<Rightarrow> p)")
       (auto simp: connect_peer_def await_connect_peer_def then_await_send)
qed

text \<open>The loops over the recipients of a broadcast and over the peers of a session.\<close>

lemma queued_broadcast: "queued_call (relay_broadcast E sid keys payload enc) (await_broadcast E sid keys payload enc)"
proof (induction keys)
  case Nil
  have "relay_broadcast E sid [] payload enc = (\<lambda>c. (c, Ok ()))" "await_broadcast E sid [] payload enc = (\<lambda>c. Some (c, Ok ()))"
    by auto
  then show ?case by (simp add: queued_return)
next
  case (Cons key keys)
  have "relay_broadcast E sid (key # keys) payload enc =
      (\<lambda>c. st_then (relay E key payload enc True (Some sid) c) (\<lambda>c _. relay_broadcast E sid keys payload enc c) id)"
    "await_broadcast E sid (key # keys) payload enc =
      (\<lambda>c. await_then (await_relay E key payload enc True (Some sid) c) (\<lambda>c _. await_broadcast E sid keys payload enc c))"
    by auto
  then show ?case using queued_then [OF relay_call.queued_call_axioms Cons.IH] by simp
qed

text \<open>The transport of a driver is the client, so that a call on it is a call on the client.\<close>

definition on_client :: "(('h, 't) transport \<Rightarrow> ('h, 't, 'a) transported) \<Rightarrow> ('h, 't) client \<Rightarrow> ('h, 't, 'a) client_result" where
  "on_client f c = (case f (Relay c) of (Relay d, x) \<Rightarrow> (d, x))"

lemma on_client_on_relay [simp]: "on_client (on_relay f) = f"
  by (auto simp: on_client_def split: prod.split)

lemma on_client_then:
  "on_client (\<lambda>t. st_then (on_relay f t) (\<lambda>t x. g x t) id) = (\<lambda>c. st_then (f c) (\<lambda>c x. on_client (g x) c) id)"
proof
  fix c
  obtain d r where "f c = (d, r)" by fastforce
  then show "on_client (\<lambda>t. st_then (on_relay f t) (\<lambda>t x. g x t) id) c = st_then (f c) (\<lambda>c x. on_client (g x) c) id"
    by (cases r) (simp_all add: on_client_def)
qed

lemma queued_connect_all: "queued_call (on_client (connect_all E random keys)) (await_connect_all E random keys)"
proof (induction keys)
  case Nil
  have "on_client (connect_all E random []) = (\<lambda>c. (c, Ok ()))" "await_connect_all E random [] = (\<lambda>c. Some (c, Ok ()))"
    by (auto simp: on_client_def)
  then show ?case by (simp only: queued_return)
next
  case (Cons key keys)
  have "connect_all E random (key # keys) =
      (\<lambda>t. st_then (on_relay (connect_peer E (random key) key) t) (\<lambda>t _. connect_all E random keys t) id)"
    by (auto simp: transport_connect_peer_def)
  moreover have "await_connect_all E random (key # keys) =
      (\<lambda>c. await_then (await_connect_peer E (random key) key c) (\<lambda>c _. await_connect_all E random keys c))"
    by auto
  ultimately show ?case
    using queued_then [OF connect_peer_call.queued_call_axioms Cons.IH] by (simp add: on_client_then)
qed

interpretation broadcast_call: queued_call "relay_broadcast E sid keys payload enc" "await_broadcast E sid keys payload enc"
  for E sid keys payload enc
  by (rule queued_broadcast)

interpretation connect_all_call: queued_call "on_client (connect_all E random keys)" "await_connect_all E random keys"
  for E random keys
  by (rule queued_connect_all)

subsection \<open>The session handlers\<close>

text \<open>
  The handlers of \<open>Session_Handlers\<close> on bounded queues, and the loop that polls the event stream
  and calls them. While a handler waits, the loop does not poll: the value is \<open>None\<close>, whatever
  steps the event loop would make.
\<close>

primrec await_on ::
  "(('h, 't) client \<Rightarrow> ('h, 't, 'a) client_result option) \<Rightarrow> ('h, 't) transport \<Rightarrow>
   (('h, 't) transport \<times> (gg20_error driver_error, 'a) outcome) option" where
  "await_on f (Relay c) = map_option (\<lambda>(c, x). (Relay c, map_err Driver_Client x)) (f c)"

text \<open>A handler that awaits a call on its transport \<open>t\<close> and stores it with \<open>put\<close>.\<close>

definition await_put ::
  "(('h, 't) transport \<times> ('e, unit) outcome) option \<Rightarrow> (('h, 't) transport \<Rightarrow> 's) \<Rightarrow> ('s \<times> ('e, 'o option) outcome) option" where
  "await_put r put = Option.bind r (\<lambda>r. then_await r (\<lambda>t _. Some (put t, Ok None)) put)"

definition await_new_session ::
  "('h, 't) env \<Rightarrow> ('h, 't) session_initiator \<Rightarrow> (('h, 't) session_initiator \<times> (gg20_error driver_error, unit) outcome) option" where
  "await_new_session E s =
     (if \<not> requested_session s \<and> transport_is_connected (si_transport s)
      then Option.bind (await_on (await_request E (NewSession \<lparr>participant_keys = si_participants s\<rparr>)) (si_transport s))
        (\<lambda>r. then_await r (\<lambda>t _. Some (s\<lparr>si_transport := t, requested_session := True\<rparr>, Ok ())) (\<lambda>t. s\<lparr>si_transport := t\<rparr>))
      else Some (s, Ok ()))"

definition await_report_connection ::
  "('h, 't) env \<Rightarrow> session_state \<Rightarrow> bytes \<Rightarrow> ('h, 't) transport \<Rightarrow>
   (('h, 't) transport \<times> (gg20_error driver_error, unit) outcome) option" where
  "await_report_connection E session peer t =
     (if peer \<in> set (connections session (transport_public_key t))
      then await_on (await_request E (SessionConnection (session_id session) peer)) t
      else Some (t, Ok ()))"

definition await_initiator_handle_event ::
  "('h, 't) env \<Rightarrow> (bytes \<Rightarrow> nat) \<Rightarrow> client_event \<Rightarrow> ('h, 't) session_initiator \<Rightarrow>
   (('h, 't) session_initiator \<times> (gg20_error driver_error, session_state option) outcome) option" where
  "await_initiator_handle_event E random event s =
     await_then (await_new_session E s) (\<lambda>s _.
       case event of
         Ev_SessionCreated session \<Rightarrow> Some (s\<lparr>si_state := Some session\<rparr>, Ok None)
       | Ev_SessionReady session \<Rightarrow>
           await_put (await_on (await_connect_all E random
               (connections session (transport_public_key (si_transport s)))) (si_transport s))
             (\<lambda>t. s\<lparr>si_transport := t\<rparr>)
       | PeerConnected peer \<Rightarrow>
           (case si_state s of
              None \<Rightarrow> Some (s, Panic)
            | Some session \<Rightarrow>
                await_put (await_report_connection E session peer (si_transport s)) (\<lambda>t. s\<lparr>si_transport := t\<rparr>))
       | Ev_SessionActive session \<Rightarrow> Some (s, Ok (Some session))
       | _ \<Rightarrow> Some (s, Ok None))"

definition await_participant_handle_event ::
  "('h, 't) env \<Rightarrow> (bytes \<Rightarrow> nat) \<Rightarrow> client_event \<Rightarrow> ('h, 't) session_participant \<Rightarrow>
   (('h, 't) session_participant \<times> (gg20_error driver_error, session_state option) outcome) option" where
  "await_participant_handle_event E random event s =
     (case event of
        Ev_SessionReady session \<Rightarrow>
          let s = s\<lparr>sp_state := Some session\<rparr> in
          await_put (await_on (await_connect_all E random
              (connections session (transport_public_key (sp_transport s)))) (sp_transport s))
            (\<lambda>t. s\<lparr>sp_transport := t\<rparr>)
      | PeerConnected peer \<Rightarrow>
          (case sp_state s of
             None \<Rightarrow> Some (s, Ok None)
           | Some session \<Rightarrow>
               await_put (await_report_connection E session peer (sp_transport s)) (\<lambda>t. s\<lparr>sp_transport := t\<rparr>))
      | Ev_SessionActive session \<Rightarrow> Some (s, Ok (Some session))
      | _ \<Rightarrow> Some (s, Ok None))"

primrec await_session_handle_event ::
  "('h, 't) env \<Rightarrow> (bytes \<Rightarrow> nat) \<Rightarrow> client_event \<Rightarrow> ('h, 't) session_handler \<Rightarrow>
   (('h, 't) session_handler \<times> (gg20_error driver_error, session_state option) outcome) option" where
  "await_session_handle_event E random event (Initiator s) =
     map_option (apfst Initiator) (await_initiator_handle_event E random event s)"
| "await_session_handle_event E random event (Participant s) =
     map_option (apfst Participant) (await_participant_handle_event E random event s)"

fun await_loop ::
  "(client_error \<Rightarrow> 'e) \<Rightarrow> (client_event \<Rightarrow> 's \<Rightarrow> ('s \<times> ('e, 'o option) outcome) option) \<Rightarrow>
   (('h, 't) loop_step \<Rightarrow> 's \<Rightarrow> 's \<times> (client_error, client_event) outcome list) \<Rightarrow>
   ('h, 't) loop_step list \<Rightarrow> (client_error, client_event) outcome list \<Rightarrow> 's \<Rightarrow>
   (('h, 't) loop_step list \<times> (client_error, client_event) outcome list \<times> 's \<times> ('e, 'o) outcome) option" where
  "await_loop conv handle advance [] [] s = None"
| "await_loop conv handle advance (step # steps) [] s =
     (let (s, events) = advance step s in await_loop conv handle advance steps events s)"
| "await_loop conv handle advance steps (Err e # events) s = Some (steps, events, s, Err (conv e))"
| "await_loop conv handle advance steps (Panic # events) s = Some (steps, events, s, Panic)"
| "await_loop conv handle advance steps (Ok event # events) s =
     Option.bind (handle event s) (\<lambda>r. case r of
        (s, Ok None) \<Rightarrow> await_loop conv handle advance steps events s
      | (s, Ok (Some x)) \<Rightarrow> Some (steps, events, s, Ok x)
      | (s, Err e) \<Rightarrow> Some (steps, events, s, Err e)
      | (s, Panic) \<Rightarrow> Some (steps, events, s, Panic))"

definition await_session ::
  "('h, 't) env \<Rightarrow> (bytes \<Rightarrow> nat) \<Rightarrow> ('h, 't) loop_step list \<Rightarrow> (client_error, client_event) outcome list \<Rightarrow>
   ('h, 't) session_handler \<Rightarrow>
   (('h, 't) loop_step list \<times> (client_error, client_event) outcome list \<times> ('h, 't) transport \<times> (gg20_error driver_error, session_state) outcome) option" where
  "await_session E random steps events s =
     map_option (\<lambda>(steps, events, s, x). (steps, events, handler_transport s, x))
       (await_loop Driver_Client (await_session_handle_event E random) step_handler steps events s)"

subsection \<open>Handlers with and without a bound\<close>

primrec client_of :: "('h, 't) transport \<Rightarrow> ('h, 't) client" where
  "client_of (Relay c) = c"

abbreviation transport_fits :: "('h, 't) transport \<Rightarrow> bool" where
  "transport_fits t \<equiv> fits (client_of t)"

definition bounded_by :: "('s \<Rightarrow> ('h, 't) transport) \<Rightarrow> 's \<times> 'x \<Rightarrow> ('s \<times> 'x) option" where
  "bounded_by get r = (if transport_fits (get (fst r)) then Some r else None)"

lemma await_on_bounded:
  assumes "queued_call f f'" and "transport_fits t"
  shows "await_on f' t = bounded_by id (apsnd (map_err Driver_Client) (on_relay f t))"
proof (cases t)
  case (Relay c)
  then show ?thesis
    using queued_call.waits [OF assms(1), of c] assms(2) by (auto simp: bounded_by_def split: prod.split)
qed

lemma on_relay_grows:
  assumes "queued_call f f'"
  shows "length (outbound (client_of t)) \<le> length (outbound (client_of (fst (on_relay f t))))"
  using queued_call.grows [OF assms, of "client_of t"] by (cases t) (auto split: prod.split)

lemma connect_all_on_relay: "connect_all E random keys = on_relay (on_client (connect_all E random keys))"
proof
  fix t
  show "connect_all E random keys t = on_relay (on_client (connect_all E random keys)) t"
    by (cases t) (auto simp: on_client_def split: prod.split transport.split)
qed

lemma await_put_bounded:
  assumes "r' = bounded_by id r" and "\<And>t. get (put t) = t"
  shows "await_put r' put = bounded_by get (st_then r (\<lambda>t _. (put t, Ok None)) put)"
proof -
  obtain t x where "r = (t, x)" by fastforce
  then show ?thesis using assms by (cases x) (simp_all add: await_put_def bounded_by_def)
qed

lemma fst_put [simp]: "fst (st_then r (\<lambda>t _. (put t, Ok None)) put) = put (fst r)"
  by (cases r; cases "snd r") auto

lemma await_connect_all_bounded:
  assumes "transport_fits t"
  shows "await_on (await_connect_all E random keys) t =
    bounded_by id (apsnd (map_err Driver_Client) (connect_all E random keys t))"
  unfolding await_on_bounded [OF queued_connect_all assms] by (simp flip: connect_all_on_relay)

lemma await_report_bounded:
  assumes "transport_fits t"
  shows "await_report_connection E session peer t = bounded_by id (report_connection E session peer t)"
  using await_on_bounded [OF request_call.queued_call_axioms assms] assms
  by (simp add: await_report_connection_def report_connection_def transport_register_connection_def
      request_register_connection_def [abs_def] bounded_by_def)

lemma await_new_session_bounded:
  assumes "transport_fits (si_transport s)"
  shows "await_new_session E s = bounded_by si_transport (initiator_new_session E s)"
proof -
  obtain t and x :: "(gg20_error driver_error, unit) outcome" where r:
    "apsnd (map_err Driver_Client) (transport_new_session E (si_participants s) (si_transport s)) = (t, x)"
    by fastforce
  then have "await_on (await_request E (NewSession \<lparr>participant_keys = si_participants s\<rparr>)) (si_transport s) =
      bounded_by id (t, x)"
    using await_on_bounded [OF request_call.queued_call_axioms assms]
    by (simp add: transport_new_session_def request_new_session_def [abs_def])
  then show ?thesis
    using r assms by (cases x) (simp_all add: await_new_session_def initiator_new_session_def bounded_by_def)
qed

lemma participant_bounded:
  assumes "transport_fits (sp_transport s)"
  shows "await_participant_handle_event E random event s = bounded_by sp_transport (participant_handle_event E random event s)"
  using assms
  by (auto simp: await_participant_handle_event_def participant_handle_event_def Let_def
      await_put_bounded [OF await_connect_all_bounded, where get = sp_transport]
      await_put_bounded [OF await_report_bounded, where get = sp_transport]
      bounded_by_def [of sp_transport "(_, _)"]
      split: client_event.split option.split)

lemma initiator_bounded:
  assumes "transport_fits (si_transport s)"
  shows "await_initiator_handle_event E random event s = bounded_by si_transport (initiator_handle_event E random event s)"
proof -
  obtain u x where n: "initiator_new_session E s = (u, x)" by fastforce
  let ?rest = "\<lambda>s. case event of
      Ev_SessionCreated session \<Rightarrow> (s\<lparr>si_state := Some session\<rparr>, Ok None)
    | Ev_SessionReady session \<Rightarrow>
        st_then (apsnd (map_err Driver_Client) (connect_all E random
            (connections session (transport_public_key (si_transport s))) (si_transport s)))
          (\<lambda>t _. (s\<lparr>si_transport := t\<rparr>, Ok None)) (\<lambda>t. s\<lparr>si_transport := t\<rparr>)
    | PeerConnected peer \<Rightarrow>
        (case si_state s of
           None \<Rightarrow> (s, Panic)
         | Some session \<Rightarrow>
             st_then (report_connection E session peer (si_transport s))
               (\<lambda>t _. (s\<lparr>si_transport := t\<rparr>, Ok None)) (\<lambda>t. s\<lparr>si_transport := t\<rparr>))
    | Ev_SessionActive session \<Rightarrow> (s, Ok (Some session))
    | _ \<Rightarrow> (s, Ok None)"
  have grow: "length (outbound (client_of (si_transport u))) \<le> length (outbound (client_of (si_transport (fst (?rest u)))))"
    using on_relay_grows [OF queued_connect_all] on_relay_grows [OF request_call.queued_call_axioms]
    by (auto simp: report_connection_def transport_register_connection_def request_register_connection_def [abs_def]
        connect_all_on_relay [symmetric] split: client_event.split option.split)
  show ?thesis
  proof (cases "transport_fits (si_transport u)")
    case True
    then show ?thesis
      using n assms
      by (cases x) (auto simp: await_initiator_handle_event_def initiator_handle_event_def await_then_def await_new_session_bounded
          await_put_bounded [OF await_connect_all_bounded, where get = si_transport]
          await_put_bounded [OF await_report_bounded, where get = si_transport]
          bounded_by_def [of si_transport "(_, _)"]
          split: client_event.split option.split)
  next
    case False
    then have "\<not> transport_fits (si_transport (fst (?rest u)))" using grow by linarith
    then show ?thesis
      using n assms False
      by (cases x) (simp_all add: await_initiator_handle_event_def initiator_handle_event_def await_then_def
          await_new_session_bounded bounded_by_def)
  qed
qed

lemma handler_bounded:
  assumes "transport_fits (handler_transport h)"
  shows "await_session_handle_event E random event h = bounded_by handler_transport (session_handle_event E random event h)"
proof (cases h)
  case (Initiator s)
  then show ?thesis using assms initiator_bounded [of s E random event] by (simp add: bounded_by_def)
next
  case (Participant s)
  then show ?thesis using assms participant_bounded [of s E random event] by (simp add: bounded_by_def)
qed

text \<open>A step of the event loop leaves no more requests in the queue than it holds.\<close>

definition within_capacity :: "('h, 't) loop_step \<Rightarrow> bool" where
  "within_capacity step \<longleftrightarrow> (\<forall>c. fits c \<longrightarrow> fits (fst (step c)))"

lemma step_handler_fits:
  assumes "within_capacity step" and "transport_fits (handler_transport h)"
  shows "transport_fits (handler_transport (fst (step_handler step h)))"
proof (cases h)
  case (Initiator s)
  then show ?thesis using assms by (cases "si_transport s") (auto simp: within_capacity_def split: prod.split)
next
  case (Participant s)
  then show ?thesis using assms by (cases "sp_transport s") (auto simp: within_capacity_def split: prod.split)
qed

text \<open>A loop whose handler returns what another handler returns, if it returns, returns what the other loop does.\<close>

lemma await_loop_mono:
  assumes handle: "\<And>event s s' x. I s \<Longrightarrow> handle' event s = Some (s', x) \<Longrightarrow> handle event s = (s', x) \<and> I s'"
    and advance: "\<And>step s. step \<in> set steps \<Longrightarrow> I s \<Longrightarrow> I (fst (advance step s))"
    and "I s" and "await_loop conv handle' advance steps events s = Some r"
  shows "wait_loop conv handle advance steps events s = Some r"
  using assms(2-4)
proof (induction steps arbitrary: events s)
  have events: "wait_loop conv handle advance steps events s = Some r"
    if "I s" "await_loop conv handle' advance steps events s = Some r"
      "\<And>s. I s \<Longrightarrow> await_loop conv handle' advance steps [] s = Some r \<Longrightarrow> wait_loop conv handle advance steps [] s = Some r"
    for steps events s
    using that(1,2)
  proof (induction events arbitrary: s)
    case (Cons event events)
    show ?case
    proof (cases event)
      case (Ok e)
      then obtain s' x where h: "handle' e s = Some (s', x)" using Cons.prems(2) by (cases "handle' e s") auto
      then have "handle e s = (s', x)" "I s'" using handle [OF Cons.prems(1) h] by auto
      then show ?thesis using Ok Cons h by (cases x) (auto split: option.splits)
    qed (use Cons.prems in auto)
  qed (use that in blast)
  {
    case Nil
    show ?case by (rule events [OF Nil.prems(2,3)]) simp
  next
    case (Cons step steps)
    show ?case
    proof (rule events [OF Cons.prems(2,3)])
      fix u
      assume u: "I u" and r: "await_loop conv handle' advance (step # steps) [] u = Some r"
      obtain v es where v: "advance step u = (v, es)" by fastforce
      then have "I v" using Cons.prems(1) [of step u] u by simp
      then have "wait_loop conv handle advance steps es v = Some r"
        using Cons.prems(1) r v by (intro Cons.IH) auto
      then show "wait_loop conv handle advance (step # steps) [] u = Some r" using v by simp
    qed
  }
qed

lemma await_session_refines:
  assumes "list_all within_capacity steps" and "transport_fits (handler_transport h)"
    and "await_loop conv (await_session_handle_event E random) step_handler steps events h = Some r"
  shows "wait_loop conv (session_handle_event E random) step_handler steps events h = Some r"
proof (rule await_loop_mono [where I = "\<lambda>h. transport_fits (handler_transport h)", OF _ _ assms(2,3)])
  show "session_handle_event E random event h = (h', x) \<and> transport_fits (handler_transport h')"
    if "transport_fits (handler_transport h)" "await_session_handle_event E random event h = Some (h', x)" for event h h' x
    using that handler_bounded [OF that(1), of E random event] by (auto simp: bounded_by_def split: if_splits)
  show "transport_fits (handler_transport (fst (step_handler step h)))"
    if "step \<in> set steps" "transport_fits (handler_transport h)" for step h
    using that assms(1) step_handler_fits by (auto simp: list_all_iff)
qed

subsection \<open>Properties\<close>

text \<open>
  The bounded queue changes nothing but whether a handler returns. On a queue within its
  capacity, the handler of a session event returns exactly if the handler without a bound leaves
  at most 32 requests in the queue, and then with the same state and outcome; a session that is
  found on bounded queues, over whatever event stream, is the one found without a bound.
\<close>

lemma bounded_handlers_refine:
  assumes "length (outbound (client_of (handler_transport h))) \<le> QUEUE_CAPACITY"
  shows "await_session_handle_event E random event h =
      (if length (outbound (client_of (handler_transport (fst (session_handle_event E random event h))))) \<le> 32
       then Some (session_handle_event E random event h) else None) \<and>
    (list_all within_capacity steps \<and> await_session E random steps events h = Some r \<longrightarrow>
       wait_for_session E random steps events h = Some r)"
proof -
  have "await_session_handle_event E random event h =
      (if length (outbound (client_of (handler_transport (fst (session_handle_event E random event h))))) \<le> 32
       then Some (session_handle_event E random event h) else None)"
    using handler_bounded [OF assms] by (simp add: bounded_by_def QUEUE_CAPACITY_def)
  moreover have "wait_for_session E random steps events h = Some r"
    if steps: "list_all within_capacity steps" and r: "await_session E random steps events h = Some r"
  proof -
    obtain q where "await_loop Driver_Client (await_session_handle_event E random) step_handler steps events h = Some q"
      "r = (\<lambda>(steps, events, s, x). (steps, events, handler_transport s, x)) q"
      using r by (auto simp: await_session_def)
    then show ?thesis
      using await_session_refines [OF steps assms, of Driver_Client E random events] by (simp add: wait_for_session_def)
  qed
  ultimately show ?thesis by blast
qed

lemma session_ready_queue:
  assumes "idle h" and "distinct (all_participants session)" and "handler_transport h = Relay c" and "outbound_open c"
    and "\<forall>key\<in>set (connections session (client_public_key c)). can_initiate E random (options c) key \<and> peers c key = None"
  shows "length (outbound (client_of (handler_transport (fst (session_handle_event E random (Ev_SessionReady session) h))))) =
    length (outbound c) + length (connections session (client_public_key c))"
proof -
  obtain c' ms where "connect_all E random (connections session (client_public_key c)) (Relay c) = (Relay c', Ok ())"
    "length ms = length (connections session (client_public_key c))"
    "outbound c' = outbound c @ map2 peer_hello (connections session (client_public_key c)) ms"
    using connect_all_fresh [OF connections_distinct(1) [OF assms(2)] assms(4,5)] by blast
  then show ?thesis using session_ready_step [OF assms(1)] assms(3) by fastforce
qed

text \<open>
  C8: Large sessions never start. When a session is ready, a party sends one request for every
  participant that follows it, and does not poll the event loop meanwhile: with an empty queue the
  handler returns exactly if these are at most 32, and otherwise \<open>wait_for_session\<close> waits for ever,
  whatever the event loop could do. The first of n participants is followed by n - 1: no session
  of more than 33 participants becomes active.
\<close>

theorem large_session_never_starts:
  assumes "idle h" and "distinct (all_participants session)" and "handler_transport h = Relay c"
    and "outbound_open c" and "outbound c = []"
    and "\<forall>key\<in>set (connections session (client_public_key c)). can_initiate E random (options c) key \<and> peers c key = None"
  shows "(await_session_handle_event E random (Ev_SessionReady session) h = None \<longleftrightarrow>
      32 < length (connections session (client_public_key c))) \<and>
    (32 < length (connections session (client_public_key c)) \<longrightarrow>
      await_session E random steps (Ok (Ev_SessionReady session) # events) h = None) \<and>
    (hd (all_participants session) = client_public_key c \<and> 33 < length (all_participants session) \<longrightarrow>
      32 < length (connections session (client_public_key c)))"
proof -
  have fit: "transport_fits (handler_transport h)" using assms(3,5) by simp
  have w: "await_session_handle_event E random (Ev_SessionReady session) h = None \<longleftrightarrow>
      32 < length (connections session (client_public_key c))"
    using handler_bounded [OF fit, of E random "Ev_SessionReady session"] session_ready_queue [OF assms(1-4,6)] assms(5)
    by (simp add: bounded_by_def QUEUE_CAPACITY_def not_le)
  moreover have "32 < length (connections session (client_public_key c))"
    if "hd (all_participants session) = client_public_key c" "33 < length (all_participants session)"
  proof -
    have "position (\<lambda>x. x = client_public_key c) (all_participants session) = Some 0"
      using that by (cases "all_participants session") auto
    then show ?thesis using that(2) by (simp add: connections_drop)
  qed
  moreover have "await_session E random steps (Ok (Ev_SessionReady session) # events) h = None"
    if "32 < length (connections session (client_public_key c))"
  proof -
    have "await_session_handle_event E random (Ev_SessionReady session) h = None" using w that by blast
    then show ?thesis by (simp add: await_session_def)
  qed
  ultimately show ?thesis by blast
qed

text \<open>A party of a session of 34, the first in the list, and of a session of three.\<close>

definition numbered_session :: "nat \<Rightarrow> session_state" where
  "numbered_session n = \<lparr>session_id = sample_uuid, all_participants = map (\<lambda>i. [of_nat i]) [0..<n]\<rparr>"

definition first_party :: "(bool \<times> nat, nat \<times> nat) session_handler" where
  "first_party = Participant (SessionParticipant_new (Relay (sample_client [0])))"

lemma first_party_ready:
  "idle first_party" "handler_transport first_party = Relay (sample_client [0])" "outbound_open (sample_client [0])"
  "outbound (sample_client [0]) = []" "client_public_key (sample_client [0]) = [0]"
  "can_initiate sample_env random (options (sample_client [0])) key \<and> peers (sample_client [0]) key = None"
proof -
  show "can_initiate sample_env random (options (sample_client [0])) key \<and> peers (sample_client [0]) key = None"
    unfolding can_initiate_def
    by (intro conjI exI [of _ PATTERN] exI [of _ "(True, 0)"] exI [of _ "(True, 1)"] exI [of _ "[1]"])
       (simp_all add: ClientOptions_params_def sample_client_def sample_env_def counter_snow_def)
qed (simp_all add: first_party_def SessionParticipant_new_def sample_client_def client_public_key_def)

lemma numbered_session_distinct: "n \<le> 256 \<Longrightarrow> distinct (all_participants (numbered_session n))"
  by (auto simp: numbered_session_def distinct_map inj_on_def word_of_nat_eq_iff take_bit_eq_mod)

theorem large_session_never_starts_witness:
  "await_session sample_env (\<lambda>_. 0) [] [Ok (Ev_SessionReady (numbered_session 34))] first_party = None \<and>
   await_session_handle_event sample_env (\<lambda>_. 0) (Ev_SessionReady (numbered_session 33)) first_party \<noteq> None"
proof -
  let ?ks = "\<lambda>n. connections (numbered_session n) (client_public_key (sample_client [0]))"
  have ready: "\<forall>key\<in>set (?ks n). can_initiate sample_env (\<lambda>_. 0) (options (sample_client [0])) key \<and> peers (sample_client [0]) key = None" for n
    using first_party_ready(6) by blast
  have hd: "hd (all_participants (numbered_session 34)) = client_public_key (sample_client [0])"
    "length (all_participants (numbered_session 34)) = 34"
    by (simp_all add: numbered_session_def first_party_ready(5) upt_rec)
  have "position (\<lambda>x. x = [0 :: byte]) (all_participants (numbered_session 33)) = Some 0"
    by (simp add: numbered_session_def upt_rec)
  then have "length (?ks 33) = 32" by (simp add: connections_drop first_party_ready(5) numbered_session_def)
  note use = large_session_never_starts [OF first_party_ready(1) numbered_session_distinct first_party_ready(2-4) ready]
  show ?thesis
    using use [of 34 "[]" "[]"] use [of 33 "[]" "[]"] hd \<open>length (?ks 33) = 32\<close> by simp
qed

text \<open>A broadcast to established peers sends one request per recipient.\<close>

lemma broadcast_queue:
  assumes "transport_laws (snow E) sync" and "outbound_open c"
    and "\<forall>key\<in>set keys. \<exists>t t'. peers c key = Some (Transport t) \<and> sync t t'"
  shows "length (outbound (fst (relay_broadcast E sid keys payload enc c))) = length (outbound c) + length keys"
  using assms(2,3)
proof (induction keys arbitrary: c)
  case (Cons key keys)
  then obtain t t' where t: "peers c key = Some (Transport t)" "sync t t'" by auto
  obtain a b chunks where a: "encrypt_peer_channel (snow E) key (Transport t) payload enc True (Some sid) =
      (Transport a, Ok (Request_Opaque (PeerMessage key (Some sid) \<lparr>env_encoding = enc, env_chunks = chunks, env_broadcast = True\<rparr>)))"
    "sync a b"
    using peer_channel_delivers [OF assms(1) t(2), of key payload enc True "Some sid"] by blast
  let ?c = "c\<lparr>peers := (peers c)(key \<mapsto> Transport a), outbound := outbound c @ [Internal_Request (Request_Opaque
      (PeerMessage key (Some sid) \<lparr>env_encoding = enc, env_chunks = chunks, env_broadcast = True\<rparr>))]\<rparr>"
  have "relay E key payload enc True (Some sid) c = (?c, Ok ())"
    using t a Cons.prems(1) by (simp add: relay_def outbound_send_def)
  moreover have "\<forall>k\<in>set keys. \<exists>t t'. peers ?c k = Some (Transport t) \<and> sync t t'"
    using Cons.prems(2) a(2) by auto
  ultimately show ?case using Cons.IH [of ?c] Cons.prems(1) by simp
qed simp

lemma broadcast_waits_iff:
  assumes "transport_laws (snow E) sync" and "outbound_open c" and "outbound c = []"
    and "\<forall>key\<in>set keys. \<exists>t t'. peers c key = Some (Transport t) \<and> sync t t'"
  shows "await_broadcast E sid keys payload enc c = None \<longleftrightarrow> 32 < length keys"
  using broadcast_call.waits_iff [of c E sid keys payload enc] broadcast_queue [OF assms(1,2,4)] assms(3)
  by (simp add: QUEUE_CAPACITY_def)

end
