(* ===== verification/Commands.thy ===== *)
theory Commands
  imports Relay_Server
begin

text \<open>
  The command that writes a new key pair (\<open>src/commands/generate_keypair.rs\<close>), the serde
  implementations of key pairs (\<open>protocol/src/keypair.rs\<close>), the command that starts the server
  (\<open>src/commands/server.rs\<close>, \<open>RelayServer::start\<close>) and the dispatch of the command line (\<open>src/main.rs\<close>).

  The file system is a map from paths to contents. \<open>disk_ops\<close> says which operations of the platform
  succeed: a failing write leaves a prefix of what was to be written.
\<close>

subsection \<open>Writing a key pair\<close>

datatype command_error =
    FileExists string
  | Command_Io io_error
  | Command_Protocol protocol_error
  | Command_Server server_error
  | Command_Addr

type_synonym disk = "string \<rightharpoonup> bytes"

record disk_ops =
  probe :: "string \<Rightarrow> (io_error, unit) outcome"
  create_file :: "string \<Rightarrow> (io_error, unit) outcome"
  write_fails :: "string \<Rightarrow> (nat \<times> io_error) option"

text \<open>\<open>File::create\<close> truncates; \<open>write_all\<close> and \<open>flush\<close> then write the contents.\<close>

definition write_file :: "disk_ops \<Rightarrow> string \<Rightarrow> bytes \<Rightarrow> disk \<Rightarrow> disk \<times> (command_error, unit) outcome" where
  "write_file D path contents fs =
     st_then (fs, map_err Command_Io (create_file D path)) (\<lambda>fs _.
       case write_fails D path of
         None \<Rightarrow> (fs(path \<mapsto> contents), Ok ())
       | Some (n, e) \<Rightarrow> (fs(path \<mapsto> take n contents), Err (Command_Io e))) id"

definition generate_keypair_run ::
  "disk_ops \<Rightarrow> pem_ops \<Rightarrow> (bytes \<Rightarrow> string) \<Rightarrow> (protocol_error, keypair) outcome \<Rightarrow> string \<Rightarrow> bool \<Rightarrow> string option \<Rightarrow>
   disk \<Rightarrow> disk \<times> (command_error, string) outcome" where
  "generate_keypair_run D L hex generated path force public_key fs =
     st_then (fs, map_err Command_Io (probe D path)) (\<lambda>fs _.
     if fs path \<noteq> None \<and> \<not> force then (fs, Err (FileExists path))
     else
       st_then (fs, map_err Command_Protocol generated) (\<lambda>fs keypair.
       st_then (write_file D path (as_bytes (encode_keypair L keypair)) fs) (\<lambda>fs _.
         let printed = hex (kp_public keypair) in
         case public_key of
           None \<Rightarrow> (fs, Ok printed)
         | Some p \<Rightarrow> st_then (write_file D p (as_bytes printed) fs) (\<lambda>fs _. (fs, Ok printed)) id) id) id) id"

subsection \<open>Key pairs in other formats\<close>

definition Keypair_new ::
  "(string \<Rightarrow> (snow_error, keypair) outcome) \<Rightarrow> string \<Rightarrow> (protocol_error, keypair) outcome" where
  "Keypair_new generate params = map_err Snow (generate params)"

definition Keypair_serialize :: "pem_ops \<Rightarrow> keypair \<Rightarrow> string" where
  "Keypair_serialize L k = encode_keypair L k"

text \<open>The visitor turns the error into one of the deserialiser, which displays it.\<close>

definition Keypair_visit_str :: "pem_ops \<Rightarrow> (protocol_error \<Rightarrow> 'e) \<Rightarrow> string \<Rightarrow> ('e, keypair) outcome" where
  "Keypair_visit_str L custom s = map_err custom (decode_keypair L (as_bytes s))"

subsection \<open>Starting the server\<close>

text \<open>
  \<open>platform\<close> is what the commands use of the standard library, \<open>axum_server\<close>, \<open>rustls\<close> and \<open>tokio\<close>:
  parsing an address, loading certificates, serving connections until the server ends, and whether
  a timer accepts its period. \<open>started\<close> is what a started server consists of: its shared state, the
  period of the task that removes expired sessions, and the outcome of serving.
\<close>

record 'addr platform =
  parse_addr :: "string \<Rightarrow> (unit, 'addr) outcome"
  from_pem_file :: "string \<Rightarrow> string \<Rightarrow> (io_error, unit) outcome"
  serve :: "'addr \<Rightarrow> tls_config option \<Rightarrow> (io_error, unit) outcome"
  valid_period :: "u64 \<Rightarrow> bool"

record ('h, 't) started =
  shared_state :: "('h, 't) server_state"
  reaper_period :: u64
  served :: "(server_error, unit) outcome"

definition server_run_tls :: "'addr platform \<Rightarrow> 'addr \<Rightarrow> tls_config \<Rightarrow> (server_error, unit) outcome" where
  "server_run_tls P addr tls =
     and_then (map_err Server_Io (from_pem_file P (tls_cert tls) (tls_key tls))) (\<lambda>_.
       map_err Server_Io (serve P addr (Some tls)))"

definition server_run :: "'addr platform \<Rightarrow> 'addr \<Rightarrow> (server_error, unit) outcome" where
  "server_run P addr = map_err Server_Io (serve P addr None)"

definition server_start :: "'addr platform \<Rightarrow> 'addr \<Rightarrow> ('h, 't) server_state \<Rightarrow> ('h, 't) started" where
  "server_start P addr s =
     \<lparr>shared_state = s, reaper_period = cfg_interval (cfg_session (srv_config s)),
      served = (case cfg_tls (srv_config s) of Some tls \<Rightarrow> server_run_tls P addr tls | None \<Rightarrow> server_run P addr)\<rparr>"

definition server_command_run ::
  "host_ops \<Rightarrow> pem_ops \<Rightarrow> 'addr platform \<Rightarrow> string \<Rightarrow> string \<Rightarrow> u64 option \<Rightarrow> u64 option \<Rightarrow>
   (command_error, ('h, 't) started) outcome" where
  "server_command_run H L P bind path interval session_timeout =
     and_then (map_err Command_Server (ServerConfig_load H L path)) (\<lambda>(config, keypair).
     let config = server_command_config interval session_timeout config in
     and_then (map_err (\<lambda>_. Command_Addr) (parse_addr P bind)) (\<lambda>addr.
       Ok (server_start P addr (RelayServer_new config keypair))))"

text \<open>The command line, parsed by the \<open>clap\<close> crate, and \<open>main\<close>, which reports an error and succeeds.\<close>

datatype command =
    GenerateKeypair bool "string option" string
  | Server "u64 option" "u64 option" string string

definition cli_run ::
  "disk_ops \<Rightarrow> host_ops \<Rightarrow> pem_ops \<Rightarrow> (bytes \<Rightarrow> string) \<Rightarrow> (protocol_error, keypair) outcome \<Rightarrow> 'addr platform \<Rightarrow> command \<Rightarrow>
   disk \<Rightarrow> disk \<times> (command_error, unit) outcome" where
  "cli_run D H L hex generated P cmd fs =
     (case cmd of
        GenerateKeypair force public_key file \<Rightarrow>
          st_then (generate_keypair_run D L hex generated file force public_key fs) (\<lambda>fs _. (fs, Ok ())) id
      | Server session_interval session_timeout bind config \<Rightarrow>
          (fs, and_then (server_command_run H L P bind config session_interval session_timeout) (\<lambda>s.
             map_err Command_Server (served (s :: (unit, unit) started)))))"

primrec main_result :: "(command_error, unit) outcome \<Rightarrow> (command_error, unit) outcome" where
  "main_result (Ok x) = Ok ()"
| "main_result (Err e) = Ok ()"
| "main_result Panic = Panic"

subsection \<open>Properties\<close>

lemma write_file_other:
  "p \<noteq> path \<Longrightarrow> fst (write_file D path contents fs) p = fs p"
  by (auto simp: write_file_def split: st_then_splits option.splits)

lemma write_file_Ok:
  "write_file D path contents fs = (fs', Ok ()) \<Longrightarrow> fs' = fs(path \<mapsto> contents)"
  by (auto simp: write_file_def st_then_Ok split: option.splits)

lemma generate_keypair_run_Ok:
  assumes "generate_keypair_run D L hex generated path force public_key fs = (fs', Ok printed)"
  shows "\<exists>k. generated = Ok k \<and> printed = hex (kp_public k) \<and>
    fs' = (case public_key of
       None \<Rightarrow> fs(path \<mapsto> as_bytes (encode_keypair L k))
     | Some p \<Rightarrow> fs(path \<mapsto> as_bytes (encode_keypair L k), p \<mapsto> as_bytes printed))"
  using assms
  by (cases public_key) (auto simp: generate_keypair_run_def st_then_Ok Let_def dest!: write_file_Ok split: if_splits)

text \<open>
  C38: The command that generates a key pair does not touch anything if the key file exists and it
  is not forced, and it changes no file but the two it is asked to write. When it succeeds, the key
  file holds the generated pair in the form that the server loads, unless the same path was given
  for the public key, which then replaces the key file. Only the key file is protected: the file
  for the public key is replaced in any case, forced or not.
\<close>

theorem generated_key_file_loads:
  assumes "pem_laws L" and "generate_keypair_run D L hex generated path force public_key fs = (fs', result)"
  shows "(fs path \<noteq> None \<and> \<not> force \<longrightarrow> fs' = fs \<and> (\<forall>printed. result \<noteq> Ok printed)) \<and>
    (\<forall>p. p \<noteq> path \<and> Some p \<noteq> public_key \<longrightarrow> fs' p = fs p) \<and>
    (\<forall>printed. result = Ok printed \<longrightarrow> (\<exists>k contents. generated = Ok k \<and> printed = hex (kp_public k) \<and>
       fs' path = Some contents \<and>
       (if public_key = Some path then contents = as_bytes printed else decode_keypair L contents = Ok k) \<and>
       (\<forall>p. public_key = Some p \<longrightarrow> fs' p = Some (as_bytes printed))))"
proof -
  have "fs' p = fs p" if "p \<noteq> path" "Some p \<noteq> public_key" for p
    using assms(2) that write_file_other [of p path D "_" "_"]
    by (auto simp: generate_keypair_run_def write_file_def Let_def split: st_then_splits option.splits if_splits)
  moreover have "fs path \<noteq> None \<and> \<not> force \<longrightarrow> fs' = fs \<and> (\<forall>printed. result \<noteq> Ok printed)"
    using assms(2) by (auto simp: generate_keypair_run_def split: st_then_splits)
  moreover have "\<exists>k contents. generated = Ok k \<and> printed = hex (kp_public k) \<and> fs' path = Some contents \<and>
       (if public_key = Some path then contents = as_bytes printed else decode_keypair L contents = Ok k) \<and>
       (\<forall>p. public_key = Some p \<longrightarrow> fs' p = Some (as_bytes printed))" if "result = Ok printed" for printed
    using generate_keypair_run_Ok [OF assms(2) [unfolded that]] keypair_roundtrip [OF assms(1)]
    by (cases public_key; cases "public_key = Some path") auto
  ultimately show ?thesis by blast
qed

definition sample_disk :: disk_ops where
  "sample_disk = \<lparr>probe = (\<lambda>_. Ok ()), create_file = (\<lambda>_. Ok ()), write_fails = (\<lambda>_. None)\<rparr>"

theorem generated_key_file_loads_witness:
  "\<exists>contents. fst (generate_keypair_run sample_disk tagged_pem (\<lambda>_. ''ab'') (Ok \<lparr>kp_public = [1], kp_private = [2]\<rparr>)
      ''key.pem'' False (Some ''key.pub'') [''key.pub'' \<mapsto> [0]]) ''key.pem'' = Some contents \<and>
    decode_keypair tagged_pem contents = Ok \<lparr>kp_public = [1], kp_private = [2]\<rparr> \<and>
    fst (generate_keypair_run sample_disk tagged_pem (\<lambda>_. ''ab'') (Ok \<lparr>kp_public = [1], kp_private = [2]\<rparr>)
      ''key.pem'' False (Some ''key.pub'') [''key.pub'' \<mapsto> [0]]) ''key.pub'' = Some (as_bytes ''ab'')"
proof -
  let ?r = "generate_keypair_run sample_disk tagged_pem (\<lambda>_. ''ab'') (Ok \<lparr>kp_public = [1], kp_private = [2]\<rparr>)
      ''key.pem'' False (Some ''key.pub'') [''key.pub'' \<mapsto> [0]]"
  have "snd ?r = Ok ''ab''" by (simp add: generate_keypair_run_def sample_disk_def write_file_def Let_def)
  then have "?r = (fst ?r, Ok ''ab'')" by (metis prod.collapse)
  from generated_key_file_loads [OF tagged_pem_laws this] show ?thesis by auto
qed

lemma keypair_serde_roundtrip:
  "pem_laws L \<Longrightarrow> Keypair_visit_str L custom (Keypair_serialize L k) = Ok k"
  by (simp add: Keypair_visit_str_def Keypair_serialize_def keypair_roundtrip)

text \<open>
  A server that is started has a configuration that passed the checks, with the two values of the
  command line put in afterwards, and starts with no connections; it serves with TLS exactly when
  the configuration has certificates.
\<close>

lemma server_command_config_simps:
  "cfg_tls (server_command_config interval session_timeout config) = cfg_tls config"
  "cfg_interval (cfg_session (server_command_config (Some i) session_timeout config)) = i"
  by (simp_all add: server_command_config_def Let_def split: option.splits)

lemma server_command_run_Ok:
  assumes "server_command_run H L P bind path interval session_timeout = Ok s"
  shows "\<exists>config k addr. ServerConfig_load H L path = Ok (config, k) \<and> parse_addr P bind = Ok addr \<and>
    shared_state s = RelayServer_new (server_command_config interval session_timeout config) k \<and>
    reaper_period s = cfg_interval (cfg_session (server_command_config interval session_timeout config)) \<and>
    served s = (case cfg_tls config of Some tls \<Rightarrow> server_run_tls P addr tls | None \<Rightarrow> server_run P addr)"
proof -
  obtain config k addr where "ServerConfig_load H L path = Ok (config, k)" "parse_addr P bind = Ok addr"
    "s = server_start P addr (RelayServer_new (server_command_config interval session_timeout config) k)"
    using assms by (auto simp: server_command_run_def Let_def outcome_simps)
  then show ?thesis
    by (intro exI [of _ config] exI [of _ k] exI [of _ addr])
      (simp add: server_start_def RelayServer_new_def server_command_config_simps)
qed

text \<open>
  The timers of \<open>tokio\<close> refuse a period of zero with a panic. The command line accepts it: the server
  then runs without the task that removes expired meetings and sessions.
\<close>

lemma zero_interval_no_reaper:
  assumes "\<not> valid_period P 0" and "server_command_run H L P bind path (Some 0) session_timeout = Ok s"
  shows "\<not> valid_period P (reaper_period s)"
  using assms(1) server_command_run_Ok [OF assms(2)] by (auto simp: server_command_config_simps)

lemma main_hides_errors: "main_result r \<noteq> Err e"
  by (cases r) auto

end
