(* ===== verification/Bindings.thy ===== *)
theory Bindings
  imports GG20 Commands
begin

text \<open>
  The JavaScript bindings (\<open>bindings/src/lib.rs\<close>): conversion of the arguments, key generation and
  the two entry points, which start a protocol run and return a promise of its result.

  Values of JavaScript are converted by \<open>serde_wasm_bindgen\<close>, whose outcomes are arguments here. A
  promise is the result of the run, \<open>None\<close> while it waits.
\<close>

text \<open>
  The bindings generate a key pair for any noise pattern, but write it with \<open>encode_keypair\<close>, which
  names the pattern of the protocol.
\<close>

datatype js_error = JsSnow snow_error | JsProtocol protocol_error | JsHex | JsLength | JsValue | JsDriver "gg20_error driver_error"

definition bindings_generate_keypair ::
  "pem_ops \<Rightarrow> (string \<Rightarrow> (snow_error, string) outcome) \<Rightarrow> (string \<Rightarrow> (snow_error, keypair) outcome) \<Rightarrow>
   string option \<Rightarrow> (js_error, string) outcome" where
  "bindings_generate_keypair L parse generate pattern =
     (let p = (case pattern of Some p \<Rightarrow> p | None \<Rightarrow> PATTERN) in
      and_then (map_err JsSnow (parse p)) (\<lambda>params.
      and_then (map_err JsProtocol (Keypair_new generate params)) (\<lambda>keypair.
        Ok (encode_keypair L keypair))))"

fun decode_parties :: "(string \<Rightarrow> (unit, bytes) outcome) \<Rightarrow> string list \<Rightarrow> (js_error, bytes list) outcome" where
  "decode_parties hex_decode [] = Ok []"
| "decode_parties hex_decode (p # ps) =
     and_then (map_err (\<lambda>_. JsHex) (hex_decode p)) (\<lambda>k.
     and_then (decode_parties hex_decode ps) (\<lambda>ks. Ok (k # ks)))"

definition parse_participants ::
  "(string \<Rightarrow> (unit, bytes) outcome) \<Rightarrow> string list option \<Rightarrow> (js_error, bytes list option) outcome" where
  "parse_participants hex_decode keys =
     (case keys of None \<Rightarrow> Ok None | Some ps \<Rightarrow> and_then (decode_parties hex_decode ps) (\<lambda>ks. Ok (Some ks)))"

definition parse_message :: "(string \<Rightarrow> (unit, bytes) outcome) \<Rightarrow> string \<Rightarrow> (js_error, bytes) outcome" where
  "parse_message hex_decode message =
     and_then (map_err (\<lambda>_. JsHex) (hex_decode message)) (\<lambda>m. if length m = 32 then Ok m else Err JsLength)"

type_synonym 'a promise = "(js_error, 'a) outcome option"

definition settle :: "(gg20_error driver_error, 'a) outcome option \<Rightarrow> 'a promise" where
  "settle = map_option (map_err JsDriver)"

definition bindings_keygen ::
  "('h, 't) env \<Rightarrow> (bytes \<Rightarrow> bytes) \<Rightarrow> 'key local_key_ops \<Rightarrow> ('m, 'b, 'key) keygen_ops \<Rightarrow> nat \<Rightarrow> (bytes \<Rightarrow> nat) \<Rightarrow>
   (string \<Rightarrow> (client_error, status_code \<times> string) outcome) \<Rightarrow> (string \<Rightarrow> (unit, bytes) outcome) \<Rightarrow> ('h, 't) loop_step list \<Rightarrow>
   (js_error, session_options) outcome \<Rightarrow> (js_error, string list option) outcome \<Rightarrow>
   (js_error, 'key key_share promise) outcome" where
  "bindings_keygen E keccak L K random peer_random dial hex_decode steps options_js participants_js =
     and_then options_js (\<lambda>opts.
     and_then (and_then participants_js (parse_participants hex_decode)) (\<lambda>keys.
       Ok (settle (keygen E keccak L K random peer_random dial opts keys steps))))"

definition bindings_sign ::
  "('h, 't) env \<Rightarrow> (bytes \<Rightarrow> bytes) \<Rightarrow> 'key local_key_ops \<Rightarrow> u16 json_ops \<Rightarrow> ('m, 'b, 'key, 'c) offline_ops \<Rightarrow>
   ('c, 's, 'p, 'g, 'point, 'n) online_ops \<Rightarrow> nat \<Rightarrow> (bytes \<Rightarrow> nat) \<Rightarrow>
   (string \<Rightarrow> (client_error, status_code \<times> string) outcome) \<Rightarrow> (string \<Rightarrow> (unit, bytes) outcome) \<Rightarrow> ('h, 't) loop_step list \<Rightarrow>
   (js_error, session_options) outcome \<Rightarrow> (js_error, string list option) outcome \<Rightarrow> (js_error, 'key private_key) outcome \<Rightarrow>
   (js_error, string) outcome \<Rightarrow> (js_error, 'g any_signature promise) outcome" where
  "bindings_sign E keccak L J P S random peer_random dial hex_decode steps options_js participants_js signing_key message =
     and_then options_js (\<lambda>opts.
     and_then (and_then participants_js (parse_participants hex_decode)) (\<lambda>keys.
     and_then signing_key (\<lambda>signing_key.
     and_then (and_then message (parse_message hex_decode)) (\<lambda>message.
       Ok (settle (sign E keccak L J P S random peer_random dial opts keys signing_key message steps))))))"

subsection \<open>Properties\<close>

text \<open>A key pair generated for another pattern is stored as one of the protocol's pattern.\<close>

lemma bindings_pattern_lost:
  assumes "pem_laws L" and "parse p = Ok params" and "generate params = Ok k"
  shows "\<exists>s. bindings_generate_keypair L parse generate (Some p) = Ok s \<and> decode_keypair L (as_bytes s) = Ok k \<and>
    s = encode_many L [\<lparr>pem_tag = PEM_PATTERN, pem_contents = as_bytes PATTERN\<rparr>,
      \<lparr>pem_tag = PEM_PUBLIC, pem_contents = kp_public k\<rparr>, \<lparr>pem_tag = PEM_PRIVATE, pem_contents = kp_private k\<rparr>]"
  using assms by (simp add: bindings_generate_keypair_def Keypair_new_def keypair_roundtrip)
    (simp add: encode_keypair_def)

lemma parse_message_length: "parse_message hex_decode s = Ok m \<longleftrightarrow> hex_decode s = Ok m \<and> length m = 32"
  by (auto simp: parse_message_def outcome_simps)

lemma parse_participants_Ok:
  "parse_participants hex_decode (Some ps) = Ok (Some ks) \<longleftrightarrow> list_all2 (\<lambda>p k. hex_decode p = Ok k) ps ks"
proof -
  have "decode_parties hex_decode ps = Ok ks \<longleftrightarrow> list_all2 (\<lambda>p k. hex_decode p = Ok k) ps ks"
    by (induction ps arbitrary: ks) (auto simp: outcome_simps list_all2_Cons1)
  then show ?thesis by (auto simp: parse_participants_def outcome_simps)
qed

text \<open>A protocol run starts only when every argument is well-formed, with exactly the decoded arguments.\<close>

lemma bindings_sign_Ok:
  "bindings_sign E keccak L J P S random peer_random dial hex_decode steps options_js participants_js signing_key message = Ok p \<longleftrightarrow>
    (\<exists>opts keys ks key text m. options_js = Ok opts \<and> participants_js = Ok keys \<and> parse_participants hex_decode keys = Ok ks \<and>
      signing_key = Ok key \<and> message = Ok text \<and> hex_decode text = Ok m \<and> length m = 32 \<and>
      p = settle (sign E keccak L J P S random peer_random dial opts ks key m steps))"
  by (auto simp: bindings_sign_def outcome_simps parse_message_length)

end
