(* ===== verification/Page_Generator.thy ===== *)
theory Page_Generator
  imports Commands
begin

text \<open>
  The tool that generates the pages of the browser tests (\<open>tools/src/gen-e2e.rs\<close>): it replaces the
  holes of two templates, one after the other, and writes a script and a page for each of three
  parties. The templates, the key files and the public key of the server, which the program includes
  at compile time, are arguments; so are the base directory and the Keccak digest of the message.
\<close>

subsection \<open>Replacing text\<close>

text \<open>\<open>str::replace\<close> for a pattern that is not empty: all matches from left to right.\<close>

function str_replace :: "string \<Rightarrow> string \<Rightarrow> string \<Rightarrow> string" where
  "str_replace pat new [] = []"
| "str_replace pat new (c # cs) =
     (if pat \<noteq> [] \<and> take (length pat) (c # cs) = pat then new @ str_replace pat new (drop (length pat) (c # cs))
      else c # str_replace pat new cs)"
  by pat_completeness auto
termination
  by (relation "measure (\<lambda>(pat, new, s). length s)") (auto simp: neq_Nil_conv)

fun decimal :: "nat \<Rightarrow> string" where
  "decimal n = (if n < 10 then [char_of (48 + n)] else decimal (n div 10) @ [char_of (48 + n mod 10)])"

declare decimal.simps [simp del]

text \<open>\<open>format!("{:#?}", keys)\<close> for hexadecimal strings, which need no escapes.\<close>

definition debug_list :: "string list \<Rightarrow> string" where
  "debug_list ks =
     (if ks = [] then ''[]''
      else ''['' @ [CHR 0x0A] @ concat (map (\<lambda>k. ''    '' @ [CHR 0x22] @ k @ [CHR 0x22] @ '','' @ [CHR 0x0A]) ks) @ '']'')"

subsection \<open>The pages\<close>

record page_sources =
  js_template :: string
  html_template :: string
  party_keys :: "string list"
  server_key_text :: string

definition SERVER_URL :: string where
  "SERVER_URL = ''ws://127.0.0.1:8008''"

definition page_js :: "string \<Rightarrow> nat \<Rightarrow> string \<Rightarrow> string \<Rightarrow> string \<Rightarrow> string \<Rightarrow> string \<Rightarrow> string" where
  "page_js template index message invited signers keypair server_key =
     fold (\<lambda>(pat, new). str_replace pat new)
       [(''${INDEX}'', decimal index), (''${MESSAGE}'', message), (''${PARTICIPANTS}'', invited),
        (''${SIGNING_PARTICIPANTS}'', signers), (''${KEYPAIR}'', keypair),
        (''${SERVER_URL}'', SERVER_URL), (''${SERVER_PUBLIC_KEY}'', server_key)] template"

text \<open>\<open>fs::write(..).expect(..)\<close>, and the public keys of the other parties, decoded with \<open>unwrap\<close>.\<close>

definition write_or_panic :: "disk_ops \<Rightarrow> string \<Rightarrow> string \<Rightarrow> disk \<Rightarrow> disk \<times> (unit, unit) outcome" where
  "write_or_panic D path contents fs =
     (case write_file D path (as_bytes contents) fs of (fs, Ok _) \<Rightarrow> (fs, Ok ()) | (fs, _) \<Rightarrow> (fs, Panic))"

fun public_keys_of :: "pem_ops \<Rightarrow> (bytes \<Rightarrow> string) \<Rightarrow> string list \<Rightarrow> (unit, string list) outcome" where
  "public_keys_of L hex [] = Ok []"
| "public_keys_of L hex (pem # pems) =
     (case decode_keypair L (as_bytes pem) of
        Ok k \<Rightarrow> and_then (public_keys_of L hex pems) (\<lambda>ks. Ok (hex (kp_public k) # ks))
      | _ \<Rightarrow> Panic)"

fun write_pages ::
  "disk_ops \<Rightarrow> page_sources \<Rightarrow> string \<Rightarrow> string \<Rightarrow> string list \<Rightarrow> string list \<Rightarrow> (nat \<times> string \<times> string) list \<Rightarrow> disk \<Rightarrow>
   disk \<times> (unit, unit) outcome" where
  "write_pages D T dir message joiners signing_joiners [] fs = (fs, Ok ())"
| "write_pages D T dir message joiners signing_joiners ((index, keypair, name) # pages) fs =
     (let invited = (if index = 0 then debug_list joiners else ''null'');
          signers = (if index = 0 then debug_list signing_joiners else ''null'');
          js = page_js (js_template T) index message invited signers keypair (server_key_text T);
          html = str_replace ''${FILE_NAME}'' (name @ ''.js'') (html_template T)
      in st_then (write_or_panic D (dir @ ''/'' @ name @ ''.js'') js fs) (\<lambda>fs _.
         st_then (write_or_panic D (dir @ ''/'' @ name @ ''.html'') html fs) (\<lambda>fs _.
           write_pages D T dir message joiners signing_joiners pages fs) id) id)"

definition gen_e2e_main ::
  "disk_ops \<Rightarrow> pem_ops \<Rightarrow> (bytes \<Rightarrow> string) \<Rightarrow> page_sources \<Rightarrow> string \<Rightarrow> bytes \<Rightarrow> disk \<Rightarrow> disk \<times> (unit, unit) outcome" where
  "gen_e2e_main D L hex T dir digest fs =
     st_then (fs, public_keys_of L hex (drop 1 (party_keys T))) (\<lambda>fs joiners.
     st_then (fs, public_keys_of L hex (drop 2 (party_keys T))) (\<lambda>fs signing_joiners.
       write_pages D T dir (hex digest) joiners signing_joiners
         (zip [0..<3] (zip (party_keys T) [''p1'', ''p2'', ''p3''])) fs) id) id"

subsection \<open>Replacing one hole after the other is substitution\<close>

datatype segment = Lit string | Hole string

primrec render :: "segment \<Rightarrow> string" where
  "render (Lit s) = s"
| "render (Hole n) = ''${'' @ n @ ''}''"

primrec segment_ok :: "segment \<Rightarrow> bool" where
  "segment_ok (Lit s) \<longleftrightarrow> CHR ''$'' \<notin> set s"
| "segment_ok (Hole n) \<longleftrightarrow> CHR ''$'' \<notin> set n \<and> CHR ''}'' \<notin> set n"

primrec fill :: "(string \<rightharpoonup> string) \<Rightarrow> segment \<Rightarrow> segment" where
  "fill vs (Lit s) = Lit s"
| "fill vs (Hole n) = (case vs n of Some v \<Rightarrow> Lit v | None \<Rightarrow> Hole n)"

abbreviation text_of :: "segment list \<Rightarrow> string" where
  "text_of segs \<equiv> concat (map render segs)"

lemma replace_skips:
  "CHR ''$'' \<notin> set s \<Longrightarrow> str_replace (CHR ''$'' # pat) new (s @ rest) = s @ str_replace (CHR ''$'' # pat) new rest"
  by (induction s) auto

lemma replace_match: "pat \<noteq> [] \<Longrightarrow> str_replace pat new (pat @ rest) = new @ str_replace pat new rest"
  by (cases pat) simp_all

lemma names_match:
  "CHR ''}'' \<notin> set a \<Longrightarrow> CHR ''}'' \<notin> set b \<Longrightarrow> a @ ''}'' @ x = b @ ''}'' @ y \<Longrightarrow> a = b"
proof (induction a arbitrary: b)
  case Nil
  then show ?case by (cases b) auto
next
  case (Cons c a)
  then show ?case by (cases b) auto
qed

lemma hole_match:
  assumes "CHR ''}'' \<notin> set name" and "CHR ''}'' \<notin> set n" and "n \<noteq> name"
  shows "take (length (render (Hole name))) (render (Hole n) @ rest) \<noteq> render (Hole name)"
proof
  assume "take (length (render (Hole name))) (render (Hole n) @ rest) = render (Hole name)"
  then have "render (Hole n) @ rest = render (Hole name) @ drop (length (render (Hole name))) (render (Hole n) @ rest)"
    by (metis append_take_drop_id)
  then obtain y where "n @ ''}'' @ rest = name @ ''}'' @ y" by auto
  with names_match [OF assms(2,1)] assms(3) show False by blast
qed

lemma replace_hole:
  assumes "list_all segment_ok segs" and "CHR ''}'' \<notin> set name"
  shows "str_replace (render (Hole name)) new (text_of segs) = text_of (map (fill [name \<mapsto> new]) segs)"
  using assms(1)
proof (induction segs)
  case (Cons seg segs)
  let ?r = "str_replace (render (Hole name)) new (text_of segs)"
  note IH = Cons.IH and ok = Cons.prems
  show ?case
  proof (cases seg)
    case (Lit s)
    then show ?thesis using replace_skips [of s "''{'' @ name @ ''}''" new "text_of segs"] IH ok by simp
  next
    case (Hole n)
    show ?thesis
    proof (cases "n = name")
      case True
      then show ?thesis using replace_match [of "render (Hole name)" new "text_of segs"] IH ok Hole by simp
    next
      case False
      have "CHR ''}'' \<notin> set n" and n: "CHR ''$'' \<notin> set (''{'' @ n @ ''}'')" using ok Hole by auto
      then have "str_replace (render (Hole name)) new (render (Hole n) @ text_of segs) =
          CHR ''$'' # str_replace (render (Hole name)) new ((''{'' @ n @ ''}'') @ text_of segs)"
        using hole_match [OF assms(2), of n "text_of segs"] False by simp
      also have "\<dots> = render (Hole n) @ ?r"
        using replace_skips [OF n, of "''{'' @ name @ ''}''" new "text_of segs"] by simp
      finally show ?thesis using IH ok Hole False by simp
    qed
  qed
qed simp

lemma fill_ok: "list_all segment_ok segs \<Longrightarrow> CHR ''$'' \<notin> set v \<Longrightarrow> list_all segment_ok (map (fill [n \<mapsto> v]) segs)"
proof (induction segs)
  case (Cons seg segs)
  then show ?case by (cases seg) auto
qed simp

lemma fill_fill: "fill vs (fill [n \<mapsto> v] seg) = fill (vs(n \<mapsto> v)) seg"
  by (cases seg) auto

text \<open>Replacing the holes of a list of names, with values that have no dollar sign.\<close>

lemma replace_all_holes:
  assumes "list_all segment_ok segs" and "\<forall>(n, v)\<in>set vs. CHR ''}'' \<notin> set n \<and> CHR ''$'' \<notin> set v" and "distinct (map fst vs)"
  shows "fold (\<lambda>(pat, new). str_replace pat new) (map (\<lambda>(n, v). (render (Hole n), v)) vs) (text_of segs) =
    text_of (map (fill (map_of vs)) segs)"
  using assms
proof (induction vs arbitrary: segs)
  case Nil
  have "fill Map.empty seg = seg" for seg by (cases seg) simp_all
  then show ?case by (simp add: comp_def)
next
  case (Cons x vs)
  obtain n v where x: "x = (n, v)" by fastforce
  have m: "map_of (x # vs) = (map_of vs)(n \<mapsto> v)" by (simp add: x)
  have "map (fill (map_of (x # vs))) segs = map (fill (map_of vs)) (map (fill [n \<mapsto> v]) segs)"
    unfolding m by (simp add: fill_fill)
  then show ?case
    using Cons.IH [OF fill_ok [OF Cons.prems(1)], of v n] Cons.prems replace_hole [OF Cons.prems(1), of n v]
    by (simp only:) (simp add: x)
qed

text \<open>
  The script of a page is the template with all holes filled at once: no value is searched for
  holes again, although the tool replaces one name after the other, as long as no value contains a
  dollar sign. Other expressions of the template in the same syntax stay as they are.
\<close>

lemma page_js_substitution:
  assumes "list_all segment_ok segs"
    and "\<forall>v\<in>{message, invited, signers, keypair, server_key}. CHR ''$'' \<notin> set v" and "index < 10"
  shows "page_js (text_of segs) index message invited signers keypair server_key =
    text_of (map (fill [''INDEX'' \<mapsto> decimal index, ''MESSAGE'' \<mapsto> message, ''PARTICIPANTS'' \<mapsto> invited,
      ''SIGNING_PARTICIPANTS'' \<mapsto> signers, ''KEYPAIR'' \<mapsto> keypair, ''SERVER_URL'' \<mapsto> SERVER_URL,
      ''SERVER_PUBLIC_KEY'' \<mapsto> server_key]) segs)"
proof -
  let ?vs = "[(''INDEX'', decimal index), (''MESSAGE'', message), (''PARTICIPANTS'', invited),
      (''SIGNING_PARTICIPANTS'', signers), (''KEYPAIR'', keypair), (''SERVER_URL'', SERVER_URL),
      (''SERVER_PUBLIC_KEY'', server_key)]"
  have "char_of (48 + index) \<noteq> CHR ''$''"
    using assms(3) by (auto simp: char_of_eq_iff take_bit_eq_mod)
  then have d: "CHR ''$'' \<notin> set (decimal index)" using assms(3) by (simp add: decimal.simps)
  have "page_js (text_of segs) index message invited signers keypair server_key =
      fold (\<lambda>(pat, new). str_replace pat new) (map (\<lambda>(n, v). (render (Hole n), v)) ?vs) (text_of segs)"
    by (simp add: page_js_def)
  also have "\<dots> = text_of (map (fill (map_of ?vs)) segs)"
    using d assms(2) by (intro replace_all_holes [OF assms(1)]) (auto simp: SERVER_URL_def)
  also have "map_of ?vs = [''INDEX'' \<mapsto> decimal index, ''MESSAGE'' \<mapsto> message, ''PARTICIPANTS'' \<mapsto> invited,
      ''SIGNING_PARTICIPANTS'' \<mapsto> signers, ''KEYPAIR'' \<mapsto> keypair, ''SERVER_URL'' \<mapsto> SERVER_URL,
      ''SERVER_PUBLIC_KEY'' \<mapsto> server_key]"
    by (rule ext) simp
  finally show ?thesis .
qed

end
