(* ===== verification/Web_Client.thy ===== *)
theory Web_Client
  imports Network_Transport
begin

text \<open>
  The client for browsers (\<open>client/src/web.rs\<close>). Its operations are those of the native client,
  generated by the same macros; its own code sets up the socket, passes the data of message events
  through a queue to the event loop, and owns the sender of that queue through a raw pointer.

  \<open>web_queue\<close> is the queue between the closure and the event loop. The event data is a buffer or
  something else, which is logged and dropped.
\<close>

subsection \<open>Operations\<close>

datatype js_data = ArrayBuffer bytes | OtherData

record web_queue =
  queued :: "bytes list"
  receiver_open :: bool

text \<open>
  \<open>WebClient::new\<close>: \<open>socket\<close> is the outcome of \<open>WebSocket::new\<close>, and \<open>None\<close> stands for a socket that
  never opens, on which the constructor waits.
\<close>

definition web_client_new ::
  "('h, 't) env \<Rightarrow> nat \<Rightarrow> (client_error, unit) outcome \<Rightarrow> bool \<Rightarrow> client_options \<Rightarrow>
   (client_error, ('h, 't) client \<times> web_queue) outcome option" where
  "web_client_new E random created opens opts =
     (case created of
        Err e \<Rightarrow> Some (Err e)
      | Panic \<Rightarrow> Some Panic
      | Ok _ \<Rightarrow>
          if \<not> opens then None
          else Some (
            and_then (ClientOptions_params E opts) (\<lambda>params.
            and_then (map_err Client_Snow
                (build_initiator (snow E) random params (kp_private (opt_keypair opts)) (opt_server_key opts))) (\<lambda>handshake.
              Ok (\<lparr>options = opts, server_channel = Some (Handshake handshake), peers = Map.empty, outbound = [],
                   outbound_open = True, inbound = [], socket = []\<rparr>, \<lparr>queued = [], receiver_open = True\<rparr>)))))"

text \<open>
  The message event closure: when the event loop is gone it decodes the buffer to log it, and
  unwraps the result.
\<close>

definition web_on_message :: "('h, 't) env \<Rightarrow> js_data \<Rightarrow> web_queue \<Rightarrow> web_queue \<times> (unit, unit) outcome" where
  "web_on_message E data q =
     (case data of
        ArrayBuffer buffer \<Rightarrow>
          if receiver_open q then (q\<lparr>queued := queued q @ [buffer]\<rparr>, Ok ())
          else (q, (case decode ResponseMessage_decode (stream E) buffer of Ok _ \<Rightarrow> Ok () | _ \<Rightarrow> Panic))
      | OtherData \<Rightarrow> (q, Ok ()))"

definition web_read_message :: "('h, 't) env \<Rightarrow> bytes \<Rightarrow> ('h, 't) client \<Rightarrow> ('h, 't, unit) client_result" where
  "web_read_message E incoming_bytes c =
     st_then (c, map_err Client_Protocol (inflate E incoming_bytes)) (\<lambda>c inflated.
     st_then (c, map_err Client_Io (decode ResponseMessage_decode (stream E) inflated)) (\<lambda>c response.
       (c\<lparr>inbound := inbound c @ [response]\<rparr>, Ok ())) id) id"

text \<open>\<open>start_send\<close> of the sink: \<open>sent\<close> is the outcome of sending on the socket.\<close>

definition web_start_send :: "bool \<Rightarrow> bytes \<Rightarrow> ('h, 't) client \<Rightarrow> ('h, 't, unit) client_result" where
  "web_start_send sent item c =
     (if sent then (c\<lparr>socket := socket c @ [WsBinary item]\<rparr>, Ok ()) else (c, Err Client_Websocket))"

text \<open>The sink is always ready, and has nothing to flush or to close.\<close>

definition web_poll_ready :: "(client_error, unit) outcome" where
  "web_poll_ready = Ok ()"

definition web_poll_flush :: "(client_error, unit) outcome" where
  "web_poll_flush = Ok ()"

definition web_poll_close :: "(client_error, unit) outcome" where
  "web_poll_close = Ok ()"

text \<open>\<open>SinkExt::send\<close> of the \<open>futures\<close> crate: wait until the sink is ready, send, flush.\<close>

definition sink_send :: "bool \<Rightarrow> bytes \<Rightarrow> ('h, 't) client \<Rightarrow> ('h, 't, unit) client_result" where
  "sink_send sent item c =
     st_then (c, web_poll_ready) (\<lambda>c _. st_then (web_start_send sent item c) (\<lambda>c _. (c, web_poll_flush)) id) id"

definition web_send_message ::
  "('h, 't) env \<Rightarrow> bool \<Rightarrow> request_message \<Rightarrow> ('h, 't) client \<Rightarrow> ('h, 't, unit) client_result" where
  "web_send_message E sent message c =
     st_then (c, map_err Client_Io (encode RequestMessage_encode (stream E) message)) (\<lambda>c encoded.
     st_then (c, map_err Client_Protocol (deflate E encoded)) (\<lambda>c deflated.
     st_then (apsnd (map_err (\<lambda>_. WebSocketSend)) (sink_send sent deflated c)) (\<lambda>c _.
       (c, map_err (\<lambda>_. WebSocketSend) web_poll_flush)) id) id) id"

text \<open>The arm of the event loop that reads the queue, and the arm that writes.\<close>

definition web_loop_read ::
  "('h, 't) env \<Rightarrow> web_queue \<Rightarrow> ('h, 't) client \<Rightarrow>
   web_queue \<times> ('h, 't) client \<times> (client_error, client_event) outcome list" where
  "web_loop_read E q c =
     (case queued q of
        [] \<Rightarrow> (q, c, [])
      | buffer # rest \<Rightarrow>
          (case yields (st_then (web_read_message E buffer c) (\<lambda>c _. (c, Ok None)) id) of
             (c, events) \<Rightarrow> (q\<lparr>queued := rest\<rparr>, c, events)))"

definition web_loop_write ::
  "('h, 't) env \<Rightarrow> bool \<Rightarrow> (client_error, unit) outcome \<Rightarrow> web_queue \<Rightarrow> ('h, 't) client \<Rightarrow>
   web_queue \<times> ('h, 't) client \<times> (client_error, client_event) outcome list" where
  "web_loop_write E sent closed q c =
     (case outbound c of
        [] \<Rightarrow> (q, c, [])
      | Internal_Request m # rest \<Rightarrow>
          (case yields (st_then (web_send_message E sent m (c\<lparr>outbound := rest\<rparr>)) (\<lambda>c _. (c, Ok None)) id) of
             (c, events) \<Rightarrow> (q, c, events))
      | Internal_Close # rest \<Rightarrow>
          (q\<lparr>receiver_open := False, queued := []\<rparr>, c\<lparr>outbound := [], outbound_open := False\<rparr>,
           (case closed of Err e \<Rightarrow> [Err e] | _ \<Rightarrow> []) @ [Ok Ev_Close]))"

text \<open>
  The pointer to the sender: the client is cloneable and dropping a client drops the sender in
  place. \<open>live\<close> are the pointers whose sender has not been dropped; dropping it a second time is
  undefined behaviour, the value \<open>None\<close>.
\<close>

definition drop_web_client :: "nat \<Rightarrow> nat set \<Rightarrow> nat set option" where
  "drop_web_client ptr live = (if ptr \<in> live then Some (live - {ptr}) else None)"

text \<open>
  The life of the page around the client. The message event closure is registered at the socket
  and uses the sender behind the pointer; \<open>handle_close_message\<close> removes the closures and closes the
  socket, dropping a client drops the sender in place and leaves the closures registered. A
  message event that uses a dropped sender is undefined behaviour, the value \<open>None\<close>.
\<close>

record web_page =
  page_queue :: web_queue
  listening :: bool
  sender_live :: bool

definition web_message_event :: "('h, 't) env \<Rightarrow> js_data \<Rightarrow> web_page \<Rightarrow> (web_page \<times> (unit, unit) outcome) option" where
  "web_message_event E data p =
     (if \<not> listening p then Some (p, Ok ())
      else if data \<noteq> OtherData \<and> \<not> sender_live p then None
      else let (q, x) = web_on_message E data (page_queue p) in Some (p\<lparr>page_queue := q\<rparr>, x))"

text \<open>The event loop is consumed, and with it the receiver of the queue.\<close>

definition web_handle_close_message :: "(client_error, unit) outcome \<Rightarrow> web_page \<Rightarrow> web_page \<times> (client_error, unit) outcome" where
  "web_handle_close_message closed p =
     (p\<lparr>listening := False, page_queue := \<lparr>queued = [], receiver_open = False\<rparr>\<rparr>, closed)"

definition web_page_drop :: "web_page \<Rightarrow> web_page option" where
  "web_page_drop p = (if sender_live p then Some (p\<lparr>sender_live := False\<rparr>) else None)"

subsection \<open>Properties\<close>

fun web_read_all ::
  "('h, 't) env \<Rightarrow> nat \<Rightarrow> web_queue \<Rightarrow> ('h, 't) client \<Rightarrow> web_queue \<times> ('h, 't) client \<times> (client_error, client_event) outcome list" where
  "web_read_all E 0 q c = (q, c, [])"
| "web_read_all E (Suc n) q c =
     (case web_loop_read E q c of (q, c, events) \<Rightarrow>
        (case web_read_all E n q c of (q, c, later) \<Rightarrow> (q, c, events @ later)))"

fun native_read_all ::
  "('h, 't) env \<Rightarrow> ws_message list \<Rightarrow> ('h, 't) client \<Rightarrow> ('h, 't) client \<times> (client_error, client_event) outcome list" where
  "native_read_all E [] c = (c, [])"
| "native_read_all E (m # ms) c =
     (case loop_read E (Some m) c of (c, events) \<Rightarrow>
        (case native_read_all E ms c of (c, later) \<Rightarrow> (c, events @ later)))"

fun deliver :: "('h, 't) env \<Rightarrow> js_data list \<Rightarrow> web_queue \<Rightarrow> web_queue" where
  "deliver E [] q = q"
| "deliver E (d # ds) q = deliver E ds (fst (web_on_message E d q))"

text \<open>The frame that the native client sees where the browser delivers an event.\<close>

fun frame_of :: "js_data \<Rightarrow> ws_message" where
  "frame_of (ArrayBuffer b) = WsBinary b"
| "frame_of OtherData = WsText []"

lemma deliver_queue:
  "receiver_open q \<Longrightarrow> deliver E ds q = q\<lparr>queued := queued q @ [b. ArrayBuffer b \<leftarrow> ds]\<rparr>"
proof (induction ds arbitrary: q)
  case (Cons d ds)
  then show ?case by (cases d) (simp_all add: web_on_message_def)
qed simp

lemma native_ignores_text:
  "native_read_all E (map frame_of ds) c = native_read_all E (map WsBinary [b. ArrayBuffer b \<leftarrow> ds]) c"
proof (induction ds arbitrary: c)
  case (Cons d ds)
  then show ?case by (cases d) (simp_all add: loop_read_def client_read_message_def yields_def split: prod.splits)
qed simp

lemma web_read_all_native:
  "length (queued q) = n \<Longrightarrow> web_read_all E n q c =
     (q\<lparr>queued := []\<rparr>, native_read_all E (map WsBinary (queued q)) c)"
proof (induction n arbitrary: q c)
  case (Suc n)
  then obtain b rest where q: "queued q = b # rest" "length rest = n" by (cases "queued q") auto
  have r: "web_read_message E b c = client_read_message E (WsBinary b) c"
    by (simp add: web_read_message_def client_read_message_def)
  show ?case
    using Suc.IH [of "q\<lparr>queued := rest\<rparr>"] q
    by (simp add: web_loop_read_def loop_read_def r split: prod.splits)
qed simp

text \<open>
  C37: The browser client is the native client on the frames that arrive as buffers: what the
  message events deliver while the event loop runs, read until the queue is empty, changes the
  client and yields events exactly as the native event loop does on the same frames; writing
  requests is the same on both, and so is the client that a successful connection creates.
\<close>

theorem web_client_equivalent:
  assumes "receiver_open q" and "queued q = []"
  shows "web_read_all E (length (queued (deliver E ds q))) (deliver E ds q) c =
      (q, native_read_all E (map frame_of ds) c) \<and>
    web_send_message E sent m c = client_send_message E sent m c \<and>
    map_option (\<lambda>r. and_then r (\<lambda>(c, q). Ok c)) (web_client_new E random (Ok ()) True opts) =
      Some (client_new E random (Ok (SWITCHING_PROTOCOLS, reason)) opts)"
proof -
  have "q\<lparr>queued := []\<rparr> = q" using assms(2) by (cases q) simp
  then have "web_read_all E (length (queued (deliver E ds q))) (deliver E ds q) c =
      (q, native_read_all E (map frame_of ds) c)"
    using assms by (simp add: deliver_queue web_read_all_native native_ignores_text)
  moreover have "web_send_message E sent m c = client_send_message E sent m c"
    by (cases sent) (simp_all add: web_send_message_def client_send_message_def sink_send_def web_start_send_def
        web_poll_ready_def web_poll_flush_def)
  moreover have "map_option (\<lambda>r. and_then r (\<lambda>(c, q). Ok c)) (web_client_new E random (Ok ()) True opts) =
      Some (client_new E random (Ok (SWITCHING_PROTOCOLS, reason)) opts)"
    by (simp add: web_client_new_def client_new_def and_then_assoc)
  ultimately show ?thesis by blast
qed

theorem web_client_equivalent_witness:
  "web_read_all sample_env (length (queued (deliver sample_env [ArrayBuffer [1, 2], OtherData] \<lparr>queued = [], receiver_open = True\<rparr>)))
     (deliver sample_env [ArrayBuffer [1, 2], OtherData] \<lparr>queued = [], receiver_open = True\<rparr>) (sample_client [5]) =
   (\<lparr>queued = [], receiver_open = True\<rparr>, native_read_all sample_env [WsBinary [1, 2], WsText []] (sample_client [5]))"
  using web_client_equivalent [of "\<lparr>queued = [], receiver_open = True\<rparr>" sample_env "[ArrayBuffer [1, 2], OtherData]" "sample_client [5]"]
  by simp

text \<open>
  A clone of a browser client shares the pointer: dropping both drops the sender twice. A message
  that arrives when the event loop has ended panics unless the compressed frame happens to decode.
\<close>

lemma web_clones_drop_twice: "Option.bind (drop_web_client p live) (drop_web_client p) = None"
  by (simp add: drop_web_client_def)

lemma late_message_panics:
  assumes "\<not> receiver_open q" and "\<And>m. decode ResponseMessage_decode (stream E) frame \<noteq> Ok m"
  shows "web_on_message E (ArrayBuffer frame) q = (q, Panic)"
  using assms by (cases "decode ResponseMessage_decode (stream E) frame") (auto simp: web_on_message_def)

text \<open>
  Dropping the client is safe only after closing it: then no event reaches the dropped sender. A
  client that is dropped while its socket is open, as on every early return with \<open>?\<close>, leaves a
  closure with a dangling sender, and the next frame is undefined behaviour.
\<close>

fun web_message_events :: "('h, 't) env \<Rightarrow> js_data list \<Rightarrow> web_page \<Rightarrow> web_page option" where
  "web_message_events E [] p = Some p"
| "web_message_events E (d # ds) p = Option.bind (web_message_event E d p) (\<lambda>(p, _). web_message_events E ds p)"

lemma not_listening_ignores: "\<not> listening p \<Longrightarrow> web_message_events E ds p = Some p"
  by (induction ds) (simp_all add: web_message_event_def)

lemma web_drop_needs_close:
  assumes "sender_live p" and "listening p"
  shows "(\<exists>p'. web_page_drop (fst (web_handle_close_message closed p)) = Some p' \<and>
      web_message_events E ds p' = Some p') \<and>
    (\<exists>p'. web_page_drop p = Some p' \<and>
      (web_message_events E ds p' = None \<longleftrightarrow> (\<exists>b. ArrayBuffer b \<in> set ds)))"
proof -
  have "web_message_events E ds q = None \<longleftrightarrow> (\<exists>b. ArrayBuffer b \<in> set ds)"
    if "\<not> sender_live q" "listening q" for q
    using that
  proof (induction ds arbitrary: q)
    case (Cons d ds)
    then show ?case by (cases d) (auto simp: web_message_event_def web_on_message_def)
  qed simp
  then show ?thesis
    using assms by (simp add: web_page_drop_def web_handle_close_message_def not_listening_ignores)
qed

end
