(* ===== verification/Spec2Isabelle.thy ===== *)
theory Spec2Isabelle
  imports Network Protocol_Results Bounded_Queues Bindings Page_Generator Web_Client
begin

text \<open>
  \<^bold>\<open>A relay for multi-party computation: clients, server and protocol drivers.\<close>

  The program is a relay server and a client library for threshold signatures. Clients connect to
  the server by websocket and perform a Noise handshake with it; they create sessions, perform
  Noise handshakes with each other through the server, and then exchange messages that the server
  relays without reading them. Protocol drivers run key generation and signing over such a session.

  \<^bold>\<open>Theories and sources.\<close>

  \<^item> \<open>Prelude\<close>: outcomes with \<open>Ok\<close>, \<open>Err\<close> and \<open>Panic\<close>, the operator \<open>?\<close> on outcomes and on stateful
    calls, slices, checked arithmetic, association lists.
  \<^item> \<open>Messages\<close> (\<open>protocol/src/protocol.rs\<close>): the message types, and party numbers, connections and
    recipients of a session as its participants see it.
  \<^item> \<open>Binary_Stream\<close>: the laws of the \<open>binary-stream\<close> crate, a parameter, with an instance.
    \<open>Encoding\<close> (\<open>protocol/src/encoding\<close>): every encoder and decoder; round trips, no input makes a
    decoder panic, what is decoded is encodable.
  \<^item> \<open>Noise_Channel\<close> (\<open>protocol/src/channel.rs\<close>, \<open>Chunk\<close> of \<open>protocol.rs\<close>): encryption in chunks over
    the \<open>snow\<close> crate, a parameter; a locale for sealed channels, interpreted on the server channel
    here and on the peer channel in \<open>Client\<close>, gives in-order delivery.
  \<^item> \<open>Sessions\<close> (managers of \<open>protocol.rs\<close>): sessions and meetings with expiry; a locale for stores
    with expiry, interpreted on both.
  \<^item> \<open>Keypair\<close> (\<open>protocol/src/keypair.rs\<close>), \<open>Server_Config\<close> (\<open>server/src/config.rs\<close>,
    \<open>src/commands/server.rs\<close>), \<open>Commands\<close> (\<open>src/main.rs\<close>, \<open>src/commands\<close> and the start of the server
    in \<open>server/src/server.rs\<close>), \<open>Page_Generator\<close> (\<open>tools/gen-e2e\<close>).
  \<^item> \<open>Relay_Server\<close> (\<open>server/src/websocket.rs\<close>, \<open>service.rs\<close>, \<open>server.rs\<close>): connections, request
    handlers, notifications, waiting tasks and the reaper, as functions on the server state.
    \<open>Relay_Machine\<close>: the server as a step relation, its invariant and the properties of reachable
    states.
  \<^item> \<open>Client\<close> (\<open>client/src/client.rs\<close>, \<open>event_loop.rs\<close>, \<open>native.rs\<close>, \<open>lib.rs\<close>): the operations of the
    client and one step per arm of its event loop. \<open>Network_Transport\<close> (\<open>client/src/transport.rs\<close>).
    \<open>Client_Machine\<close>: the client as a machine that performs calls and steps of its event loop in any
    order; all it writes is well-formed, and the sizes of what it seals.
    \<open>Web_Client\<close> (\<open>client/src/web.rs\<close>): the browser client, equivalent to the native one on buffers,
    and the life of its page: message closure, closing, dropping.
  \<^item> \<open>Rounds\<close> (\<open>driver/src/round.rs\<close>) and \<open>Bridge\<close> (\<open>driver/src/bridge.rs\<close>): the round buffer, and
    the bridge from events to a protocol driver, which refines processing of complete rounds.
  \<^item> \<open>Session_Handlers\<close> (\<open>driver/src/session.rs\<close>): initiator and participants of a session.
    \<open>Bounded_Queues\<close> (the channels of \<open>native.rs\<close> and \<open>web.rs\<close>, with the calls and handlers that send to
    them): calls that wait for room, related to the calls without a bound by a locale.
    \<open>GG20\<close> (\<open>driver/src/gg20\<close>, \<open>driver/src/lib.rs\<close>): the drivers of key generation and signing and
    the entry points. \<open>Protocol_Runs\<close>: the rounds of a protocol over a whole event stream, and
    what happens to messages that come too early. \<open>Protocol_Results\<close>: the trait \<open>Driver\<close> of
    \<open>driver/src/lib.rs\<close> with its implementations, and what whole runs of \<open>keygen\<close> and \<open>sign\<close>
    return, and how a peer that is ahead ends a run. \<open>Bindings\<close> (\<open>bindings/src/lib.rs\<close>): conversions of arguments and the two exported entry
    points.
  \<^item> \<open>End_To_End\<close> and this theory: composition of client, server and a second client. \<open>Network\<close>: any
    number of clients and the server with the sockets between them, as a step relation.

  \<^bold>\<open>State and effects.\<close> A handler takes the state and returns the new state with an outcome; what
  it changed before it failed stays changed. The operators \<open>?\<close>, \<open>unwrap\<close>, slicing and
  \<open>unreachable!\<close> are written out. A handler is one step, and interleavings are sequences of steps.
  This is coarser than the locks of the program: they are released between the transport mode of a
  connection and its promotion, and between the session check of a peer message and its relaying,
  so that another task can run in between there, which the model does not show. Each handler reads the
  clock at most once. The waiting tasks of the server are data with one \<open>tick\<close> per iteration. The
  event stream of a client is the list of steps that its event loop still makes, and a loop that
  waits on a stream without further steps has the value \<open>None\<close>; no other fuel is used.

  \<^bold>\<open>What is assumed.\<close> \<open>env_laws\<close> collects the laws of the libraries: \<open>stream_laws\<close> (what is
  written is read back), \<open>zlib_laws\<close> (inflating undoes deflating), \<open>transport_laws\<close> and
  \<open>handshake_laws\<close> (two ends of a Noise handshake are synchronised, and what one writes the other
  reads). \<open>wire_laws\<close> is the part that holds with an arbitrary partner: sizes of what \<open>snow\<close> writes, and
  that it does not panic; \<open>env_safe\<close> and \<open>builder_safe\<close> say of the operations of the libraries that
  they return a result instead of panicking. Each has an instance, which the witnesses use. The laws of \<open>snow\<close> leave out that nonces run out
  after 2 to the 64 messages. JSON, PEM, hex, elliptic curves, Keccak
  and the state machines of GG20 are parameters without laws, but for what a property says.

  \<^bold>\<open>What is shown.\<close> A payload that one client relays is what another receives; handshakes with
  the server and between peers complete; the reachable states of the server are consistent, only
  the owner of a session closes it, and a request panics only on a declared length beyond its
  buffer; a session becomes active exactly when the connections that its participants are to make
  have been reported, and every pair is connected once; the bridge runs the rounds of a protocol in
  order whatever the interleaving and comes to a result, over every stream of events; whatever a
  client is asked to do, what it writes decodes to a well-formed request; clients and server that
  all run this code do not make each other panic, unless a handshake has failed; the parties of a signature agree on the
  signing parties; a key share that \<open>keygen\<close> returns is the result of its state machine on the
  messages of the rounds, and a signature that \<open>sign\<close> returns verifies for the message. Several
  properties state where the code fails: see the lemmas on lost channels, party numbers, the
  numbering of the offline stage, messages that come too early or from a peer that is ahead, a peer
  that decides alone who signs, sessions of more than 33 participants, and a browser client that is
  dropped open.

  \<^bold>\<open>Not modelled.\<close> The HTTP router, TLS and sockets; promises and values of JavaScript in the
  bindings; the development server of \<open>tools\<close>, which only hands a directory and an address to a
  web framework; back pressure, outside \<open>Bounded_Queues\<close>, whose results say when the queue of requests of
  a client needs none (elsewhere a queue takes every message while it is open: the queue of decoded
  messages, which only the event loop fills and empties, the queue of the browser client, whose
  senders wait in order, and the queues of the server); the order of iteration of hash maps where the code iterates over one (the model uses
  insertion order); and cryptography, below the laws above.
\<close>

subsection \<open>Properties across client and server\<close>

text \<open>
  C10: The handshake between a client and the server completes: the client's \<open>connect\<close>, the
  server's handling of the frame it sends and the client's handling of the reply leave both ends in
  transport mode with synchronised channels in both directions, the client reports the connection
  and the server has moved it from pending to active under the key it offered.
\<close>

theorem server_handshake_completes:
  assumes laws: "env_laws E paired sync"
    and client: "server_channel c = Some (Handshake i)" "outbound c = []" "outbound_open c" "inbound c = []"
    and conn: "conn_state (conns s r) = Some (Handshake h)" "incoming (conns s r) = []"
      "incoming_open (conns s r)" "outgoing_open (conns s r)"
    and paired: "paired i h"
  shows "\<exists>c1 c2 frame s' reply c3 c4 ti tr.
    client_connect E c = (c1, Ok ()) \<and> loop_write E True (Ok ()) c1 = (c2, []) \<and>
    socket c2 = socket c @ [WsBinary frame] \<and> hop E now new_id r (WsBinary frame) s = s' \<and>
    outgoing (conns s' r) = outgoing (conns s r) @ [reply] \<and>
    loop_read E (Some reply) c2 = (c3, []) \<and>
    loop_event E random c3 = (c4, [Ok (ServerConnected (opt_server_key (options c)))]) \<and>
    server_channel c4 = Some (Transport ti) \<and> conn_state (conns s' r) = Some (Transport tr) \<and>
    sync ti tr \<and> sync tr ti \<and>
    active s' (conn_key (conns s r)) = Some r \<and> pending s' (conn_id (conns s r)) = None"
proof -
  have L: "stream_laws (stream E)" "zlib_laws E" "handshake_laws (snow E) paired sync"
    using laws by (auto simp: env_laws_def)
  obtain i1 m1 h1 h2 m2 i2 ti tr where
    hs: "handshake_write (snow E) i [] 1024 = (i1, Ok m1)" "length m1 \<le> 1024"
      "handshake_read (snow E) h m1 1024 = (h1, Ok [])" "handshake_write (snow E) h1 [] 1024 = (h2, Ok m2)"
      "length m2 \<le> 1024" "handshake_read (snow E) i1 m2 1024 = (i2, Ok [])"
      "into_transport_mode (snow E) i2 = Ok ti" "into_transport_mode (snow E) h2 = Ok tr" "sync ti tr" "sync tr ti"
    using handshake_messages [OF L(3) paired] by blast
  let ?q = "Request_Transparent (ServerHandshake (Handshake_Initiator (length m1) (handshake_frame m1)))"
  let ?p = "Response_Transparent (ServerHandshake (Handshake_Responder (length m2) (handshake_frame m2)))"
  let ?c1 = "c\<lparr>server_channel := Some (Handshake i1), outbound := [Internal_Request ?q]\<rparr>"
  have 1: "client_connect E c = (?c1, Ok ())"
    using client hs(1) by (simp add: client_connect_def outbound_send_def)
  obtain frame reply s' where 2:
    "loop_write E True (Ok ()) ?c1 = (?c1\<lparr>outbound := [], socket := socket ?c1 @ [WsBinary frame]\<rparr>, [])"
    "hop E now new_id r (WsBinary frame) s = s'"
    "\<And>d. loop_read E (Some (WsBinary reply)) d = (d\<lparr>inbound := inbound d @ [?p]\<rparr>, [])"
    "outgoing (conns s' r) = outgoing (conns s r) @ [WsBinary reply]" "conn_state (conns s' r) = Some (Transport tr)"
    "active s' (conn_key (conns s r)) = Some r" "pending s' (conn_id (conns s r)) = None"
    by (rule server_handshake_hop [OF L(1,2) conn hs(2-5) hs(8), of ?c1 now new_id]) (simp, rule that, assumption+)
  let ?c2 = "?c1\<lparr>outbound := [], socket := socket ?c1 @ [WsBinary frame]\<rparr>"
  have 3: "loop_event E random (?c2\<lparr>inbound := inbound ?c2 @ [?p]\<rparr>) =
      (?c2\<lparr>inbound := [], server_channel := Some (Transport ti)\<rparr>, [Ok (ServerConnected (opt_server_key (options c)))])"
    using client hs
    by (simp add: loop_event_def handle_incoming_message_def client_server_handshake_def some_event_def
        yields_def Let_def)
  show ?thesis
    using 1 2 3 hs(9,10) by (intro exI conjI) (assumption | simp | rule refl)+
qed

theorem server_handshake_completes_witness:
  "\<exists>c1 c2 frame s' reply c3 c4.
    client_connect sample_env (sample_client [9]) = (c1, Ok ()) \<and> loop_write sample_env True (Ok ()) c1 = (c2, []) \<and>
    socket c2 = [WsBinary frame] \<and> hop sample_env 0 [] 0 (WsBinary frame) connected = s' \<and>
    outgoing (conns s' 0) = outgoing (conns connected 0) @ [reply] \<and>
    loop_read sample_env (Some reply) c2 = (c3, []) \<and>
    loop_event sample_env 0 c3 = (c4, [Ok (ServerConnected [1])]) \<and> active s' [9] = Some 0"
proof -
  have "server_channel (sample_client [9]) = Some (Handshake (True, 0))"
    "outbound (sample_client [9]) = []" "outbound_open (sample_client [9])" "inbound (sample_client [9]) = []"
    by (simp_all add: sample_client_def)
  moreover have "conn_state (conns connected 0) = Some (Handshake (False, 0))" "incoming (conns connected 0) = []"
    "incoming_open (conns connected 0)" "outgoing_open (conns connected 0)"
    by (simp_all add: connected_state)
  moreover have "counter_paired (True, 0) (False, 0)" by (simp add: counter_paired_def)
  moreover have d: "socket (sample_client [9]) = []" "opt_server_key (options (sample_client [9])) = [1]"
    "conn_key (conns connected 0) = [9]"
    by (simp_all add: sample_client_def connected_state)
  ultimately show ?thesis
    using server_handshake_completes [OF sample_env_laws, of "sample_client [9]" "(True, 0)" connected 0 "(False, 0)" 0 "[]" 0]
    unfolding d append_Nil by blast
qed

fun message_event :: "encoding \<Rightarrow> bytes \<Rightarrow> bytes \<Rightarrow> session_id option \<Rightarrow> client_event" where
  "message_event Json key payload sid = JsonMessage key payload sid"
| "message_event _ key payload sid = BinaryMessage key payload sid"

text \<open>
  C1: A message from one client reaches the other: what client A relays to the key of client B over
  their established channel is accepted by the server, queued for B alone, and handled by B's event
  loop as an event with A's key, exactly the payload A sent, its encoding and its session, and the
  channel stays synchronised. With a session, B must be one of its participants.
\<close>

theorem relayed_message_delivered:
  assumes laws: "env_laws E paired sync"
    and A: "peers a keyB = Some (Transport ta)" "outbound a = []" "outbound_open a"
    and B: "peers b keyA = Some (Transport tb)" "inbound b = []"
    and sync: "sync ta tb"
    and server: "conn_key (conns s ra) = keyA" "incoming (conns s ra) = []" "incoming_open (conns s ra)"
      "active s keyB = Some rb" "outgoing_open (conns s rb)"
    and session: "\<forall>i. sid = Some i \<longrightarrow> length i = 16 \<and>
      (\<exists>x. get_session (sessions s) i = Some x \<and> keyB \<in> set (public_keys x))"
    and sizes: "buffer_ok keyA" "buffer_ok keyB" "length payload < 2 ^ 32" "enc \<noteq> Encoding_Noop"
  shows "\<exists>a1 a2 frame s' reply b1 b2 ta' tb'.
    relay E keyB payload enc broadcast sid a = (a1, Ok ()) \<and> loop_write E True (Ok ()) a1 = (a2, []) \<and>
    socket a2 = socket a @ [WsBinary frame] \<and> hop E now new_id ra (WsBinary frame) s = s' \<and>
    outgoing (conns s' rb) = outgoing (conns s rb) @ [reply] \<and>
    (\<forall>r. r \<noteq> rb \<longrightarrow> conns s' r = conns s r) \<and>
    loop_read E (Some reply) b = (b1, []) \<and>
    loop_event E random b1 = (b2, [Ok (message_event enc keyA payload sid)]) \<and>
    peers a2 keyB = Some (Transport ta') \<and> peers b2 keyA = Some (Transport tb') \<and> sync ta' tb'"
proof -
  have L: "stream_laws (stream E)" "zlib_laws E" "transport_laws (snow E) sync"
    using laws by (auto simp: env_laws_def)
  obtain ta' tb' chunks where ch:
    "encrypt_peer_channel (snow E) keyB (Transport ta) payload enc broadcast sid =
      (Transport ta', Ok (Request_Opaque (PeerMessage keyB sid
         \<lparr>env_encoding = enc, env_chunks = chunks, env_broadcast = broadcast\<rparr>)))"
    "\<And>from. decrypt_peer_channel (overflow_checks E) (snow E) (Transport tb)
        \<lparr>env_encoding = enc, env_chunks = chunks, env_broadcast = from\<rparr> = (Transport tb', Ok (enc, payload))"
    "sync ta' tb'" "length chunks = (length payload + CHUNK_SIZE - 1) div CHUNK_SIZE"
    "\<forall>c\<in>set chunks. chunk_length c \<le> 65535 \<and> length (chunk_contents c) = chunk_length c"
    using peer_channel_delivers [OF L(3) sync] by blast
  let ?e = "\<lparr>env_encoding = enc, env_chunks = chunks, env_broadcast = broadcast\<rparr>"
  let ?q = "Request_Opaque (PeerMessage keyB sid ?e)" and ?p = "Response_Opaque (PeerMessage keyA sid ?e)"
  have "envelope_ok ?e" using chunks_envelope_ok [OF ch(4) sizes(3) ch(5) sizes(4)] .
  then have ok: "request_message_ok (stream E) ?q" "response_message_ok (stream E) ?p"
    using session sizes(1,2) by auto
  let ?a1 = "a\<lparr>peers := (peers a)(keyB \<mapsto> Transport ta'), outbound := [Internal_Request ?q]\<rparr>"
  have 1: "relay E keyB payload enc broadcast sid a = (?a1, Ok ())"
    using A ch(1) by (simp add: relay_def outbound_send_def)
  obtain s1 where s1: "check_session E now sid keyB s = (s1, Ok ())" "conns s1 = conns s" "active s1 = active s"
    using session_accepts [OF session] by blast
  have "handle_request E now new_id ra ?q s = (queue_frame rb reply s1, Ok ())"
    if "\<And>s r. outgoing_open (conns s r) \<Longrightarrow> send_response E r ?p s = (queue_frame r reply s, Ok ())" for reply
    using s1 server that [of s1 rb] by (simp add: handle_request_def relay_to_def)
  then obtain frame reply where 2:
    "loop_write E True (Ok ()) ?a1 = (?a1\<lparr>outbound := [], socket := socket ?a1 @ [WsBinary frame]\<rparr>, [])"
    "hop E now new_id ra (WsBinary frame) s = queue_frame rb reply s1"
    "\<And>d. loop_read E (Some (WsBinary reply)) d = (d\<lparr>inbound := inbound d @ [?p]\<rparr>, [])"
    using request_hop [OF L(1,2) ok, of ?a1 s ra now new_id "\<lambda>reply. queue_frame rb reply s1"] server by auto
  have 3: "outgoing (conns (queue_frame rb reply s1) rb) = outgoing (conns s rb) @ [WsBinary reply]"
    "\<forall>r. r \<noteq> rb \<longrightarrow> conns (queue_frame rb reply s1) r = conns s r"
    using s1 by (simp_all add: update_conn_def)
  have 4: "loop_event E random (b\<lparr>inbound := inbound b @ [?p]\<rparr>) =
      (b\<lparr>inbound := [], peers := (peers b)(keyA \<mapsto> Transport tb')\<rparr>, [Ok (message_event enc keyA payload sid)])"
    using B ch(2) sizes(4)
    by (cases enc) (simp_all add: loop_event_def handle_incoming_message_def handle_relayed_message_def
        some_event_def yields_def)
  show ?thesis
    using 1 2 3 4 ch(3) by (intro exI conjI) (assumption | simp | rule refl)+
qed

definition channel_client :: "bytes \<Rightarrow> bytes \<Rightarrow> (bool \<times> nat, nat \<times> nat) client" where
  "channel_client own other = sample_client own\<lparr>peers := [other \<mapsto> Transport (0, 0)]\<rparr>"

theorem relayed_message_delivered_witness:
  "\<exists>a1 a2 frame s' reply b1 b2.
    relay sample_env [2] [4, 5, 6] Blob False (Some sample_uuid) (channel_client [1] [2]) = (a1, Ok ()) \<and>
    loop_write sample_env True (Ok ()) a1 = (a2, []) \<and> socket a2 = [WsBinary frame] \<and>
    hop sample_env 0 [] 0 (WsBinary frame) sample_state = s' \<and>
    outgoing (conns s' 1) = outgoing (conns sample_state 1) @ [reply] \<and>
    loop_read sample_env (Some reply) (channel_client [2] [1]) = (b1, []) \<and>
    loop_event sample_env 0 b1 = (b2, [Ok (BinaryMessage [1] [4, 5, 6] (Some sample_uuid))])"
proof -
  have x: "get_session (sessions sample_state) sample_uuid = Some sample_session"
    by (simp add: sample_state_def get_session_def)
  have "\<forall>i. Some sample_uuid = Some i \<longrightarrow> length i = 16 \<and>
      (\<exists>x. get_session (sessions sample_state) i = Some x \<and> [2] \<in> set (public_keys x))"
    using x by (simp add: sample_session_def public_keys_def)
  moreover have "peers (channel_client [1] [2]) [2] = Some (Transport (0, 0))" "outbound (channel_client [1] [2]) = []"
    "outbound_open (channel_client [1] [2])" "peers (channel_client [2] [1]) [1] = Some (Transport (0, 0))"
    "inbound (channel_client [2] [1]) = []" "counter_sync (0, 0) (0, 0)"
    by (simp_all add: channel_client_def sample_client_def counter_sync_def)
  moreover have "conn_key (conns sample_state 0) = [1]" "incoming (conns sample_state 0) = []"
    "incoming_open (conns sample_state 0)" "active sample_state [2] = Some 1" "outgoing_open (conns sample_state 1)"
    by (simp_all add: sample_state_def client_conn_def)
  moreover have "buffer_ok [1]" "buffer_ok [2]" "length [4, 5, 6 :: byte] < 2 ^ 32" "Blob \<noteq> Encoding_Noop"
    by (simp_all add: buffer_ok_def MAX_BUFFER_SIZE_def)
  moreover have d: "socket (channel_client [1] [2]) = []" by (simp add: channel_client_def sample_client_def)
  ultimately show ?thesis
    using relayed_message_delivered [OF sample_env_laws, of "channel_client [1] [2]" "[2]" "(0, 0)"
        "channel_client [2] [1]" "[1]" "(0, 0)" sample_state 0 1 "Some sample_uuid" "[4, 5, 6]" Blob False 0 "[]" 0]
    unfolding d append_Nil message_event.simps by blast
qed

text \<open>
  C11: Two clients that are both active at the server can establish a channel: \<open>connect_peer\<close> of
  one, a frame through the server each way and the two event loops lead to a synchronised channel in
  both directions, and each client reports the other as connected.
\<close>

theorem peer_handshake_completes:
  assumes laws: "env_laws E paired sync"
    and A: "peers a keyB = None" "outbound a = []" "outbound_open a" "inbound a = []"
      "ClientOptions_params E (options a) = Ok pa"
      "build_initiator (snow E) random pa (kp_private (opt_keypair (options a))) keyB = Ok i"
    and B: "peers b keyA = None" "outbound b = []" "outbound_open b" "inbound b = []"
      "ClientOptions_params E (options b) = Ok pb"
      "build_responder (snow E) random' pb (kp_private (opt_keypair (options b))) keyA = Ok h"
    and paired: "paired i h"
    and server: "active s keyA = Some ra" "active s keyB = Some rb" "conn_key (conns s ra) = keyA"
      "conn_key (conns s rb) = keyB" "incoming (conns s ra) = []" "incoming (conns s rb) = []"
      "incoming_open (conns s ra)" "incoming_open (conns s rb)" "outgoing_open (conns s ra)" "outgoing_open (conns s rb)"
    and sizes: "buffer_ok keyA" "buffer_ok keyB"
  shows "\<exists>a1 a2 f1 r1 b1 b2 b3 f2 r2 a3 a4 ta tb.
    connect_peer E random keyB a = (a1, Ok ()) \<and> loop_write E True (Ok ()) a1 = (a2, []) \<and>
    socket a2 = socket a @ [f1] \<and> outgoing (conns (hop E now new_id ra f1 s) rb) = outgoing (conns s rb) @ [r1] \<and>
    loop_read E (Some r1) b = (b1, []) \<and> loop_event E random' b1 = (b2, [Ok (PeerConnected keyA)]) \<and>
    loop_write E True (Ok ()) b2 = (b3, []) \<and> socket b3 = socket b @ [f2] \<and>
    (\<exists>queue. outgoing (conns (hop E now new_id rb f2 (hop E now new_id ra f1 s)) ra) = queue @ [r2]) \<and>
    loop_read E (Some r2) a2 = (a3, []) \<and> loop_event E random a3 = (a4, [Ok (PeerConnected keyB)]) \<and>
    peers a4 keyB = Some (Transport ta) \<and> peers b3 keyA = Some (Transport tb) \<and> sync ta tb \<and> sync tb ta"
proof -
  have L: "stream_laws (stream E)" "zlib_laws E" "handshake_laws (snow E) paired sync"
    using laws by (auto simp: env_laws_def)
  obtain i1 m1 h1 h2 m2 i2 ta tb where
    hs: "handshake_write (snow E) i [] 1024 = (i1, Ok m1)" "length m1 \<le> 1024"
      "handshake_read (snow E) h m1 1024 = (h1, Ok [])" "handshake_write (snow E) h1 [] 1024 = (h2, Ok m2)"
      "length m2 \<le> 1024" "handshake_read (snow E) i1 m2 1024 = (i2, Ok [])"
      "into_transport_mode (snow E) i2 = Ok ta" "into_transport_mode (snow E) h2 = Ok tb" "sync ta tb" "sync tb ta"
    using handshake_messages [OF L(3) paired] by blast
  let ?a = "a\<lparr>peers := (peers a)(keyB \<mapsto> Handshake i1)\<rparr>"
  obtain a1 f1 r1 b1 where 1: "connect_peer E random keyB a = (a1, Ok ())"
    "loop_write E True (Ok ()) a1 = (?a\<lparr>outbound := [], socket := socket a @ [WsBinary f1]\<rparr>, [])"
    "hop E now new_id ra (WsBinary f1) s = queue_frame rb r1 s" "loop_read E (Some (WsBinary r1)) b = (b1, [])"
    "loop_event E random' b1 = (b\<lparr>inbound := [], peers := (peers b)(keyA \<mapsto> Transport tb),
       outbound := [Internal_Request (Request_Transparent (PeerHandshake keyA (Handshake_Responder (length m2) (handshake_frame m2))))]\<rparr>,
       [Ok (PeerConnected keyA)])"
    by (rule hello_reaches_peer [OF L(1,2) A(1-3) A(5,6) B hs(1-4) hs(8) sizes server(3,5,7,2,10)]) (rule that, assumption+)
  let ?a2 = "?a\<lparr>outbound := [], socket := socket a @ [WsBinary f1]\<rparr>"
  let ?b2 = "b\<lparr>inbound := [], peers := (peers b)(keyA \<mapsto> Transport tb),
       outbound := [Internal_Request (Request_Transparent (PeerHandshake keyA (Handshake_Responder (length m2) (handshake_frame m2))))]\<rparr>"
  have pre: "outbound ?b2 = [Internal_Request (Request_Transparent (PeerHandshake keyA (Handshake_Responder (length m2) (handshake_frame m2))))]"
    "conn_key (conns (queue_frame rb r1 s) rb) = keyB" "incoming (conns (queue_frame rb r1 s) rb) = []"
    "incoming_open (conns (queue_frame rb r1 s) rb)" "active (queue_frame rb r1 s) keyA = Some ra"
    "outgoing_open (conns (queue_frame rb r1 s) ra)" "peers ?a2 keyB = Some (Handshake i1)" "inbound ?a2 = []"
    using server A(4) by simp_all
  obtain f2 r2 a3 where 2: "loop_write E True (Ok ()) ?b2 = (?b2\<lparr>outbound := [], socket := socket b @ [WsBinary f2]\<rparr>, [])"
    "hop E now new_id rb (WsBinary f2) (queue_frame rb r1 s) = queue_frame ra r2 (queue_frame rb r1 s)"
    "loop_read E (Some (WsBinary r2)) ?a2 = (a3, [])"
    "loop_event E random a3 = (?a2\<lparr>inbound := [], peers := (peers a)(keyB \<mapsto> Transport ta)\<rparr>, [Ok (PeerConnected keyB)])"
    by (rule reply_reaches_peer [OF L(1,2) hs(5-7) sizes pre, of now new_id random]) (rule that, simp_all)
  have 3: "\<exists>queue. outgoing (conns (queue_frame ra r2 (queue_frame rb r1 s)) ra) = queue @ [WsBinary r2]"
    "outgoing (conns (queue_frame rb r1 s) rb) = outgoing (conns s rb) @ [WsBinary r1]"
    by (simp_all add: update_conn_def)
  show ?thesis
    by (rule exI [of _ a1], rule exI [of _ ?a2], rule exI [of _ "WsBinary f1"], rule exI [of _ "WsBinary r1"],
        rule exI [of _ b1], rule exI [of _ ?b2], rule exI [of _ "?b2\<lparr>outbound := [], socket := socket b @ [WsBinary f2]\<rparr>"],
        rule exI [of _ "WsBinary f2"], rule exI [of _ "WsBinary r2"], rule exI [of _ a3],
        rule exI [of _ "?a2\<lparr>inbound := [], peers := (peers a)(keyB \<mapsto> Transport ta)\<rparr>"],
        rule exI [of _ ta], rule exI [of _ tb], unfold 1(3) 2(2))
       (intro conjI 1(1,2,4,5) 2(1,3,4) 3 hs(9,10), simp_all)
qed

theorem peer_handshake_completes_witness:
  "\<exists>a1 a2 f1 r1 b1 b2 b3 f2 r2 a3 a4.
    connect_peer sample_env 0 [2] (sample_client [1]) = (a1, Ok ()) \<and> loop_write sample_env True (Ok ()) a1 = (a2, []) \<and>
    outgoing (conns (hop sample_env 0 [] 0 f1 sample_state) 1) = outgoing (conns sample_state 1) @ [r1] \<and>
    loop_read sample_env (Some r1) (sample_client [2]) = (b1, []) \<and>
    loop_event sample_env 0 b1 = (b2, [Ok (PeerConnected [1])]) \<and> loop_write sample_env True (Ok ()) b2 = (b3, []) \<and>
    (\<exists>queue. outgoing (conns (hop sample_env 0 [] 1 f2 (hop sample_env 0 [] 0 f1 sample_state)) 0) = queue @ [r2]) \<and>
    loop_read sample_env (Some r2) a2 = (a3, []) \<and> loop_event sample_env 0 a3 = (a4, [Ok (PeerConnected [2])])"
proof -
  have f1: "ClientOptions_params sample_env (options (sample_client k)) = Ok PATTERN" for k
    by (simp add: ClientOptions_params_def sample_client_def sample_env_def counter_snow_def)
  have f2: "build_initiator (snow sample_env) r p k1 k2 = Ok (True, 0)"
    "build_responder (snow sample_env) r p k1 k2 = Ok (False, 0)" for r p k1 k2
    by (simp_all add: sample_env_def counter_snow_def)
  have f3: "peers (sample_client k) k' = None" "outbound (sample_client k) = []" "outbound_open (sample_client k)"
    "inbound (sample_client k) = []" for k k'
    by (simp_all add: sample_client_def)
  have f4: "counter_paired (True, 0) (False, 0)" by (simp add: counter_paired_def)
  have f5: "active sample_state [1] = Some 0" "active sample_state [2] = Some 1"
    "conn_key (conns sample_state 0) = [1]" "conn_key (conns sample_state 1) = [2]"
    "incoming (conns sample_state 0) = []" "incoming (conns sample_state 1) = []"
    "incoming_open (conns sample_state 0)" "incoming_open (conns sample_state 1)"
    "outgoing_open (conns sample_state 0)" "outgoing_open (conns sample_state 1)"
    by (simp_all add: sample_state_def client_conn_def)
  have f6: "buffer_ok [1]" "buffer_ok [2]" by (simp_all add: buffer_ok_def MAX_BUFFER_SIZE_def)
  show ?thesis
    using peer_handshake_completes [OF sample_env_laws, of "sample_client [1]" "[2]" PATTERN 0 "(True, 0)"
        "sample_client [2]" "[1]" PATTERN 0 "(False, 0)" sample_state 0 1 0 "[]"]
    by (simp only: f1 f2 f3 f4 f5 f6 simp_thms) blast
qed

text \<open>
  C17: What the server tells a client over the encrypted channel is what the client reports. A
  server message sent on a connection in transport mode is queued as one frame, which the event
  loop of the client at the other end decrypts and decodes; it then yields the one event that
  belongs to the message, with what the message carries, the error for an error message, and
  nothing for the messages that only clients send. Both ends stay synchronised, so that further
  messages arrive as well.
\<close>

theorem server_message_delivered:
  assumes laws: "env_laws E paired sync" and m: "server_ok (stream E) m"
    and size: "\<forall>bytes. encode ServerMessage_encode (stream E) m = Ok bytes \<longrightarrow> length bytes < 2 ^ 32"
    and conn: "conn_state (conns s r) = Some (Transport t)" "outgoing_open (conns s r)"
    and client: "server_channel c = Some (Transport u)" "inbound c = []" and sync: "sync t u"
  shows "\<exists>s' frame c1 c2 t' u'.
    send_message E r m broadcast s = (s', Ok ()) \<and> outgoing (conns s' r) = outgoing (conns s r) @ [frame] \<and>
    conn_state (conns s' r) = Some (Transport t') \<and>
    loop_read E (Some frame) c = (c1, []) \<and>
    loop_event E random c1 = (c2,
      case m of
        Server_Error code text \<Rightarrow> [Err (ServerError code text)]
      | MeetingCreated meeting \<Rightarrow> [Ok (Ev_MeetingCreated meeting)]
      | MeetingReady meeting \<Rightarrow> [Ok (Ev_MeetingReady meeting)]
      | SessionCreated session \<Rightarrow> [Ok (Ev_SessionCreated session)]
      | SessionReady session \<Rightarrow> [Ok (Ev_SessionReady session)]
      | SessionActive session \<Rightarrow> [Ok (Ev_SessionActive session)]
      | SessionTimeout sid \<Rightarrow> [Ok (Ev_SessionTimeout sid)]
      | SessionFinished sid \<Rightarrow> [Ok (Ev_SessionFinished sid)]
      | _ \<Rightarrow> []) \<and>
    server_channel c2 = Some (Transport u') \<and> sync t' u'"
proof -
  have L: "stream_laws (stream E)" "zlib_laws E" "transport_laws (snow E) sync"
    using laws by (auto simp: env_laws_def)
  obtain bytes where b: "encode ServerMessage_encode (stream E) m = Ok bytes"
    "decode ServerMessage_decode (stream E) bytes = Ok m"
    using server_codec.decode_encode [OF L(1) m] by blast
  obtain t' u' chunks where ch: "Chunk_split (snow E) bytes t = (t', Ok chunks)"
    "Chunk_join (overflow_checks E) (snow E) chunks u = (u', Ok bytes)" "sync t' u'"
    "length chunks = (length bytes + CHUNK_SIZE - 1) div CHUNK_SIZE"
    "\<forall>c\<in>set chunks. chunk_length c \<le> 65535 \<and> length (chunk_contents c) = chunk_length c"
    using chunk_split_join [OF L(3) sync, of bytes "overflow_checks E"] by blast
  let ?e = "\<lparr>env_encoding = Blob, env_chunks = chunks, env_broadcast = broadcast\<rparr>"
  have "envelope_ok ?e" using chunks_envelope_ok [OF ch(4) _ ch(5)] size b(1) by simp
  then have "response_message_ok (stream E) (Response_Opaque (Opaque_ServerMessage ?e))" by simp
  from response_frame [OF L(1,2) this] obtain frame where f:
    "\<And>s r. outgoing_open (conns s r) \<Longrightarrow> send_response E r (Response_Opaque (Opaque_ServerMessage ?e)) s =
       (update_conn r (\<lambda>conn. conn\<lparr>outgoing := outgoing conn @ [WsBinary frame]\<rparr>) s, Ok ())"
    "\<And>c. loop_read E (Some (WsBinary frame)) c =
       (c\<lparr>inbound := inbound c @ [Response_Opaque (Opaque_ServerMessage ?e)]\<rparr>, [])"
    by blast
  let ?s = "update_conn r (\<lambda>conn. conn\<lparr>outgoing := outgoing conn @ [WsBinary frame]\<rparr>) (set_state r (Some (Transport t')) s)"
  let ?c1 = "c\<lparr>inbound := inbound c @ [Response_Opaque (Opaque_ServerMessage ?e)]\<rparr>"
  let ?c2 = "c\<lparr>inbound := [], server_channel := Some (Transport u')\<rparr>"
  have "outgoing_open (conns (set_state r (Some (Transport t')) s) r)"
    using conn(2) by (simp add: set_state_def update_conn_def)
  from f(1) [OF this] have 1: "send_message E r m broadcast s = (?s, Ok ())"
    using b(1) conn(1) ch(1) by (simp add: send_message_def)
  have 2: "outgoing (conns ?s r) = outgoing (conns s r) @ [WsBinary frame]" "conn_state (conns ?s r) = Some (Transport t')"
    by (simp_all add: set_state_def update_conn_def)
  have "handle_incoming_message E random (Response_Opaque (Opaque_ServerMessage ?e)) (c\<lparr>inbound := []\<rparr>) =
      (?c2, handle_server_channel_message m)"
    using client ch(2) b(2) by (simp add: handle_incoming_message_def Let_def)
  then have 3: "loop_event E random ?c1 = (?c2,
      case m of
        Server_Error code text \<Rightarrow> [Err (ServerError code text)]
      | MeetingCreated meeting \<Rightarrow> [Ok (Ev_MeetingCreated meeting)]
      | MeetingReady meeting \<Rightarrow> [Ok (Ev_MeetingReady meeting)]
      | SessionCreated session \<Rightarrow> [Ok (Ev_SessionCreated session)]
      | SessionReady session \<Rightarrow> [Ok (Ev_SessionReady session)]
      | SessionActive session \<Rightarrow> [Ok (Ev_SessionActive session)]
      | SessionTimeout sid \<Rightarrow> [Ok (Ev_SessionTimeout sid)]
      | SessionFinished sid \<Rightarrow> [Ok (Ev_SessionFinished sid)]
      | _ \<Rightarrow> [])"
    using client(2) by (cases m) (simp_all add: loop_event_def yields_def)
  have 4: "server_channel ?c2 = Some (Transport u')" by simp
  show ?thesis using 1 2 f(2) 3 4 ch(3) by blast
qed

theorem server_message_delivered_witness:
  "\<exists>s' frame c1 c2. send_message sample_env 0 (SessionFinished sample_uuid) False sample_state = (s', Ok ()) \<and>
     outgoing (conns s' 0) = outgoing (conns sample_state 0) @ [frame] \<and>
     loop_read sample_env (Some frame) (sample_client [1]\<lparr>server_channel := Some (Transport (0, 0))\<rparr>) = (c1, []) \<and>
     loop_event sample_env 0 c1 = (c2, [Ok (Ev_SessionFinished sample_uuid)])"
proof -
  let ?m = "SessionFinished sample_uuid"
  let ?c = "sample_client [1]\<lparr>server_channel := Some (Transport (0, 0))\<rparr>"
  have "encode ServerMessage_encode (stream sample_env) ?m = Ok (SESSION_FINISHED # sample_uuid)"
    by (simp add: encode_def ServerMessage_encode_def sample_env_def le_stream_def write_seq.simps
        MAX_BUFFER_SIZE_def kind_defs)
  then have "\<forall>bytes. encode ServerMessage_encode (stream sample_env) ?m = Ok bytes \<longrightarrow> length bytes < 2 ^ 32"
    by simp
  moreover have "server_ok (stream sample_env) ?m" by simp
  moreover have "conn_state (conns sample_state 0) = Some (Transport (0, 0))" "outgoing_open (conns sample_state 0)"
    by (simp_all add: sample_state_def client_conn_def)
  moreover have "server_channel ?c = Some (Transport (0, 0))" "inbound ?c = []" "counter_sync (0, 0) (0, 0)"
    by (simp_all add: sample_client_def counter_sync_def)
  ultimately show ?thesis
    using server_message_delivered [OF sample_env_laws, of ?m sample_state 0 "(0, 0)" ?c "(0, 0)" False 0]
    by (simp only: server_message.simps) blast
qed

end
